(* ===== verification/Prelude.thy ===== *)
theory Prelude
  imports Main "HOL-Library.Multiset" "HOL-Library.Word"
begin

text \<open>
  Shared vocabulary of the development. A Rust function that can panic returns a
  value of \<open>'a res\<close>: \<open>Inl\<close> carries the panic, \<open>Inr\<close> the value. A \<open>usize\<close> is a
  64-bit unsigned number, kept as a \<open>nat\<close> with its bound written out where an
  operation can exceed it. The theory also holds the list routines of the Rust
  standard library that several components use (\<open>position\<close>, \<open>dedup\<close>, checked
  indexing, \<open>sort_by_key\<close> with a key that can panic), the locale of a machine
  that runs over a list of events, and the lemmas about all of them.
\<close>

section \<open>Panics\<close>

datatype panic =
    IndexOutOfBounds
  | DivideByZero
  | ArithOverflow
  | UnwrapNone
  | AssertFailed
  | NotImplemented

type_synonym 'a res = "panic + 'a"

type_synonym bytes = "8 word list"

fun res_bind :: "'a res \<Rightarrow> ('a \<Rightarrow> 'b res) \<Rightarrow> 'b res" where
  "res_bind (Inl e) f = Inl e"
| "res_bind (Inr x) f = f x"

fun res_mapM :: "('a \<Rightarrow> 'b res) \<Rightarrow> 'a list \<Rightarrow> 'b list res" where
  "res_mapM f [] = Inr []"
| "res_mapM f (x # xs) =
     res_bind (f x) (\<lambda>y. res_bind (res_mapM f xs) (\<lambda>ys. Inr (y # ys)))"

fun res_fold :: "('s \<Rightarrow> 'a \<Rightarrow> 's res) \<Rightarrow> 's \<Rightarrow> 'a list \<Rightarrow> 's res" where
  "res_fold f s [] = Inr s"
| "res_fold f s (x # xs) = res_bind (f s x) (\<lambda>s'. res_fold f s' xs)"

text \<open>\<open>Option::unwrap\<close> and \<open>Option::expect\<close>.\<close>

fun unwrap :: "'a option \<Rightarrow> 'a res" where
  "unwrap None = Inl UnwrapNone"
| "unwrap (Some x) = Inr x"

text \<open>\<open>xs[i]\<close> on a \<open>Vec\<close> and the checked \<open>xs.get(i)\<close>.\<close>

definition index :: "'a list \<Rightarrow> nat \<Rightarrow> 'a res" where
  "index xs i = (if i < length xs then Inr (xs ! i) else Inl IndexOutOfBounds)"

definition get :: "'a list \<Rightarrow> nat \<Rightarrow> 'a option" where
  "get xs i = (if i < length xs then Some (xs ! i) else None)"

section \<open>Machine arithmetic\<close>

definition usize_max :: nat where
  "usize_max = 2 ^ 64 - 1"

definition checked_usize :: "nat \<Rightarrow> nat res" where
  "checked_usize n = (if n \<le> usize_max then Inr n else Inl ArithOverflow)"

definition checked_sub :: "nat \<Rightarrow> nat \<Rightarrow> nat res" where
  "checked_sub a b = (if b \<le> a then Inr (a - b) else Inl ArithOverflow)"

definition checked_div :: "nat \<Rightarrow> nat \<Rightarrow> nat res" where
  "checked_div a b = (if b = 0 then Inl DivideByZero else Inr (a div b))"

definition checked_rem :: "nat \<Rightarrow> nat \<Rightarrow> nat res" where
  "checked_rem a b = (if b = 0 then Inl DivideByZero else Inr (a mod b))"

definition saturating_mul :: "nat \<Rightarrow> nat \<Rightarrow> nat" where
  "saturating_mul a b = min (a * b) usize_max"

section \<open>List routines of the standard library\<close>

fun position :: "('a \<Rightarrow> bool) \<Rightarrow> 'a list \<Rightarrow> nat option" where
  "position P [] = None"
| "position P (x # xs) = (if P x then Some 0 else map_option Suc (position P xs))"

text \<open>\<open>Vec::dedup\<close> drops consecutive repetitions.\<close>

fun dedup :: "'a list \<Rightarrow> 'a list" where
  "dedup [] = []"
| "dedup [x] = [x]"
| "dedup (x # y # xs) = (if x = y then dedup (y # xs) else x # dedup (y # xs))"

text \<open>
  \<open>sort_by_key\<close> with a key function that can panic. The sort is stable; the key
  function is not called at all on a slice of length below two, and at least
  once on every element otherwise.
\<close>

definition sort_by_key_res :: "('a \<Rightarrow> nat res) \<Rightarrow> 'a list \<Rightarrow> 'a list res" where
  "sort_by_key_res f xs =
     (if length xs < 2 then Inr xs
      else res_bind (res_mapM f xs) (\<lambda>ks. Inr (map snd (sort_key fst (zip ks xs)))))"

section \<open>Automation shared by the components\<close>

named_theorems res_simps \<open>rewriting of panicking operations\<close>

lemma res_bind_eq_Inr [res_simps]:
  "res_bind m f = Inr y \<longleftrightarrow> (\<exists>x. m = Inr x \<and> f x = Inr y)"
  by (cases m) auto

lemma res_bind_eq_Inl [res_simps]:
  "res_bind m f = Inl e \<longleftrightarrow> m = Inl e \<or> (\<exists>x. m = Inr x \<and> f x = Inl e)"
  by (cases m) auto

lemma res_bind_assoc:
  "res_bind (res_bind m f) g = res_bind m (\<lambda>x. res_bind (f x) g)"
  by (cases m) auto

lemma res_bind_Inr_right [simp]: "res_bind m Inr = m"
  by (cases m) auto

lemma index_eq_Inr [res_simps]: "index xs i = Inr x \<longleftrightarrow> i < length xs \<and> x = xs ! i"
  by (auto simp: index_def)

lemma index_eq_Inl [res_simps]:
  "index xs i = Inl e \<longleftrightarrow> length xs \<le> i \<and> e = IndexOutOfBounds"
  by (auto simp: index_def)

lemma index_in_range [simp]: "i < length xs \<Longrightarrow> index xs i = Inr (xs ! i)"
  by (simp add: index_def)

lemma get_eq_Some [res_simps]: "get xs i = Some x \<longleftrightarrow> i < length xs \<and> x = xs ! i"
  by (auto simp: get_def)

lemma get_eq_None [res_simps]: "get xs i = None \<longleftrightarrow> length xs \<le> i"
  by (auto simp: get_def)

lemma unwrap_eq_Inr [res_simps]: "unwrap m = Inr x \<longleftrightarrow> m = Some x"
  by (cases m) auto

lemma unwrap_eq_Inl [res_simps]: "unwrap m = Inl e \<longleftrightarrow> m = None \<and> e = UnwrapNone"
  by (cases m) auto

lemma checked_div_eq_Inr [res_simps]:
  "checked_div a b = Inr c \<longleftrightarrow> b \<noteq> 0 \<and> c = a div b"
  by (auto simp: checked_div_def)

lemma checked_rem_eq_Inr [res_simps]:
  "checked_rem a b = Inr c \<longleftrightarrow> b \<noteq> 0 \<and> c = a mod b"
  by (auto simp: checked_rem_def)

lemma checked_sub_eq_Inr [res_simps]:
  "checked_sub a b = Inr c \<longleftrightarrow> b \<le> a \<and> c = a - b"
  by (auto simp: checked_sub_def)

lemma checked_usize_eq_Inr [res_simps]:
  "checked_usize n = Inr m \<longleftrightarrow> n \<le> usize_max \<and> m = n"
  by (auto simp: checked_usize_def)

section \<open>Lemmas on folds and sorting\<close>

lemma res_mapM_Inr:
  assumes "\<And>x. x \<in> set xs \<Longrightarrow> f x = Inr (g x)"
  shows "res_mapM f xs = Inr (map g xs)"
  using assms by (induction xs) auto

lemma res_mapM_no_panic:
  assumes "\<And>x. x \<in> set xs \<Longrightarrow> \<exists>y. f x = Inr y"
  shows "\<exists>ys. res_mapM f xs = Inr ys \<and> length ys = length xs"
  using assms
proof (induction xs)
  case (Cons x xs)
  then obtain y ys where "f x = Inr y" "res_mapM f xs = Inr ys" "length ys = length xs"
    by (metis list.set_intros)
  then show ?case by simp
qed simp

lemma res_mapM_nth:
  "res_mapM f xs = Inr ys \<Longrightarrow> length ys = length xs \<and> (\<forall>i < length xs. f (xs ! i) = Inr (ys ! i))"
proof (induction xs arbitrary: ys)
  case (Cons x xs)
  from Cons.prems obtain z zs where "f x = Inr z" "res_mapM f xs = Inr zs" "ys = z # zs"
    by (auto simp: res_simps)
  with Cons.IH [of zs] show ?case by (simp add: less_Suc_eq_0_disj) auto
qed simp

lemma map_of_rev_zip_upt:
  assumes "distinct xs"
  shows "map_of (rev (zip xs [0 ..< length xs])) x = Some i \<longleftrightarrow> i < length xs \<and> xs ! i = x"
proof -
  have "distinct (map fst (rev (zip xs [0 ..< length xs])))"
    using assms by (simp add: rev_map [symmetric])
  then have "map_of (rev (zip xs [0 ..< length xs])) x = Some i \<longleftrightarrow>
      (x, i) \<in> set (zip xs [0 ..< length xs])"
    by (simp add: map_of_eq_Some_iff)
  also have "\<dots> \<longleftrightarrow> i < length xs \<and> xs ! i = x"
    by (auto simp: set_zip)
  finally show ?thesis .
qed

lemma res_fold_append:
  "res_fold f s (xs @ ys) = res_bind (res_fold f s xs) (\<lambda>s'. res_fold f s' ys)"
  by (induction xs arbitrary: s) (auto simp: res_bind_assoc)

lemma res_fold_invariant:
  assumes "I s" and "\<And>s x s'. I s \<Longrightarrow> x \<in> set xs \<Longrightarrow> f s x = Inr s' \<Longrightarrow> I s'"
    and "res_fold f s xs = Inr t"
  shows "I t"
  using assms
proof (induction xs arbitrary: s)
  case (Cons x xs)
  from Cons.prems(3) obtain s' where s': "f s x = Inr s'" and t: "res_fold f s' xs = Inr t"
    by (auto simp: res_simps)
  have "I s'" using Cons.prems(1,2) s' by (meson list.set_intros(1))
  then show ?case using Cons.IH [OF _ _ t] Cons.prems(2) by (meson list.set_intros(2))
qed simp

lemma res_fold_total:
  "(\<And>s x. x \<in> set xs \<Longrightarrow> \<exists>s'. f s x = Inr s') \<Longrightarrow> \<exists>t. res_fold f s xs = Inr t"
proof (induction xs arbitrary: s)
  case (Cons x xs)
  then obtain s' where "f s x = Inr s'" by (meson list.set_intros(1))
  then show ?case using Cons by simp
qed simp

lemma res_fold_total_inv:
  assumes "I s" and "\<And>s x. I s \<Longrightarrow> x \<in> set xs \<Longrightarrow> \<exists>s'. f s x = Inr s' \<and> I s'"
  shows "\<exists>t. res_fold f s xs = Inr t \<and> I t"
  using assms
proof (induction xs arbitrary: s)
  case (Cons x xs)
  then obtain s' where "f s x = Inr s'" "I s'" by (meson list.set_intros(1))
  then show ?case using Cons by simp
qed simp

lemma in_set_updateD: "x \<in> set (xs[i := y]) \<Longrightarrow> x = y \<or> x \<in> set xs"
  using set_update_subset_insert by fastforce

lemma position_Some_iff:
  "position P xs = Some i \<longleftrightarrow> i < length xs \<and> P (xs ! i) \<and> (\<forall>j<i. \<not> P (xs ! j))"
proof (induction xs arbitrary: i)
  case (Cons x xs)
  show ?case
  proof (cases i)
    case 0
    then show ?thesis by auto
  next
    case (Suc k)
    then show ?thesis using Cons.IH [of k] by (auto simp: less_Suc_eq_0_disj)
  qed
qed simp

lemma position_None_iff: "position P xs = None \<longleftrightarrow> (\<forall>x \<in> set xs. \<not> P x)"
  by (induction xs) auto

lemma position_ex: "x \<in> set xs \<Longrightarrow> P x \<Longrightarrow> \<exists>i. position P xs = Some i"
  using position_None_iff [of P xs] by (cases "position P xs") auto

lemma set_dedup [simp]: "set (dedup xs) = set xs"
  by (induction xs rule: dedup.induct) auto

lemma sorted_dedup_distinct:
  "sorted xs \<Longrightarrow> sorted (dedup xs) \<and> distinct (dedup xs)" for xs :: "'a::linorder list"
  by (induction xs rule: dedup.induct) (auto simp: order.antisym)

lemma mset_sort_by_key_res:
  assumes "sort_by_key_res f xs = Inr ys"
  shows "set ys = set xs \<and> length ys = length xs \<and> (distinct xs \<longrightarrow> distinct ys)"
proof (cases "length xs < 2")
  case True
  with assms show ?thesis by (simp add: sort_by_key_res_def)
next
  case False
  with assms obtain ks where ks: "res_mapM f xs = Inr ks"
    and ys: "ys = map snd (sort_key fst (zip ks xs))"
    by (auto simp: sort_by_key_res_def res_simps)
  have len: "length ks = length xs"
    using ks by (induction xs arbitrary: ks) (auto simp: res_simps)
  have "mset ys = mset (map snd (zip ks xs))"
    by (simp add: ys)
  then have m: "mset ys = mset xs"
    using len by (simp only: map_snd_zip)
  show ?thesis
    using m by (metis mset_eq_setD mset_eq_length mset_eq_imp_distinct_iff)
qed

lemma sort_by_key_res_no_panic:
  assumes "\<And>x. x \<in> set xs \<Longrightarrow> \<exists>k. f x = Inr k"
  shows "\<exists>ys. sort_by_key_res f xs = Inr ys"
  using res_mapM_no_panic [of xs f] assms by (auto simp: sort_by_key_res_def)

section \<open>Machines driven by events\<close>

text \<open>
  A component whose step handles one event. A property that every step keeps on an
  admissible event holds after every run over such events that does not panic.
  Every stateful component of the development is an instance.
\<close>

locale event_machine =
  fixes step :: "'s \<Rightarrow> 'e \<Rightarrow> 's res"
    and inv :: "'s \<Rightarrow> bool"
    and ok :: "'e \<Rightarrow> bool"
  assumes step_inv: "inv s \<Longrightarrow> ok e \<Longrightarrow> step s e = Inr s' \<Longrightarrow> inv s'"
begin

lemma run_inv:
  assumes "inv s" "\<And>e. e \<in> set es \<Longrightarrow> ok e" "res_fold step s es = Inr t"
  shows "inv t"
  using assms(1) _ assms(3)
  by (rule res_fold_invariant [where I = inv and f = step and xs = es])
    (use assms(2) step_inv in blast)

end

text \<open>A machine whose steps also never panic while the property holds.\<close>

locale total_event_machine = event_machine +
  assumes step_total: "inv s \<Longrightarrow> ok e \<Longrightarrow> \<exists>s'. step s e = Inr s'"
begin

lemma run_total:
  "inv s \<Longrightarrow> (\<And>e. e \<in> set es \<Longrightarrow> ok e) \<Longrightarrow> \<exists>t. res_fold step s es = Inr t \<and> inv t"
proof (induction es arbitrary: s)
  case (Cons e es)
  then obtain s' where s': "step s e = Inr s'" by (meson list.set_intros(1) step_total)
  then have "inv s'" using Cons.prems(1,2) step_inv by (meson list.set_intros(1))
  then show ?case using Cons.IH [of s'] Cons.prems(2) s' by auto
qed simp

end

text \<open>
  A measure of the state that no step lowers does not go down along a run: the form
  in which a component promises that what it has learnt is kept.
\<close>

locale monotone_machine =
  fixes step :: "'s \<Rightarrow> 'e \<Rightarrow> 's res"
    and below :: "'s \<Rightarrow> 's \<Rightarrow> bool"
  assumes below_refl: "below s s"
    and below_trans: "below s t \<Longrightarrow> below t u \<Longrightarrow> below s u"
    and step_below: "step s e = Inr s' \<Longrightarrow> below s s'"
begin

lemma run_below: "res_fold step s es = Inr t \<Longrightarrow> below s t"
proof (induction es arbitrary: s)
  case Nil
  then show ?case by (simp add: below_refl)
next
  case (Cons e es)
  then obtain s' where "step s e = Inr s'" "below s' t" by (auto simp: res_simps)
  then show ?case using step_below below_trans by blast
qed

end

end
