(* ===== verification/Partitioning.thy ===== *)
theory Partitioning
  imports Prelude
begin

text \<open>
  The partitioning of a peer set in the Handel overlay
  (\<open>spectrum-handel/src/partitioning.rs\<close>). The overlay pads the peer set with fake
  peers to a power of two, orders it by a pseudo-random priority and splits it,
  as seen from the host, into the sibling blocks of a binary tree: level \<open>l\<close> holds
  the \<open>2 ^ (l - 1)\<close> indices that share the host's block of size \<open>2 ^ l\<close> and not its
  block of size \<open>2 ^ (l - 1)\<close>. The hash functions (\<open>gen_priority\<close>, \<open>gen_vp\<close>) and the
  generator of random peer identifiers are parameters.
\<close>

section \<open>Data\<close>

type_synonym peer_ix = nat

datatype peer_ord = VP | CVP

text \<open>The operations of the trait \<open>GenPermutation\<close>.\<close>

record 'pid gen_permutation =
  gen_priority :: "'pid \<Rightarrow> nat"
  gen_vp :: "peer_ix \<Rightarrow> peer_ix \<Rightarrow> nat"

text \<open>The struct \<open>BinomialPeerPartitions\<close>.\<close>

record ('pid, 'addr) binomial_peer_partitions =
  bp_peers :: "'pid list"
  bp_peer_index :: "'pid \<rightharpoonup> peer_ix"
  bp_partitions_by_vp :: "peer_ix list list"
  bp_partitions_by_cvp :: "peer_ix list list"
  bp_addr_book :: "'pid \<rightharpoonup> 'addr"

section \<open>Operations\<close>

text \<open>
  \<open>normalize\<close> looks for the first power of two that is not below \<open>n\<close>; the power of a
  \<open>u32\<close> overflows at \<open>2 ^ 32\<close>.
\<close>

function normalize_from :: "nat \<Rightarrow> nat \<Rightarrow> nat res" where
  "normalize_from n pw =
     (if 32 \<le> pw then Inl ArithOverflow
      else if n \<le> 2 ^ pw then Inr (2 ^ pw)
      else normalize_from n (Suc pw))"
  by pat_completeness auto
termination
  by (relation "measure (\<lambda>(n, pw). 32 - pw)") auto

declare normalize_from.simps [simp del]

definition normalize :: "nat \<Rightarrow> nat res" where
  "normalize n = normalize_from n 0"

text \<open>
  The loop of \<open>bin_partition\<close>. The two bounds are \<open>usize\<close>, so \<open>max - min\<close> panics when
  the lower bound has passed the upper one.
\<close>

function bin_partition_loop ::
  "nat \<Rightarrow> nat \<Rightarrow> nat \<Rightarrow> peer_ix list list \<Rightarrow> peer_ix list list res" where
  "bin_partition_loop own_index mn mx partitions =
     (if mx < mn then Inl ArithOverflow
      else
        let mid = mn + (mx - mn) div 2
        in if own_index > mid
           then
             let partitions' = partitions @ [[mn ..< mid + 1]]; mn' = mid + 1
             in if mn' = mx then Inr partitions'
                else bin_partition_loop own_index mn' mx partitions'
           else
             let partitions' = partitions @ [[mid + 1 ..< mx + 1]]; mx' = mid
             in if mn = mx' then Inr partitions'
                else bin_partition_loop own_index mn mx' partitions')"
  by pat_completeness auto
termination
  by (relation "measure (\<lambda>(own_index, mn, mx, partitions). Suc mx - mn)") auto

declare bin_partition_loop.simps [simp del]

definition bin_partition :: "nat \<Rightarrow> nat \<Rightarrow> peer_ix list list res" where
  "bin_partition own_index num_nodes =
     res_bind (checked_sub num_nodes 1) (\<lambda>mx.
     res_bind (bin_partition_loop own_index 0 mx []) (\<lambda>partitions.
       Inr (rev (partitions @ [[]]))))"

definition ordered_by_vp ::
  "'pid gen_permutation \<Rightarrow> peer_ix list list \<Rightarrow> peer_ix \<Rightarrow> peer_ix list list" where
  "ordered_by_vp rng partitions host_peer_ix =
     map (sort_key (gen_vp rng host_peer_ix)) partitions"

text \<open>The sort key of \<open>ordered_by_cvp\<close>: the host's rank in the view of peer \<open>pix\<close>.\<close>

definition cvp_rank ::
  "'pid gen_permutation \<Rightarrow> peer_ix \<Rightarrow> nat \<Rightarrow> nat \<Rightarrow> peer_ix \<Rightarrow> nat res" where
  "cvp_rank rng host_peer_ix num_nodes l pix =
     res_bind (bin_partition pix num_nodes) (\<lambda>pts.
     res_bind (index pts l) (\<lambda>pt.
       unwrap (position (\<lambda>ix. ix = host_peer_ix) (sort_key (gen_vp rng pix) pt))))"

definition ordered_by_cvp ::
  "'pid gen_permutation \<Rightarrow> peer_ix list list \<Rightarrow> peer_ix \<Rightarrow> nat \<Rightarrow> peer_ix list list res" where
  "ordered_by_cvp rng partitions host_peer_ix num_nodes =
     res_mapM (\<lambda>(l, pt). sort_by_key_res (cvp_rank rng host_peer_ix num_nodes l) pt)
       (enumerate 0 partitions)"

text \<open>
  \<open>BinomialPeerPartitions::new\<close>. The parameter \<open>gen_fakes n\<close> is the sequence in which
  the hash set of \<open>n\<close> freshly generated identifiers is iterated.
\<close>

definition new_partitions ::
  "(nat \<Rightarrow> 'pid list) \<Rightarrow> 'pid gen_permutation \<Rightarrow> 'pid \<Rightarrow> ('pid \<times> 'addr option) list
   \<Rightarrow> ('pid, 'addr) binomial_peer_partitions res" where
  "new_partitions gen_fakes rng host_peer_id peers =
     (if 2 ^ 32 \<le> length peers then Inl UnwrapNone else
      res_bind (normalize (length peers)) (\<lambda>normalized_num_peers.
      let num_fake_peers = normalized_num_peers - length peers;
          fake_peers = gen_fakes num_fake_peers;
          all_peers = sort_key (gen_priority rng) (map fst peers @ fake_peers);
          total_index = map_of (rev (zip all_peers [0 ..< length all_peers]));
          num_nodes = length all_peers
      in res_bind (unwrap (position (\<lambda>pid. pid = host_peer_id) all_peers)) (\<lambda>host_peer_ix.
         res_bind (bin_partition host_peer_ix num_nodes) (\<lambda>partitions.
         res_bind (res_mapM (\<lambda>pt. res_mapM (index all_peers) pt) partitions) (\<lambda>_.
         let cleared_partitions =
               map (filter (\<lambda>pix. all_peers ! pix \<notin> set fake_peers)) partitions
         in res_bind (ordered_by_cvp rng cleared_partitions host_peer_ix num_nodes) (\<lambda>by_cvp.
            Inr \<lparr>bp_peers = all_peers,
                 bp_peer_index = total_index,
                 bp_partitions_by_vp = ordered_by_vp rng cleared_partitions host_peer_ix,
                 bp_partitions_by_cvp = by_cvp,
                 bp_addr_book =
                   map_of (rev (List.map_filter
                     (\<lambda>(pid, maybe_addr). map_option (Pair pid) maybe_addr) peers))\<rparr>))))))"

text \<open>The implementation of the trait \<open>PeerPartitions\<close>.\<close>

definition peers_at_level ::
  "('pid, 'addr) binomial_peer_partitions \<Rightarrow> nat \<Rightarrow> peer_ord \<Rightarrow> peer_ix list res" where
  "peers_at_level pp level ord =
     (case ord of
        VP \<Rightarrow> index (bp_partitions_by_vp pp) level
      | CVP \<Rightarrow> index (bp_partitions_by_cvp pp) level)"

definition identify_peer :: "('pid, 'addr) binomial_peer_partitions \<Rightarrow> peer_ix \<Rightarrow> 'pid res" where
  "identify_peer pp peer_ix = index (bp_peers pp) peer_ix"

definition try_index_peer ::
  "('pid, 'addr) binomial_peer_partitions \<Rightarrow> 'pid \<Rightarrow> peer_ix option" where
  "try_index_peer pp peer_id = bp_peer_index pp peer_id"

definition addr_hint :: "('pid, 'addr) binomial_peer_partitions \<Rightarrow> 'pid \<Rightarrow> 'addr option" where
  "addr_hint pp peer_id = bp_addr_book pp peer_id"

definition num_levels :: "('pid, 'addr) binomial_peer_partitions \<Rightarrow> nat" where
  "num_levels pp = length (bp_partitions_by_vp pp)"

section \<open>Specification\<close>

text \<open>
  The block of indices that level \<open>l\<close> of the overlay holds for \<open>own_index\<close>: the
  sibling, at height \<open>l - 1\<close>, of the block \<open>own_index\<close> lies in.
\<close>

definition sibling :: "nat \<Rightarrow> nat" where
  "sibling q = (if even q then q + 1 else q - 1)"

definition level_block :: "nat \<Rightarrow> nat \<Rightarrow> peer_ix list" where
  "level_block own_index l =
     (if l = 0 then []
      else let w = 2 ^ (l - 1); b = sibling (own_index div w) in [b * w ..< (b + 1) * w])"

text \<open>
  What is relied on of the generator of random identifiers: it returns as many
  identifiers as asked for, all different and none of them a real peer.
\<close>

definition fresh_ids :: "(nat \<Rightarrow> 'pid list) \<Rightarrow> 'pid set \<Rightarrow> bool" where
  "fresh_ids gen_fakes real \<longleftrightarrow>
     (\<forall>n. length (gen_fakes n) = n \<and> distinct (gen_fakes n) \<and> set (gen_fakes n) \<inter> real = {})"

text \<open>
  What \<open>new_partitions\<close> establishes for the set \<open>real\<close> of the peers it was given and
  the host: the padded peer list is a permutation with a power of two of entries,
  the index is its inverse, and level \<open>l\<close> holds in both orders the real peers of the
  block of the host.
\<close>

definition overlay_ok ::
  "'pid set \<Rightarrow> 'pid \<Rightarrow> nat \<Rightarrow> ('pid, 'addr) binomial_peer_partitions \<Rightarrow> bool" where
  "overlay_ok real host m pp \<longleftrightarrow>
     0 < m \<and> length (bp_peers pp) = 2 ^ m \<and> distinct (bp_peers pp) \<and>
     host \<in> real \<and> real \<subseteq> set (bp_peers pp) \<and> 2 ^ (m - 1) < card real \<and>
     (\<forall>pid i. bp_peer_index pp pid = Some i \<longleftrightarrow> i < 2 ^ m \<and> bp_peers pp ! i = pid) \<and>
     length (bp_partitions_by_vp pp) = Suc m \<and> length (bp_partitions_by_cvp pp) = Suc m \<and>
     (\<forall>i l. bp_peer_index pp host = Some i \<longrightarrow> l \<le> m \<longrightarrow>
        distinct (bp_partitions_by_vp pp ! l) \<and> distinct (bp_partitions_by_cvp pp ! l) \<and>
        set (bp_partitions_by_vp pp ! l) = {j \<in> set (level_block i l). bp_peers pp ! j \<in> real} \<and>
        set (bp_partitions_by_cvp pp ! l) = {j \<in> set (level_block i l). bp_peers pp ! j \<in> real})"

text \<open>The same as an invariant of the partitions and the host's own index.\<close>

definition overlay_inv :: "peer_ix \<Rightarrow> ('pid, 'addr) binomial_peer_partitions \<Rightarrow> bool" where
  "overlay_inv own pp \<longleftrightarrow>
     (\<exists>real host m. overlay_ok real host m pp \<and> bp_peer_index pp host = Some own)"

section \<open>Normalisation to a power of two\<close>

lemma normalize_from_le:
  assumes "n \<le> 2 ^ 31" "pw \<le> 31" "\<forall>q<pw. 2 ^ q < n"
  shows "\<exists>k \<le> 31. normalize_from n pw = Inr (2 ^ k) \<and> n \<le> 2 ^ k \<and> (\<forall>q<k. 2 ^ q < n)"
  using assms
proof (induction n pw rule: normalize_from.induct)
  case (1 n pw)
  show ?case
  proof (cases "n \<le> 2 ^ pw")
    case True
    with "1.prems" show ?thesis by (auto simp: normalize_from.simps [of n pw])
  next
    case False
    with "1.prems"(1) have "pw \<noteq> 31" by auto
    with "1.prems" False have "Suc pw \<le> 31" "\<forall>q<Suc pw. 2 ^ q < n"
      by (auto simp: less_Suc_eq)
    with "1.IH" "1.prems"(1,2) False show ?thesis
      by (simp add: normalize_from.simps [of n pw])
  qed
qed

lemma normalize_from_overflow:
  "2 ^ 31 < n \<Longrightarrow> normalize_from n pw = Inl ArithOverflow"
proof (induction n pw rule: normalize_from.induct)
  case (1 n pw)
  show ?case
  proof (cases "32 \<le> pw")
    case False
    then have "(2::nat) ^ pw \<le> 2 ^ 31" by (intro power_increasing) auto
    with "1.prems" have "\<not> n \<le> 2 ^ pw" by linarith
    with False "1.IH" "1.prems" show ?thesis by (simp add: normalize_from.simps [of n pw])
  qed (simp add: normalize_from.simps [of n pw])
qed

section \<open>Blocks of indices\<close>

lemma in_block_iff: "0 < w \<Longrightarrow> j \<in> set [b * w ..< (b + 1) * w] \<longleftrightarrow> j div w = b" for w :: nat
  using div_less_iff_less_mult [of w j "Suc b"] less_eq_div_iff_mult_less_eq [of w b j]
  by auto

lemma sibling_iff: "p = sibling q \<longleftrightarrow> p div 2 = q div 2 \<and> p \<noteq> q"
proof (cases "even q")
  case True
  then obtain k where "q = 2 * k" by (elim evenE)
  then show ?thesis by (simp add: sibling_def) linarith
next
  case False
  then obtain k where "q = 2 * k + 1" by (elim oddE)
  then show ?thesis by (simp add: sibling_def) linarith
qed

lemma in_level_block:
  "j \<in> set (level_block i l) \<longleftrightarrow>
     l \<noteq> 0 \<and> j div 2 ^ l = i div 2 ^ l \<and> j div 2 ^ (l - 1) \<noteq> i div 2 ^ (l - 1)"
proof (cases l)
  case (Suc k)
  have "j \<in> set (level_block i l) \<longleftrightarrow> j div 2 ^ k = sibling (i div 2 ^ k)"
    using in_block_iff [of "2 ^ k" j] by (simp add: level_block_def Suc Let_def)
  also have "\<dots> \<longleftrightarrow> j div 2 ^ k div 2 = i div 2 ^ k div 2 \<and> j div 2 ^ k \<noteq> i div 2 ^ k"
    by (rule sibling_iff)
  finally show ?thesis
    by (simp add: Suc div_mult2_eq [symmetric] mult.commute)
qed (simp add: level_block_def)

lemma level_block_sym: "j \<in> set (level_block i l) \<longleftrightarrow> i \<in> set (level_block j l)"
  by (auto simp: in_level_block)

lemma length_level_block: "length (level_block i l) = (if l = 0 then 0 else 2 ^ (l - 1))"
  by (simp add: level_block_def Let_def algebra_simps)

lemma distinct_level_block [simp]: "distinct (level_block i l)"
  by (simp add: level_block_def Let_def)

lemma own_not_in_level_block [simp]: "i \<notin> set (level_block i l)"
  by (simp add: in_level_block)

lemma div_power_mono:
  fixes i j :: nat
  assumes "j div 2 ^ k = i div 2 ^ k" "k \<le> m"
  shows "j div 2 ^ m = i div 2 ^ m"
proof -
  have m: "(2::nat) ^ m = 2 ^ k * 2 ^ (m - k)"
    using assms(2) by (simp flip: power_add)
  show ?thesis by (simp add: m div_mult2_eq assms(1))
qed

lemma level_blocks_disjoint:
  assumes "j \<in> set (level_block i l)" "j \<in> set (level_block i m)"
  shows "l = m"
proof (rule ccontr)
  have *: False if "j \<in> set (level_block i a)" "j \<in> set (level_block i b)" "a < b" for a b
  proof -
    have "a \<le> b - 1" using that(3) by simp
    with that(1,2) show False
      using div_power_mono [of j a i "b - 1"] by (simp add: in_level_block)
  qed
  assume "l \<noteq> m"
  with assms * show False by (meson linorder_neqE_nat)
qed

lemma level_block_bound:
  assumes "j \<in> set (level_block i l)" "i < 2 ^ m" "l \<le> m"
  shows "j < 2 ^ m"
proof -
  have "j div 2 ^ m = i div 2 ^ m"
    using assms div_power_mono [of j l i m] by (auto simp: in_level_block)
  with assms(2) have "j div 2 ^ m = 0" by simp
  then show ?thesis by (simp add: div_eq_0_iff)
qed

lemma level_blocks_cover:
  assumes "i < 2 ^ m" "j < 2 ^ m" "i \<noteq> j"
  shows "\<exists>l \<le> m. j \<in> set (level_block i l)"
proof -
  have top: "j div 2 ^ m = i div 2 ^ m" using assms by simp
  define l where "l = (LEAST l. j div 2 ^ l = i div 2 ^ l)"
  have l: "j div 2 ^ l = i div 2 ^ l" unfolding l_def by (rule LeastI) (rule top)
  have "l \<le> m" unfolding l_def by (rule Least_le) (rule top)
  moreover have "l \<noteq> 0" using l assms(3) by (cases l) auto
  moreover have "j div 2 ^ (l - 1) \<noteq> i div 2 ^ (l - 1)"
  proof
    assume "j div 2 ^ (l - 1) = i div 2 ^ (l - 1)"
    then have "l \<le> l - 1" unfolding l_def by (rule Least_le)
    with \<open>l \<noteq> 0\<close> show False by simp
  qed
  ultimately show ?thesis using l by (auto simp: in_level_block)
qed

section \<open>The loop computes the blocks\<close>

lemma bin_partition_loop_halves:
  assumes "0 < w"
  shows "bin_partition_loop own_index (2 * c * w) (2 * c * w + 2 * w - 1) acc =
     (if (2 * c + 1) * w \<le> own_index
      then let acc' = acc @ [[2 * c * w ..< 2 * c * w + w]]
           in if w = 1 then Inr acc'
              else bin_partition_loop own_index ((2 * c + 1) * w) ((2 * c + 1) * w + w - 1) acc'
      else let acc' = acc @ [[(2 * c + 1) * w ..< (2 * c + 1) * w + w]]
           in if w = 1 then Inr acc'
              else bin_partition_loop own_index (2 * c * w) (2 * c * w + w - 1) acc')"
proof -
  define a where "a = 2 * c * w"
  define b where "b = a + w + w - 1"
  have ca: "(2 * c + 1) * w = a + w" "a + 2 * w - 1 = b"
    by (simp_all add: a_def b_def algebra_simps)
  have mid: "a + (b - a) div 2 = a + w - 1"
    using assms by (simp add: b_def)
  have eqs: "a + w - 1 < own_index \<longleftrightarrow> a + w \<le> own_index"
    "a + w - 1 + 1 = a + w" "b + 1 = a + w + w" "a + w + w - 1 = b"
    "a + w = b \<longleftrightarrow> w = 1" "a = a + w - 1 \<longleftrightarrow> w = 1" "\<not> b < a"
    using assms unfolding b_def by linarith+
  show ?thesis
    unfolding a_def [symmetric] ca
    by (subst bin_partition_loop.simps) (simp only: mid eqs Let_def if_False)
qed

lemma bin_partition_loop_blocks:
  assumes "own_index div 2 ^ m = c" "0 < m"
  shows "bin_partition_loop own_index (c * 2 ^ m) (c * 2 ^ m + 2 ^ m - 1) acc
       = Inr (acc @ map (level_block own_index) (rev [1 ..< Suc m]))"
  using assms
proof (induction m arbitrary: c acc)
  case (Suc k)
  define w :: nat where "w = 2 ^ k"
  define q where "q = own_index div w"
  have w: "0 < w" "2 ^ Suc k = 2 * w" "w = 1 \<longleftrightarrow> k = 0" by (simp_all add: w_def)
  have "own_index div (w * 2) = c"
    using Suc.prems(1) by (simp add: w_def mult.commute)
  then have qc: "q div 2 = c" by (simp only: q_def div_mult2_eq)
  have qw: "(2 * c + 1) * w \<le> own_index \<longleftrightarrow> q = 2 * c + 1"
    using qc less_eq_div_iff_mult_less_eq [of w "2 * c + 1" own_index] w(1)
    unfolding q_def by linarith
  have bounds: "c * 2 ^ Suc k = 2 * c * w" "2 * c * w + 2 ^ Suc k - 1 = 2 * c * w + 2 * w - 1"
    by (simp_all add: w_def)
  have block: "level_block own_index (Suc k) = [sibling q * w ..< sibling q * w + w]"
    by (simp add: level_block_def w_def q_def Let_def algebra_simps)
  have rng: "rev [1 ..< Suc (Suc k)] = Suc k # rev [1 ..< Suc k]" by simp
  have IH: "bin_partition_loop own_index (q * w) (q * w + w - 1) acc' =
      Inr (acc' @ map (level_block own_index) (rev [1 ..< Suc k]))" if "k \<noteq> 0" for acc'
    using Suc.IH [of q acc'] that by (simp add: q_def w_def)
  from qc consider "q = 2 * c" | "q = 2 * c + 1" by linarith
  then show ?case
    unfolding bounds bin_partition_loop_halves [OF w(1)] qw w(3) rng
    by cases (use IH in \<open>auto simp: Let_def block sibling_def\<close>)
qed simp

lemma bin_partition_pow2:
  assumes "own_index < 2 ^ m" "0 < m"
  shows "bin_partition own_index (2 ^ m) = Inr (map (level_block own_index) [0 ..< Suc m])"
proof -
  have "bin_partition_loop own_index 0 (2 ^ m - 1) [] =
      Inr (map (level_block own_index) (rev [1 ..< Suc m]))"
    using bin_partition_loop_blocks [of own_index m 0 "[]"] assms by simp
  moreover have "[0 ..< Suc m] = 0 # [1 ..< Suc m]" by (simp add: upt_rec)
  ultimately show ?thesis
    by (simp add: bin_partition_def checked_sub_def level_block_def rev_map)
qed

lemma bin_partition_single: "bin_partition 0 1 = Inr [[], []]"
  by (simp add: bin_partition_def checked_sub_def bin_partition_loop.simps)

section \<open>The constructor establishes the overlay\<close>

lemma cvp_rank_no_panic:
  assumes "host < 2 ^ m" "0 < m" "pix \<in> set (level_block host l)" "l \<le> m"
  shows "\<exists>k. cvp_rank rng host (2 ^ m) l pix = Inr k"
proof -
  have pix: "pix < 2 ^ m" using level_block_bound assms(1,3,4) by blast
  have "host \<in> set (sort_key (gen_vp rng pix) (level_block pix l))"
    using assms(3) level_block_sym [of pix host l] by simp
  then obtain k where "position (\<lambda>ix. ix = host) (sort_key (gen_vp rng pix) (level_block pix l)) = Some k"
    using position_ex [of host _ "\<lambda>ix. ix = host"] by blast
  then show ?thesis
    using assms(4) by (simp add: cvp_rank_def bin_partition_pow2 [OF pix assms(2)] nth_append del: upt_Suc)
qed

lemma ordered_by_cvp_correct:
  assumes "host < 2 ^ m" "0 < m" "length pts = Suc m"
    and "\<And>l. l \<le> m \<Longrightarrow> distinct (pts ! l) \<and> set (pts ! l) \<subseteq> set (level_block host l)"
  shows "\<exists>qs. ordered_by_cvp rng pts host (2 ^ m) = Inr qs \<and> length qs = Suc m \<and>
           (\<forall>l \<le> m. distinct (qs ! l) \<and> set (qs ! l) = set (pts ! l))"
proof -
  let ?f = "\<lambda>(l, pt). sort_by_key_res (cvp_rank rng host (2 ^ m) l) pt"
  have "\<exists>q. ?f x = Inr q" if "x \<in> set (enumerate 0 pts)" for x
  proof -
    obtain l pt where x: "x = (l, pt)" by (cases x)
    with that have "l \<le> m" "pt = pts ! l" by (auto simp: in_set_enumerate_eq assms(3))
    then show ?thesis
      using assms(4) [of l] cvp_rank_no_panic [OF assms(1,2), where l = l]
      by (auto simp: x intro!: sort_by_key_res_no_panic)
  qed
  then obtain qs where qs: "ordered_by_cvp rng pts host (2 ^ m) = Inr qs"
    unfolding ordered_by_cvp_def using res_mapM_no_panic [of "enumerate 0 pts" ?f] by auto
  have *: "length qs = Suc m \<and> (\<forall>l < Suc m. sort_by_key_res (cvp_rank rng host (2 ^ m) l) (pts ! l) = Inr (qs ! l))"
    using res_mapM_nth [OF qs [unfolded ordered_by_cvp_def]] by (simp add: nth_enumerate_eq assms(3))
  then have "distinct (qs ! l) \<and> set (qs ! l) = set (pts ! l)" if "l \<le> m" for l
    using that assms(4) [of l] mset_sort_by_key_res [of "cvp_rank rng host (2 ^ m) l" "pts ! l" "qs ! l"]
    by simp
  with * qs show ?thesis by blast
qed
lemma normalize_spec:
  assumes "2 \<le> n" "n \<le> 2 ^ 31"
  shows "\<exists>m. normalize n = Inr (2 ^ m) \<and> 0 < m \<and> n \<le> 2 ^ m \<and> 2 ^ (m - 1) < n"
proof -
  obtain k where k: "normalize n = Inr (2 ^ k)" "n \<le> 2 ^ k" "\<forall>q<k. 2 ^ q < n"
    using normalize_from_le [of n 0] assms(2) by (auto simp: normalize_def)
  have "k \<noteq> 0" using k(2) assms(1) by (cases k) auto
  then have "0 < k" "2 ^ (k - 1) < n" using k(3) by auto
  with k show ?thesis by blast
qed

lemma padded_peers:
  assumes "distinct (map fst peers)" "length peers \<le> 2 ^ m"
    and "fresh_ids gen_fakes (fst ` set peers)"
    and "all = sort_key (gen_priority rng) (map fst peers @ gen_fakes (2 ^ m - length peers))"
  shows "length all = 2 ^ m" "distinct all"
    "set all = fst ` set peers \<union> set (gen_fakes (2 ^ m - length peers))"
    "j < 2 ^ m \<Longrightarrow>
      all ! j \<notin> set (gen_fakes (2 ^ m - length peers)) \<longleftrightarrow> all ! j \<in> fst ` set peers"
proof -
  show len: "length all = 2 ^ m" "distinct all"
    and st: "set all = fst ` set peers \<union> set (gen_fakes (2 ^ m - length peers))"
    using assms by (auto simp: fresh_ids_def)
  show "all ! j \<notin> set (gen_fakes (2 ^ m - length peers)) \<longleftrightarrow> all ! j \<in> fst ` set peers"
    if "j < 2 ^ m"
    using nth_mem [of j all] that len(1) st assms(3) by (auto simp: fresh_ids_def)
qed

lemma cleared_partitions:
  assumes "i < 2 ^ m" "length all = 2 ^ m"
    and "\<And>j. j < 2 ^ m \<Longrightarrow> all ! j \<notin> fakes \<longleftrightarrow> all ! j \<in> real"
    and "cleared = map (filter (\<lambda>pix. all ! pix \<notin> fakes)) (map (level_block i) [0 ..< Suc m])"
  shows "length cleared = Suc m"
    and "l \<le> m \<Longrightarrow> distinct (cleared ! l) \<and>
           set (cleared ! l) = {j \<in> set (level_block i l). all ! j \<in> real}"
    and "\<exists>ys. res_mapM (\<lambda>pt. res_mapM (index all) pt) (map (level_block i) [0 ..< Suc m]) = Inr ys"
proof -
  show "length cleared = Suc m" by (simp add: assms(4))
  show "distinct (cleared ! l) \<and> set (cleared ! l) = {j \<in> set (level_block i l). all ! j \<in> real}"
    if "l \<le> m"
  proof -
    have "[0 ..< Suc m] ! l = l" using that by (simp add: nth_upt del: upt_Suc)
    then have "cleared ! l = filter (\<lambda>pix. all ! pix \<notin> fakes) (level_block i l)"
      using that by (simp add: assms(4) del: upt_Suc)
    then show ?thesis
      using assms(3) level_block_bound [OF _ assms(1) that] by auto
  qed
  have "\<exists>zs. res_mapM (index all) pt = Inr zs" if pt: "pt \<in> level_block i ` {..m}" for pt
  proof -
    obtain l where "l \<le> m" "pt = level_block i l" using pt by auto
    then show ?thesis
      using level_block_bound [OF _ assms(1)] assms(2) res_mapM_no_panic [of pt "index all"] by auto
  qed
  moreover have "set (map (level_block i) [0 ..< Suc m]) = level_block i ` {..m}"
    by (simp add: atLeast0LessThan lessThan_Suc_atMost del: upt_Suc)
  ultimately show "\<exists>ys. res_mapM (\<lambda>pt. res_mapM (index all) pt) (map (level_block i) [0 ..< Suc m]) = Inr ys"
    using res_mapM_no_panic [of "map (level_block i) [0 ..< Suc m]" "res_mapM (index all)"]
    by (simp del: upt_Suc set_map) blast
qed

lemma new_partitions_ok:
  assumes peers: "distinct (map fst peers)" "2 \<le> length peers" "length peers \<le> 2 ^ 31"
    and host: "host \<in> fst ` set peers"
    and fresh: "fresh_ids gen_fakes (fst ` set peers)"
  shows "\<exists>pp m. new_partitions gen_fakes rng host peers = Inr pp \<and>
           overlay_ok (fst ` set peers) host m pp"
proof -
  let ?real = "fst ` set peers"
  obtain m where m: "normalize (length peers) = Inr (2 ^ m)" "0 < m"
    "length peers \<le> 2 ^ m" "2 ^ (m - 1) < length peers"
    using normalize_spec [OF peers(2,3)] by blast
  define fakes where "fakes = gen_fakes (2 ^ m - length peers)"
  define all where "all = sort_key (gen_priority rng) (map fst peers @ fakes)"
  note all = padded_peers [OF peers(1) m(3) fresh all_def [unfolded fakes_def], folded fakes_def]
  obtain i where i: "position (\<lambda>pid. pid = host) all = Some i"
    using position_ex [of host all "\<lambda>pid. pid = host"] host all(3) by auto
  then have i': "i < 2 ^ m" "all ! i = host" by (auto simp: position_Some_iff all(1))
  define pts where "pts = map (level_block i) [0 ..< Suc m]"
  define cleared where "cleared = map (filter (\<lambda>pix. all ! pix \<notin> set fakes)) pts"
  note cl = cleared_partitions [OF i'(1) all(1,4) cleared_def [unfolded pts_def], folded pts_def]
  obtain qs where qs: "ordered_by_cvp rng cleared i (2 ^ m) = Inr qs" "length qs = Suc m"
    "\<forall>l \<le> m. distinct (qs ! l) \<and> set (qs ! l) = set (cleared ! l)"
    using ordered_by_cvp_correct [OF i'(1) m(2) cl(1), of rng] cl(2) by auto
  have small: "length peers < 2 ^ 32" using peers(3) by simp
  obtain pp where pp: "new_partitions gen_fakes rng host peers = Inr pp" "bp_peers pp = all"
    "bp_peer_index pp = map_of (rev (zip all [0 ..< length all]))"
    "bp_partitions_by_vp pp = ordered_by_vp rng cleared i" "bp_partitions_by_cvp pp = qs"
    using m(1) i cl(3) qs(1) all(1) bin_partition_pow2 [OF i'(1) m(2)] small
    by (auto simp: new_partitions_def Let_def cleared_def pts_def fakes_def all_def)
  have ix: "bp_peer_index pp pid = Some j \<longleftrightarrow> j < 2 ^ m \<and> all ! j = pid" for pid j
    using map_of_rev_zip_upt [OF all(2), of pid j] by (simp add: pp all(1))
  have hostix: "j = i" if "bp_peer_index pp host = Some j" for j
    using that ix i' all(1,2) nth_eq_iff_index_eq by fastforce
  have "card ?real = length peers"
    using peers(1) by (metis distinct_card length_map list.set_map)
  then have "overlay_ok ?real host m pp"
    using m(2,4) all host ix hostix cl qs by (auto simp: overlay_ok_def pp ordered_by_vp_def)
  with pp(1) show ?thesis by blast
qed
section \<open>The interface of the partitions\<close>

text \<open>
  What the clients of the trait \<open>PeerPartitions\<close> rely on: the levels are disjoint,
  hold the same peers in both orders and never the host, every peer of a level can
  be identified and found again, and the last level is not empty.
\<close>

locale peer_partitions_api =
  fixes invar :: "peer_ix \<Rightarrow> 'pp \<Rightarrow> bool"
    and at_level :: "'pp \<Rightarrow> nat \<Rightarrow> peer_ord \<Rightarrow> peer_ix list res"
    and identify :: "'pp \<Rightarrow> peer_ix \<Rightarrow> 'pid res"
    and index_of :: "'pp \<Rightarrow> 'pid \<Rightarrow> peer_ix option"
    and levels :: "'pp \<Rightarrow> nat"
  assumes two_levels: "invar own pp \<Longrightarrow> 2 \<le> levels pp"
    and level_peers: "invar own pp \<Longrightarrow> l < levels pp \<Longrightarrow>
      \<exists>ps. at_level pp l ord = Inr ps \<and> distinct ps \<and> own \<notin> set ps"
    and level_range: "invar own pp \<Longrightarrow> at_level pp l ord = Inr ps \<Longrightarrow> l < levels pp"
    and level_orders: "invar own pp \<Longrightarrow> at_level pp l o1 = Inr ps \<Longrightarrow>
      at_level pp l o2 = Inr qs \<Longrightarrow> set ps = set qs"
    and level_disjoint: "invar own pp \<Longrightarrow> at_level pp l o1 = Inr ps \<Longrightarrow>
      at_level pp k o2 = Inr qs \<Longrightarrow> p \<in> set ps \<Longrightarrow> p \<in> set qs \<Longrightarrow> l = k"
    and level_identify: "invar own pp \<Longrightarrow> at_level pp l ord = Inr ps \<Longrightarrow> p \<in> set ps \<Longrightarrow>
      \<exists>pid. identify pp p = Inr pid \<and> index_of pp pid = Some p"
    and last_level: "invar own pp \<Longrightarrow> at_level pp (levels pp - 1) ord = Inr ps \<Longrightarrow> ps \<noteq> []"
    and level_zero: "invar own pp \<Longrightarrow> at_level pp 0 ord = Inr ps \<Longrightarrow> ps = []"
    and level_size: "invar own pp \<Longrightarrow> at_level pp l ord = Inr ps \<Longrightarrow> length ps \<le> 2 ^ (l - 1)"
begin

lemma level_orders_length:
  assumes "invar own pp" "at_level pp l o1 = Inr ps" "at_level pp l o2 = Inr qs"
  shows "length ps = length qs"
proof -
  have "l < levels pp" using assms(1,2) by (rule level_range)
  then have "distinct ps" "distinct qs"
    using level_peers [OF assms(1), of l o1] level_peers [OF assms(1), of l o2] assms(2,3) by auto
  moreover have "set ps = set qs" using assms by (rule level_orders)
  ultimately show ?thesis by (metis distinct_card)
qed

lemma identify_all:
  assumes "invar own pp" "at_level pp l ord = Inr ps" "set qs \<subseteq> set ps"
  shows "\<exists>pids. res_mapM (identify pp) qs = Inr pids"
  using res_mapM_no_panic [of qs "identify pp"] level_identify [OF assms(1,2)] assms(3) by blast

lemma identify_inj:
  assumes "invar own pp" "at_level pp l o1 = Inr ps" "p \<in> set ps" "identify pp p = Inr pid"
    and "at_level pp k o2 = Inr qs" "q \<in> set qs" "identify pp q = Inr pid"
  shows "p = q \<and> l = k"
proof -
  have "index_of pp pid = Some p" "index_of pp pid = Some q"
    using level_identify [OF assms(1,2,3)] level_identify [OF assms(1,5,6)] assms(4,7) by auto
  then have "p = q" by simp
  with level_disjoint [OF assms(1,2,5,3)] assms(6) show ?thesis by simp
qed

end

lemma level_complement:
  assumes "i < 2 ^ m" "j < 2 ^ m" "0 < m" "j \<notin> set (level_block i m)"
  shows "j div 2 ^ (m - 1) = i div 2 ^ (m - 1)"
  using assms by (auto simp: in_level_block)

lemma overlay_shape:
  assumes "overlay_ok real host m pp"
  shows "0 < m" "length (bp_peers pp) = 2 ^ m" "real \<subseteq> set (bp_peers pp)" "2 ^ (m - 1) < card real"
    "length (bp_partitions_by_vp pp) = Suc m" "length (bp_partitions_by_cvp pp) = Suc m"
    "bp_peer_index pp pid = Some k \<longleftrightarrow> k < 2 ^ m \<and> bp_peers pp ! k = pid"
    "distinct (bp_peers pp)" "host \<in> real"
  using assms unfolding overlay_ok_def by blast+

lemma overlay_last_level:
  assumes ok: "overlay_ok real host m pp" and i: "bp_peer_index pp host = Some i"
  shows "\<exists>j \<in> set (level_block i m). bp_peers pp ! j \<in> real"
proof (rule ccontr)
  assume "\<not> ?thesis"
  then have none: "bp_peers pp ! j \<notin> real" if "j \<in> set (level_block i m)" for j using that by blast
  note pp = overlay_shape [OF ok]
  have "i < 2 ^ m" using i pp(7) by blast
  let ?B = "set [i div 2 ^ (m - 1) * 2 ^ (m - 1) ..< (i div 2 ^ (m - 1) + 1) * 2 ^ (m - 1)]"
  have "real \<subseteq> (!) (bp_peers pp) ` ?B"
  proof
    fix pid assume "pid \<in> real"
    with pp(2,3) obtain j where j: "j < 2 ^ m" "bp_peers pp ! j = pid" by (metis in_set_conv_nth subsetD)
    with none \<open>pid \<in> real\<close> have "j \<notin> set (level_block i m)" by blast
    with level_complement [OF \<open>i < 2 ^ m\<close> j(1) pp(1)] have "j \<in> ?B" by (subst in_block_iff) auto
    with j(2) show "pid \<in> (!) (bp_peers pp) ` ?B" by blast
  qed
  then have "card real \<le> card ?B" by (meson List.finite_set card_image_le card_mono finite_imageI le_trans)
  also have "\<dots> = 2 ^ (m - 1)" by (simp add: algebra_simps)
  finally show False using pp(4) by simp
qed

lemma overlay_levels:
  assumes "overlay_ok real host m pp" "bp_peer_index pp host = Some i" "l \<le> m"
  shows "distinct (bp_partitions_by_vp pp ! l)" "distinct (bp_partitions_by_cvp pp ! l)"
    "set (bp_partitions_by_vp pp ! l) = {j \<in> set (level_block i l). bp_peers pp ! j \<in> real}"
    "set (bp_partitions_by_cvp pp ! l) = {j \<in> set (level_block i l). bp_peers pp ! j \<in> real}"
  using assms unfolding overlay_ok_def by blast+

lemma overlay_at_level:
  assumes "overlay_ok real host m pp" "bp_peer_index pp host = Some i"
  shows "peers_at_level pp l ord = Inr ps \<Longrightarrow>
      l \<le> m \<and> distinct ps \<and> set ps = {j \<in> set (level_block i l). bp_peers pp ! j \<in> real}"
    and "l \<le> m \<Longrightarrow> \<exists>ps. peers_at_level pp l ord = Inr ps"
    and "num_levels pp = Suc m"
proof -
  note shape = overlay_shape [OF assms(1)] and lv = overlay_levels [OF assms]
  show "l \<le> m \<and> distinct ps \<and> set ps = {j \<in> set (level_block i l). bp_peers pp ! j \<in> real}"
    if "peers_at_level pp l ord = Inr ps"
    using that shape(5,6) lv [of l]
    by (cases ord) (simp_all add: peers_at_level_def res_simps less_Suc_eq_le)
  show "\<exists>ps. peers_at_level pp l ord = Inr ps" if "l \<le> m"
    using that shape(5,6) by (cases ord) (simp_all add: peers_at_level_def res_simps)
  show "num_levels pp = Suc m" using shape(5) by (simp add: num_levels_def)
qed

interpretation binomial: peer_partitions_api overlay_inv peers_at_level identify_peer
  try_index_peer num_levels
proof (unfold_locales, unfold overlay_inv_def, goal_cases)
  case (1 own pp)
  then show ?case using overlay_at_level(3) overlay_shape(1) by fastforce
next
  case (2 own pp l ord)
  then obtain real host m where ok: "overlay_ok real host m pp" "bp_peer_index pp host = Some own" by blast
  then obtain ps where "peers_at_level pp l ord = Inr ps"
    using overlay_at_level(2,3) [OF ok] 2(2) by (metis less_Suc_eq_le)
  with overlay_at_level(1) [OF ok this] show ?case by auto
next
  case (3 own pp l ord ps)
  then obtain real host m where ok: "overlay_ok real host m pp" "bp_peer_index pp host = Some own" by blast
  then show ?case
    using overlay_at_level(1) [OF ok 3(2)] overlay_at_level(3) [OF ok] by simp
next
  case (4 own pp l o1 ps o2 qs)
  then obtain real host m where ok: "overlay_ok real host m pp" "bp_peer_index pp host = Some own" by blast
  then show ?case
    using overlay_at_level(1) [OF ok 4(2)] overlay_at_level(1) [OF ok 4(3)] by simp
next
  case (5 own pp l o1 ps k o2 qs p)
  then obtain real host m where ok: "overlay_ok real host m pp" "bp_peer_index pp host = Some own" by blast
  then have "p \<in> set (level_block own l)" "p \<in> set (level_block own k)"
    using overlay_at_level(1) [OF ok] 5(2-) by auto
  then show ?case by (rule level_blocks_disjoint)
next
  case (6 own pp l ord ps p)
  then obtain real host m where ok: "overlay_ok real host m pp" "bp_peer_index pp host = Some own" by blast
  have "p < 2 ^ m"
    using overlay_at_level(1) [OF ok 6(2)] 6(3) ok(2) overlay_shape(7) [OF ok(1)]
      level_block_bound [of p own l m]
    by auto
  then show ?case
    using overlay_shape(2) [OF ok(1)] overlay_shape(7) [OF ok(1)]
    by (auto simp: identify_peer_def try_index_peer_def)
next
  case (7 own pp ord ps)
  then obtain real host m where ok: "overlay_ok real host m pp" "bp_peer_index pp host = Some own" by blast
  with overlay_last_level [OF ok] overlay_at_level(1) [OF ok 7(2)] overlay_at_level(3) [OF ok]
  show ?case by auto
next
  case (8 own pp ord ps)
  then obtain real host m where ok: "overlay_ok real host m pp" "bp_peer_index pp host = Some own" by blast
  then show ?case using overlay_at_level(1) [OF ok 8(2)] by (simp add: level_block_def)
next
  case (9 own pp l ord ps)
  then obtain real host m where ok: "overlay_ok real host m pp" "bp_peer_index pp host = Some own" by blast
  have "distinct ps" "set ps \<subseteq> set (level_block own l)" using overlay_at_level(1) [OF ok 9(2)] by auto
  then have "length ps \<le> length (level_block own l)"
    by (metis List.finite_set card_length card_mono distinct_card le_trans)
  then show ?case by (simp add: length_level_block split: if_splits)
qed

lemma fresh_ids_0: "fresh_ids gen_fakes real \<Longrightarrow> gen_fakes 0 = []"
  by (metis fresh_ids_def length_0_conv)

lemma new_partitions_peers:
  assumes "new_partitions gen_fakes rng host peers = Inr pp" "normalize (length peers) = Inr n"
    and "all = sort_key (gen_priority rng) (map fst peers @ gen_fakes (n - length peers))"
  shows "bp_peers pp = all \<and> try_index_peer pp = map_of (rev (zip all [0 ..< length all]))"
  using assms by (auto simp: new_partitions_def Let_def res_simps try_index_peer_def split: if_splits)

section \<open>Properties\<close>

text \<open>
  C1. On a power of two of nodes \<open>bin_partition\<close> returns one partition per level, and
  level \<open>l\<close> holds, once each, the \<open>2 ^ (l - 1)\<close> indices that agree with the own index
  on its block of size \<open>2 ^ l\<close> and differ on the block of half that size.
\<close>

theorem bin_partition_levels:
  assumes "own_index < 2 ^ m" "0 < m"
  shows "\<exists>pts. bin_partition own_index (2 ^ m) = Inr pts \<and> length pts = Suc m \<and>
    (\<forall>l \<le> m. distinct (pts ! l) \<and> length (pts ! l) = (if l = 0 then 0 else 2 ^ (l - 1)) \<and>
       (\<forall>j. j \<in> set (pts ! l) \<longleftrightarrow>
          l \<noteq> 0 \<and> j div 2 ^ l = own_index div 2 ^ l \<and> j div 2 ^ (l - 1) \<noteq> own_index div 2 ^ (l - 1)))"
proof -
  have "map (level_block own_index) [0 ..< Suc m] ! l = level_block own_index l" if "l \<le> m" for l
    using that by (simp add: nth_upt del: upt_Suc)
  then show ?thesis
    using bin_partition_pow2 [OF assms] by (simp add: in_level_block length_level_block del: upt_Suc)
qed

theorem bin_partition_levels_witness:
  "\<exists>pts. bin_partition 10 16 = Inr pts \<and> length pts = 5 \<and> 8 \<in> set (pts ! 2) \<and> 12 \<notin> set (pts ! 2)"
  using bin_partition_levels [of 10 4] by fastforce

text \<open>
  C2. The partitions of two different nodes are coherent: the other node stands in
  exactly one level, and it is the level in which the other node sees this one.
\<close>

theorem bin_partition_coherent:
  assumes "i < 2 ^ m" "j < 2 ^ m" "i \<noteq> j"
    and "bin_partition i (2 ^ m) = Inr pts" "bin_partition j (2 ^ m) = Inr qts"
  shows "(\<exists>!l. l \<le> m \<and> j \<in> set (pts ! l)) \<and>
    (\<forall>l \<le> m. j \<in> set (pts ! l) \<longleftrightarrow> i \<in> set (qts ! l))"
proof -
  have "0 < m" using assms(1-3) by (cases m) auto
  have nth: "map (level_block k) [0 ..< Suc m] ! l = level_block k l" if "l \<le> m" for k l
    using that by (simp add: nth_upt del: upt_Suc)
  have pts: "pts ! l = level_block i l" "qts ! l = level_block j l" if "l \<le> m" for l
    using bin_partition_pow2 [OF assms(1) \<open>0 < m\<close>] bin_partition_pow2 [OF assms(2) \<open>0 < m\<close>]
      assms(4,5) nth [OF that] by auto
  then have sym: "\<forall>l \<le> m. j \<in> set (pts ! l) \<longleftrightarrow> i \<in> set (qts ! l)"
    by (simp add: level_block_sym [of j i])
  obtain l where l: "l \<le> m" "j \<in> set (level_block i l)"
    using level_blocks_cover [OF assms(1-3)] by blast
  have "\<exists>!l. l \<le> m \<and> j \<in> set (pts ! l)"
  proof (rule ex1I)
    show "l \<le> m \<and> j \<in> set (pts ! l)" using l pts by simp
    show "k = l" if "k \<le> m \<and> j \<in> set (pts ! k)" for k
      using that pts [of k] l(2) level_blocks_disjoint [of j i k l] by simp
  qed
  with sym show ?thesis by blast
qed

theorem bin_partition_coherent_witness:
  "\<exists>pts qts. bin_partition 1 4 = Inr pts \<and> bin_partition 2 4 = Inr qts \<and>
     (\<exists>!l. l \<le> 2 \<and> 2 \<in> set (pts ! l)) \<and> (\<forall>l \<le> 2. 2 \<in> set (pts ! l) \<longleftrightarrow> 1 \<in> set (qts ! l))"
proof -
  have e: "bin_partition 1 (2 ^ 2) = Inr [[], [0], [2, 3]]" "bin_partition 2 (2 ^ 2) = Inr [[], [3], [0, 1]]"
    by code_simp+
  show ?thesis using e bin_partition_coherent [OF _ _ _ e] by simp
qed

text \<open>
  \<open>normalize\<close> returns the least power of two that is not below its argument, and
  panics with an overflow exactly when that power does not fit into a \<open>u32\<close>.
\<close>

theorem normalize_least_power:
  "(n \<le> 2 ^ 31 \<longrightarrow> (\<exists>k. normalize n = Inr (2 ^ k) \<and> n \<le> 2 ^ k \<and> (\<forall>q. n \<le> 2 ^ q \<longrightarrow> k \<le> q))) \<and>
   (2 ^ 31 < n \<longrightarrow> normalize n = Inl ArithOverflow)"
  using normalize_from_le [of n 0] normalize_from_overflow [of n 0]
  by (fastforce simp: normalize_def not_less [symmetric])

theorem normalize_least_power_witness:
  "(\<exists>k. normalize 10 = Inr (2 ^ k) \<and> (10::nat) \<le> 2 ^ k \<and> (\<forall>q. (10::nat) \<le> 2 ^ q \<longrightarrow> k \<le> q)) \<and>
   normalize (2 ^ 31 + 1) = Inl ArithOverflow"
  using normalize_least_power [of 10] normalize_least_power [of "2 ^ 31 + 1"] by simp

text \<open>
  For two to \<open>2 ^ 31\<close> distinct peers, one of them the host, the constructor does
  not panic and returns a well-formed overlay: every real peer but the host stands
  in exactly the level its index dictates, in the order by verification priority
  and in the order by contribution priority alike.
\<close>

theorem new_partitions_total:
  assumes "distinct (map fst peers)" "2 \<le> length peers" "length peers \<le> 2 ^ 31"
    and "host \<in> fst ` set peers" "fresh_ids gen_fakes (fst ` set peers)"
  shows "\<exists>pp m i. new_partitions gen_fakes rng host peers = Inr pp \<and>
    2 ^ (m - 1) < length peers \<and> length peers \<le> 2 ^ m \<and> num_levels pp = Suc m \<and>
    try_index_peer pp host = Some i \<and> identify_peer pp i = Inr host \<and>
    (\<forall>ord. \<forall>l \<le> m. \<exists>ps. peers_at_level pp l ord = Inr ps \<and> distinct ps \<and>
       (\<forall>j. j \<in> set ps \<longleftrightarrow> j \<in> set (level_block i l) \<and>
              (\<exists>pid \<in> fst ` set peers. try_index_peer pp pid = Some j)))"
proof -
  obtain pp m where pp: "new_partitions gen_fakes rng host peers = Inr pp"
    and ok: "overlay_ok (fst ` set peers) host m pp"
    using new_partitions_ok [OF assms] by blast
  note shape = overlay_shape [OF ok]
  have card: "card (fst ` set peers) = length peers"
    using assms(1) by (metis distinct_card length_map list.set_map)
  have le: "length peers \<le> 2 ^ m"
    using card_mono [OF _ shape(3)] distinct_card [OF shape(8)] shape(2) card by simp
  obtain i where i: "bp_peer_index pp host = Some i"
    using shape(2,3,7,9) by (metis in_set_conv_nth subsetD)
  then have own: "try_index_peer pp host = Some i" "identify_peer pp i = Inr host"
    using shape(2,7) by (auto simp: try_index_peer_def identify_peer_def index_def)
  have lv: "\<exists>ps. peers_at_level pp l ord = Inr ps \<and> distinct ps \<and>
       (\<forall>j. j \<in> set ps \<longleftrightarrow> j \<in> set (level_block i l) \<and>
              (\<exists>pid \<in> fst ` set peers. try_index_peer pp pid = Some j))" if "l \<le> m" for l ord
  proof -
    obtain ps where ps: "peers_at_level pp l ord = Inr ps"
      using overlay_at_level(2) [OF ok i \<open>l \<le> m\<close>] by blast
    have "j < 2 ^ m" if "j \<in> set (level_block i l)" for j
      using level_block_bound [OF that _ \<open>l \<le> m\<close>] i shape(7) by blast
    then show ?thesis
      using ps overlay_at_level(1) [OF ok i ps] shape(7) by (auto simp: try_index_peer_def)
  qed
  show ?thesis
    using pp card le shape(4) overlay_at_level(3) [OF ok i] own lv
    by (intro exI [of _ pp] exI [of _ m] exI [of _ i]) simp
qed

theorem new_partitions_total_witness:
  "\<exists>pp m i. new_partitions (\<lambda>n. [100 ..< 100 + n]) \<lparr>gen_priority = id, gen_vp = (\<lambda>i j. j)\<rparr> (2::nat)
       [(1, None), (2, Some True), (3, None)] = Inr pp \<and>
     2 ^ (m - 1) < (3::nat) \<and> (3::nat) \<le> 2 ^ m \<and> num_levels pp = Suc m \<and>
     try_index_peer pp 2 = Some i \<and> identify_peer pp i = Inr 2"
proof -
  let ?peers = "[(1::nat, None), (2, Some True), (3, None)]"
  have p: "distinct (map fst ?peers)" "2 \<le> length ?peers" "length ?peers \<le> 2 ^ 31"
    "2 \<in> fst ` set ?peers" "fresh_ids (\<lambda>n. [100 ..< 100 + n]) (fst ` set ?peers)"
    by (simp_all add: fresh_ids_def)
  have len: "length ?peers = 3" by simp
  show ?thesis
    using new_partitions_total [OF p, of "\<lparr>gen_priority = id, gen_vp = (\<lambda>i j. j)\<rparr>", unfolded len]
    by blast
qed

text \<open>
  C3. When the number of peers is a power of two no fake peers are added and the
  overlay is coherent across peers: two hosts that share the seed order the peers
  the same way, and the level in which one sees the other is the level in which it
  is seen.
\<close>

theorem overlay_coherent:
  assumes peers: "distinct (map fst peers)" "length peers = 2 ^ m" "0 < m" "m \<le> 31"
    and hosts: "a \<in> fst ` set peers" "b \<in> fst ` set peers"
    and fresh: "fresh_ids gen_a (fst ` set peers)" "fresh_ids gen_b (fst ` set peers)"
    and pp: "new_partitions gen_a rng a peers = Inr pa" "new_partitions gen_b rng b peers = Inr pb"
  shows "try_index_peer pa = try_index_peer pb \<and>
    (\<forall>ia ib l ps qs. try_index_peer pa a = Some ia \<longrightarrow> try_index_peer pa b = Some ib \<longrightarrow>
       peers_at_level pa l CVP = Inr ps \<longrightarrow> peers_at_level pb l VP = Inr qs \<longrightarrow>
       (ib \<in> set ps \<longleftrightarrow> ia \<in> set qs))"
proof -
  have len: "2 \<le> length peers" "length peers \<le> 2 ^ 31"
    using peers(2-4) self_le_power [of 2 m] power_increasing [of m 31 "2::nat"] by simp_all
  obtain ma mb where oka: "overlay_ok (fst ` set peers) a ma pa" and okb: "overlay_ok (fst ` set peers) b mb pb"
    using new_partitions_ok [OF peers(1) len hosts(1) fresh(1), of rng]
      new_partitions_ok [OF peers(1) len hosts(2) fresh(2), of rng] pp by auto
  obtain k where k: "normalize (length peers) = Inr (2 ^ k)" "length peers \<le> 2 ^ k" "2 ^ (k - 1) < length peers"
    using normalize_spec [OF len] by blast
  then have "k = m" using peers(2,3) by (simp add: power_strict_increasing_iff)
  then have "gen_a (2 ^ k - length peers) = []" "gen_b (2 ^ k - length peers) = []"
    using fresh_ids_0 [OF fresh(1)] fresh_ids_0 [OF fresh(2)] peers(2) by simp_all
  then have "bp_peers pa = bp_peers pb" "bp_peer_index pa = bp_peer_index pb"
    using new_partitions_peers [OF pp(1) k(1)] new_partitions_peers [OF pp(2) k(1)]
    by (simp_all add: try_index_peer_def fun_eq_iff)
  moreover have "ib \<in> set ps \<longleftrightarrow> ia \<in> set qs"
    if "bp_peer_index pa a = Some ia" "bp_peer_index pa b = Some ib"
      "peers_at_level pa l CVP = Inr ps" "peers_at_level pb l VP = Inr qs" for ia ib l ps qs
    using overlay_at_level(1) [OF oka that(1,3)] overlay_at_level(1) [OF okb _ that(4), of ib] that(1,2) calculation hosts
      overlay_shape(7) [OF oka] by (simp add: level_block_sym [of ib ia])
  ultimately show ?thesis by (auto simp: try_index_peer_def fun_eq_iff)
qed

theorem overlay_coherent_witness:
  "\<exists>pa pb. new_partitions (\<lambda>n. [100 ..< 100 + n]) \<lparr>gen_priority = id, gen_vp = (\<lambda>i j. j)\<rparr> (1::nat)
       [(1, None), (2, Some True)] = Inr pa \<and>
     new_partitions (\<lambda>n. [200 ..< 200 + n]) \<lparr>gen_priority = id, gen_vp = (\<lambda>i j. j)\<rparr> (2::nat)
       [(1, None), (2, Some True)] = Inr pb \<and> try_index_peer pa = try_index_peer pb"
proof -
  let ?peers = "[(1::nat, None), (2, Some True)]"
  let ?rng = "\<lparr>gen_priority = id, gen_vp = (\<lambda>i j. j)\<rparr>"
  have f: "fresh_ids (\<lambda>n. [100 ..< 100 + n]) (fst ` set ?peers)" "fresh_ids (\<lambda>n. [200 ..< 200 + n]) (fst ` set ?peers)"
    by (simp_all add: fresh_ids_def)
  have h: "1 \<in> fst ` set ?peers" "2 \<in> fst ` set ?peers" by simp_all
  have p: "distinct (map fst ?peers)" "2 \<le> length ?peers" "length ?peers \<le> 2 ^ 31" "length ?peers = 2 ^ 1"
    by simp_all
  obtain pa where pa: "new_partitions (\<lambda>n. [100 ..< 100 + n]) ?rng 1 ?peers = Inr pa"
    using new_partitions_ok [OF p(1-3) h(1) f(1), of ?rng] by blast
  obtain pb where pb: "new_partitions (\<lambda>n. [200 ..< 200 + n]) ?rng 2 ?peers = Inr pb"
    using new_partitions_ok [OF p(1-3) h(2) f(2), of ?rng] by blast
  show ?thesis using overlay_coherent [OF p(1,4) _ _ h f pa pb] pa pb by auto
qed

text \<open>
  When the number of peers is not a power of two every host pads the set with
  random identifiers of its own, and the overlays of two hosts need not agree: with
  the same three peers and the same seed the index of one peer differs.
\<close>

theorem overlay_incoherent_when_padded:
  "\<exists>(peers :: (nat \<times> unit option) list) rng gen_a gen_b pa pb.
     fresh_ids gen_a (fst ` set peers) \<and> fresh_ids gen_b (fst ` set peers) \<and>
     new_partitions gen_a rng 1 peers = Inr pa \<and> new_partitions gen_b rng 2 peers = Inr pb \<and>
     try_index_peer pa 1 = Some 1 \<and> try_index_peer pb 1 = Some 0"
proof -
  let ?peers = "[(1::nat, None :: unit option), (2, None), (3, None)]"
  let ?rng = "\<lparr>gen_priority = (\<lambda>x::nat. if x < 200 then x else 0), gen_vp = (\<lambda>i j. j)\<rparr>"
  let ?ga = "\<lambda>n::nat. [200 ..< 200 + n]" and ?gb = "\<lambda>n::nat. [100 ..< 100 + n]"
  have fresh: "fresh_ids ?ga (fst ` set ?peers)" "fresh_ids ?gb (fst ` set ?peers)"
    by (simp_all add: fresh_ids_def)
  have p: "distinct (map fst ?peers)" "2 \<le> length ?peers" "length ?peers \<le> 2 ^ 31"
    "1 \<in> fst ` set ?peers" "2 \<in> fst ` set ?peers" by simp_all
  have n: "normalize (length ?peers) = Inr 4" by (simp add: normalize_def normalize_from.simps)
  have all: "[200, 1, 2, 3] = sort_key (gen_priority ?rng) (map fst ?peers @ ?ga (4 - length ?peers))"
    "[1, 2, 3, 100] = sort_key (gen_priority ?rng) (map fst ?peers @ ?gb (4 - length ?peers))"
    by (simp_all add: upt_rec)
  have ix: "map_of (rev (zip [200, 1, 2, 3::nat] [0 ..< length [200, 1, 2, 3::nat]])) 1 = Some 1"
    "map_of (rev (zip [1, 2, 3, 100::nat] [0 ..< length [1, 2, 3, 100::nat]])) 1 = Some 0"
    by code_simp+
  obtain pa where pa: "new_partitions ?ga ?rng 1 ?peers = Inr pa"
    using new_partitions_ok [OF p(1-4) fresh(1), of ?rng] by blast
  obtain pb where pb: "new_partitions ?gb ?rng 2 ?peers = Inr pb"
    using new_partitions_ok [OF p(1-3,5) fresh(2), of ?rng] by blast
  have "try_index_peer pa 1 = Some 1" "try_index_peer pb 1 = Some 0"
    using new_partitions_peers [OF pa n all(1)] new_partitions_peers [OF pb n all(2)] ix by simp_all
  with fresh pa pb show ?thesis by blast
qed
end
