(* ===== verification/Handel.thy ===== *)
theory Handel
  imports Partitioning
begin

text \<open>
  One round of the Handel aggregation protocol (\<open>spectrum-handel/src/lib.rs\<close>): the
  struct \<open>Handel\<close> with every method, the message it sends and the two entry points
  \<open>inject_message\<close> and \<open>poll\<close>. The contribution type is a parameter \<open>'c\<close>; what the code
  calls on it (\<open>try_combine\<close>, \<open>weight\<close>, and \<open>verify\<close> against the public data) is the
  record \<open>contrib_ops\<close>. The timers of \<open>poll\<close> are inputs: whether each one has fired
  is an argument, and the model keeps the delay each timer was last set to.
\<close>

section \<open>Data\<close>

text \<open>The traits \<open>CommutativePartialSemigroup\<close>, \<open>Weighted\<close> and \<open>VerifiableAgainst\<close>.\<close>

record 'c contrib_ops =
  try_combine :: "'c \<Rightarrow> 'c \<Rightarrow> 'c option"
  weight :: "'c \<Rightarrow> nat"
  verify :: "'c \<Rightarrow> bool"

record threshold =
  num :: nat
  denom :: nat

record handel_config =
  conf_threshold :: threshold
  window_shrinking_factor :: nat
  initial_scoring_window :: nat
  fast_path_window :: nat
  dissemination_delay :: nat
  level_activation_delay :: nat
  throttle_factor :: nat

record 'c pending_contribution =
  sender_id :: peer_ix
  aggregate_contribution :: 'c
  individual_contribution :: "'c option"

record 'c scored_contribution =
  score :: nat
  contribution :: 'c

record 'c scored_contribution_traced =
  t_score :: nat
  t_sender_id :: peer_ix
  t_contribution :: 'c

record 'c active_level =
  prioritized_contributions :: "'c pending_contribution list"
  individual_contributions :: "'c list"
  best_contribution :: "'c scored_contribution"
  last_contacted_peer_ix :: "nat option"
  sent_contribution_scores :: "nat list"
  is_completed :: bool

record 'c handel_message =
  msg_level :: nat
  msg_individual :: "'c option"
  msg_aggregate :: 'c
  contact_sender :: bool

text \<open>The only output of a round: \<open>NetworkAction::SendOneShotMessage\<close>.\<close>

record ('pid, 'addr, 'c) send_one_shot =
  out_peer :: 'pid
  out_addr_hint :: "'addr option"
  out_message :: "'c handel_message"

record ('pid, 'addr, 'c) handel =
  conf :: handel_config
  scoring_window :: nat
  unverified_contributions :: "(peer_ix \<rightharpoonup> 'c pending_contribution) list"
  peer_partitions :: "('pid, 'addr) binomial_peer_partitions"
  levels :: "'c active_level option list"
  byzantine_nodes :: "peer_ix set"
  own_contribution_recvs :: "peer_ix set"
  outbox :: "('pid, 'addr, 'c) send_one_shot list"
  own_peer_ix :: peer_ix
  peers_completed_levels :: "peer_ix \<rightharpoonup> nat set"
  next_processing :: "nat option"
  next_dissemination :: nat
  next_activation :: nat

datatype ('pid, 'addr, 'c) poll_result =
    Pending
  | ReadyLeft "('pid, 'addr, 'c) send_one_shot"
  | ReadyRight 'c

section \<open>Construction\<close>

text \<open>\<open>Threshold::min\<close>: \<open>n * num / denom\<close> in \<open>usize\<close> arithmetic.\<close>

definition threshold_min :: "threshold \<Rightarrow> nat \<Rightarrow> nat res" where
  "threshold_min t n =
     res_bind (checked_usize (n * num t)) (\<lambda>p. checked_div p (denom t))"

definition new_level :: "'c scored_contribution \<Rightarrow> nat \<Rightarrow> 'c active_level" where
  "new_level best num_nodes_at_level =
     \<lparr>prioritized_contributions = [], individual_contributions = [], best_contribution = best,
      last_contacted_peer_ix = None, sent_contribution_scores = replicate num_nodes_at_level 0,
      is_completed = False\<rparr>"

definition unit_level :: "'c scored_contribution \<Rightarrow> 'c active_level" where
  "unit_level best =
     \<lparr>prioritized_contributions = [], individual_contributions = [], best_contribution = best,
      last_contacted_peer_ix = None, sent_contribution_scores = [0], is_completed = True\<rparr>"

definition completed :: "'c active_level \<Rightarrow> 'c active_level" where
  "completed lvl = lvl\<lparr>is_completed := True\<rparr>"

definition new_handel ::
  "handel_config \<Rightarrow> 'c \<Rightarrow> ('pid, 'addr) binomial_peer_partitions \<Rightarrow> peer_ix
   \<Rightarrow> ('pid, 'addr, 'c) handel res" where
  "new_handel cf own_contribution pp own_ix =
     (let n = num_levels pp;
          own_scored = \<lparr>score = 1, contribution = own_contribution\<rparr>
      in if n < 2 then Inl IndexOutOfBounds
         else Inr \<lparr>conf = cf, scoring_window = initial_scoring_window cf,
           unverified_contributions = replicate n Map.empty, peer_partitions = pp,
           levels = (replicate n None)[0 := Some (unit_level own_scored), 1 := Some (new_level own_scored 1)],
           byzantine_nodes = {}, own_contribution_recvs = {}, outbox = [], own_peer_ix = own_ix,
           peers_completed_levels = Map.empty, next_processing = None,
           next_dissemination = dissemination_delay cf,
           next_activation = level_activation_delay cf\<rparr>)"

section \<open>Queries\<close>

definition is_complete :: "'c contrib_ops \<Rightarrow> 'c \<Rightarrow> nat \<Rightarrow> threshold \<Rightarrow> bool res" where
  "is_complete ops c level t =
     res_bind (checked_usize (2 ^ level)) (\<lambda>max_score_at_level.
     res_bind (threshold_min t max_score_at_level) (\<lambda>thr. Inr (thr \<le> weight ops c)))"

definition is_active :: "('pid, 'addr, 'c) handel \<Rightarrow> nat \<Rightarrow> bool" where
  "is_active h level = (case get (levels h) level of None \<Rightarrow> False | Some l \<Rightarrow> l \<noteq> None)"

definition get_own_contribution :: "('pid, 'addr, 'c) handel \<Rightarrow> 'c res" where
  "get_own_contribution h =
     res_bind (index (levels h) 0) (\<lambda>l.
       unwrap (map_option (\<lambda>l. contribution (best_contribution l)) l))"

fun best_of_levels :: "'c \<Rightarrow> 'c active_level option list \<Rightarrow> 'c" where
  "best_of_levels best (Some l # ls) = best_of_levels (contribution (best_contribution l)) ls"
| "best_of_levels best _ = best"

text \<open>The method \<open>best_contribution\<close>.\<close>

definition best_contribution_of :: "('pid, 'addr, 'c) handel \<Rightarrow> 'c res" where
  "best_contribution_of h =
     res_bind (get_own_contribution h) (\<lambda>own. Inr (best_of_levels own (levels h)))"

definition get_complete_aggregate :: "('pid, 'addr, 'c) handel \<Rightarrow> 'c option res" where
  "get_complete_aggregate h =
     res_bind (checked_sub (length (levels h)) 1) (\<lambda>last.
     res_bind (index (levels h) last) (\<lambda>l.
       Inr (case l of
              None \<Rightarrow> None
            | Some last_level \<Rightarrow>
                if is_completed last_level
                then Some (contribution (best_contribution last_level)) else None)))"

definition next_non_active_level :: "('pid, 'addr, 'c) handel \<Rightarrow> nat option" where
  "next_non_active_level h =
     (case position (\<lambda>l. l = None) (levels h) of
        None \<Rightarrow> None
      | Some lvl \<Rightarrow> if lvl < num_levels (peer_partitions h) then Some lvl else None)"

text \<open>Whether a peer has announced that it completed a level.\<close>

definition has_completed :: "(peer_ix \<rightharpoonup> nat set) \<Rightarrow> peer_ix \<Rightarrow> nat \<Rightarrow> bool" where
  "has_completed pcl peer level =
     (case pcl peer of None \<Rightarrow> False | Some ls \<Rightarrow> level \<in> ls)"

section \<open>Activation of levels\<close>

function try_activate_level ::
  "('pid, 'addr, 'c) handel \<Rightarrow> nat \<Rightarrow> ('pid, 'addr, 'c) handel res" where
  "try_activate_level h level =
     (if length (levels h) \<le> level \<or> is_active h level then Inr h
      else
        res_bind (checked_sub level 1) (\<lambda>prev.
        res_bind (index (levels h) prev) (\<lambda>p.
          case p of
            None \<Rightarrow> Inr h
          | Some prev_level \<Rightarrow>
              (case peers_at_level (peer_partitions h) level VP of
                 Inl e \<Rightarrow> Inl e
               | Inr ps \<Rightarrow>
                   if ps = []
                   then try_activate_level
                     (h\<lparr>levels := (levels h)[level := Some (unit_level (best_contribution prev_level))]\<rparr>)
                     (level + 1)
                   else Inr (h\<lparr>levels :=
                     (levels h)[level := Some (new_level (best_contribution prev_level) (length ps))]\<rparr>)))))"
  by pat_completeness auto
termination
  by (relation "measure (\<lambda>(h, level). length (levels h) - level)") auto

declare try_activate_level.simps [simp del]

section \<open>Sending\<close>

definition make_message ::
  "('pid, 'addr) binomial_peer_partitions \<Rightarrow> nat \<Rightarrow> 'c option \<Rightarrow> 'c \<Rightarrow> bool \<Rightarrow> peer_ix
   \<Rightarrow> ('pid, 'addr, 'c) send_one_shot res" where
  "make_message pp level individual aggregate contact pix =
     res_bind (identify_peer pp pix) (\<lambda>pid.
       Inr \<lparr>out_peer = pid, out_addr_hint = addr_hint pp pid,
            out_message = \<lparr>msg_level = level mod 2 ^ 32, msg_individual = individual,
                           msg_aggregate = aggregate, contact_sender = contact\<rparr>\<rparr>)"

text \<open>The receivers of the fast path: a window of the level, without the peers that are done.\<close>

definition fast_path_nodes ::
  "('pid, 'addr, 'c) handel \<Rightarrow> nat \<Rightarrow> nat \<Rightarrow> peer_ix list \<Rightarrow> peer_ix list res" where
  "fast_path_nodes h level offset nodes_at_level =
     res_bind
       (res_mapM (\<lambda>ix. checked_rem (ix + offset) (length nodes_at_level))
          [0 ..< fast_path_window (conf h)])
       (\<lambda>ixs. Inr (dedup (sort
          (filter (\<lambda>p. \<not> has_completed (peers_completed_levels h) p (level mod 2 ^ 32))
             (map ((!) nodes_at_level) ixs)))))"

definition run_fast_path ::
  "('pid, 'addr, 'c) handel \<Rightarrow> nat \<Rightarrow> ('pid, 'addr, 'c) handel res" where
  "run_fast_path h level =
     res_bind (index (levels h) 0) (\<lambda>l0.
     let own_contrib = map_option (\<lambda>l. contribution (best_contribution l)) l0
     in res_bind (index (levels h) level) (\<lambda>l.
        case l of
          None \<Rightarrow> Inr h
        | Some lvl \<Rightarrow>
            if \<not> is_completed lvl then Inl AssertFailed
            else
              let offset = (case last_contacted_peer_ix lvl of None \<Rightarrow> 0 | Some x \<Rightarrow> x + 1)
              in res_bind (peers_at_level (peer_partitions h) level CVP) (\<lambda>nodes_at_level.
                 res_bind (fast_path_nodes h level offset nodes_at_level) (\<lambda>nodes.
                 res_bind
                   (res_mapM (\<lambda>pix. make_message (peer_partitions h) level
                        (if pix \<in> own_contribution_recvs h then None else own_contrib)
                        (contribution (best_contribution lvl)) False pix) nodes)
                   (\<lambda>msgs. Inr (h\<lparr>outbox := outbox h @ msgs\<rparr>))))))"

section \<open>Aggregation\<close>

text \<open>
  Contributions are taken from the unverified ones in the order of the peers'
  verification priority until the scoring window is full.
\<close>

fun prioritize ::
  "peer_ix list \<Rightarrow> nat \<Rightarrow> (peer_ix \<rightharpoonup> 'c pending_contribution) \<Rightarrow> 'c pending_contribution list
   \<Rightarrow> (peer_ix \<rightharpoonup> 'c pending_contribution) \<times> 'c pending_contribution list" where
  "prioritize [] window uc prio = (uc, prio)"
| "prioritize (pix # pixs) window uc prio =
     (let (uc', prio') =
        (case uc pix of Some c \<Rightarrow> (uc(pix := None), prio @ [c]) | None \<Rightarrow> (uc, prio))
      in if window \<le> length prio' then (uc', prio') else prioritize pixs window uc' prio')"

text \<open>
  \<open>BTreeSet::insert\<close> under the order of \<open>ScoredContributionTraced\<close>, which compares
  scores only: the set is the list of its elements in ascending order, and an
  element whose score is present already is not inserted.
\<close>

fun scored_insert ::
  "'c scored_contribution_traced \<Rightarrow> 'c scored_contribution_traced list
   \<Rightarrow> 'c scored_contribution_traced list" where
  "scored_insert x [] = [x]"
| "scored_insert x (y # ys) =
     (if t_score x < t_score y then x # y # ys
      else if t_score x = t_score y then y # ys
      else y # scored_insert x ys)"

definition shrink_window :: "nat \<Rightarrow> nat \<Rightarrow> nat res" where
  "shrink_window window factor = res_bind (checked_div window factor) (\<lambda>w. Inr (max w 1))"

text \<open>
  The aggregate of a pending contribution: combined with the best contribution if
  they are compatible, otherwise extended by the verified individual contributions.
\<close>

definition score_aggregate :: "'c contrib_ops \<Rightarrow> 'c \<Rightarrow> 'c list \<Rightarrow> 'c \<Rightarrow> 'c" where
  "score_aggregate ops best ics c =
     (case try_combine ops best c of
        Some aggr \<Rightarrow> aggr
      | None \<Rightarrow> foldl (\<lambda>acc ic. case try_combine ops acc ic of Some a \<Rightarrow> a | None \<Rightarrow> acc) c ics)"

text \<open>What the scoring loop updates.\<close>

record 'c scoring_state =
  sc_individual :: "'c list"
  sc_byzantine :: "peer_ix set"
  sc_window :: nat
  sc_scored :: "'c scored_contribution_traced list"

text \<open>The body of the scoring loop, for one contribution popped from the stack.\<close>

definition score_one ::
  "'c contrib_ops \<Rightarrow> nat \<Rightarrow> 'c \<Rightarrow> 'c scoring_state \<Rightarrow> 'c pending_contribution
   \<Rightarrow> 'c scoring_state res" where
  "score_one ops factor best st c =
     (let score_it = (\<lambda>st.
        let aggr = score_aggregate ops best (sc_individual st) (aggregate_contribution c)
        in Inr (st\<lparr>sc_scored := scored_insert
             \<lparr>t_score = weight ops aggr, t_sender_id = sender_id c, t_contribution = aggr\<rparr>
             (sc_scored st)\<rparr>))
      in case individual_contribution c of
           None \<Rightarrow> score_it st
         | Some ic \<Rightarrow>
             if verify ops ic
             then score_it (st\<lparr>sc_individual := sc_individual st @ [ic]\<rparr>)
             else res_bind (shrink_window (sc_window st) factor) (\<lambda>w.
                    Inr (st\<lparr>sc_byzantine := insert (sender_id c) (sc_byzantine st),
                            sc_window := w\<rparr>)))"

text \<open>What the verification loop updates, and its body.\<close>

record 'c verification_state =
  v_best :: "'c scored_contribution"
  v_byzantine :: "peer_ix set"
  v_window :: nat

definition verify_one ::
  "'c contrib_ops \<Rightarrow> nat \<Rightarrow> 'c verification_state \<Rightarrow> 'c scored_contribution_traced
   \<Rightarrow> 'c verification_state res" where
  "verify_one ops factor st sc =
     (if verify ops (t_contribution sc)
      then Inr (st\<lparr>v_best :=
                     (if score (v_best st) < t_score sc
                      then \<lparr>score = t_score sc, contribution = t_contribution sc\<rparr>
                      else v_best st),
                   v_window := saturating_mul (v_window st) factor\<rparr>)
      else res_bind (shrink_window (v_window st) factor) (\<lambda>w.
             Inr (st\<lparr>v_byzantine := insert (t_sender_id sc) (v_byzantine st), v_window := w\<rparr>)))"

definition run_aggregation ::
  "'c contrib_ops \<Rightarrow> ('pid, 'addr, 'c) handel \<Rightarrow> nat \<Rightarrow> ('pid, 'addr, 'c) handel res" where
  "run_aggregation ops h level =
     res_bind (index (levels h) level) (\<lambda>l.
     case l of
       None \<Rightarrow> Inr h
     | Some lvl \<Rightarrow>
         res_bind (index (unverified_contributions h) level) (\<lambda>uc.
         if uc = Map.empty then Inr h
         else
           res_bind (peers_at_level (peer_partitions h) level VP) (\<lambda>ps.
           let factor = window_shrinking_factor (conf h);
               (uc', prio) = prioritize ps (scoring_window h) uc (prioritized_contributions lvl)
           in res_bind
                (res_fold (score_one ops factor (contribution (best_contribution lvl)))
                   \<lparr>sc_individual = individual_contributions lvl, sc_byzantine = byzantine_nodes h,
                    sc_window = scoring_window h, sc_scored = []\<rparr> (rev prio)) (\<lambda>st.
              res_bind
                (res_fold (verify_one ops factor)
                   \<lparr>v_best = best_contribution lvl, v_byzantine = sc_byzantine st,
                    v_window = sc_window st\<rparr> (sc_scored st)) (\<lambda>vt.
              let lvl' = lvl\<lparr>prioritized_contributions := [],
                             individual_contributions := sc_individual st,
                             best_contribution := v_best vt\<rparr>;
                  h' = h\<lparr>scoring_window := v_window vt,
                         unverified_contributions := (unverified_contributions h)[level := uc'],
                         byzantine_nodes := v_byzantine vt,
                         levels := (levels h)[level := Some lvl']\<rparr>
              in res_bind (is_complete ops (contribution (v_best vt)) level (conf_threshold (conf h)))
                   (\<lambda>complete.
                    if complete
                    then res_bind
                           (run_fast_path (h'\<lparr>levels := (levels h')[level := Some (completed lvl')]\<rparr>) level)
                           (\<lambda>h''. try_activate_level h'' (level + 1))
                    else Inr h'))))))"

section \<open>Contributions and messages\<close>

text \<open>A sender that asks not to be contacted announces that it has completed the level.\<close>

definition mark_completed ::
  "('pid, 'addr, 'c) handel \<Rightarrow> bool \<Rightarrow> peer_ix \<Rightarrow> nat \<Rightarrow> ('pid, 'addr, 'c) handel" where
  "mark_completed h contact peer_ix level =
     (if contact then h
      else let pcl = peers_completed_levels h
           in h\<lparr>peers_completed_levels := pcl(peer_ix \<mapsto>
                insert level (case pcl peer_ix of None \<Rightarrow> {} | Some ls \<Rightarrow> ls))\<rparr>)"

text \<open>\<open>handle_contribution\<close> returns the new state and whether the contribution is taken.\<close>

definition handle_contribution ::
  "('pid, 'addr, 'c) handel \<Rightarrow> 'pid \<Rightarrow> nat \<Rightarrow> bool \<Rightarrow> 'c \<Rightarrow> 'c option
   \<Rightarrow> (('pid, 'addr, 'c) handel \<times> bool) res" where
  "handle_contribution h peer_id level contact aggregate individual =
     (case try_index_peer (peer_partitions h) peer_id of
        None \<Rightarrow> Inr (h, False)
      | Some peer_ix \<Rightarrow>
          let is_byzantine = (peer_ix \<in> byzantine_nodes h);
              h1 = mark_completed h contact peer_ix level
          in res_bind (index (levels h1) level) (\<lambda>l.
             let level_uncompleted =
                   \<not> (case l of None \<Rightarrow> False | Some lvl \<Rightarrow> is_completed lvl)
             in if \<not> is_byzantine \<and> level_uncompleted
                then res_bind (index (unverified_contributions h1) level) (\<lambda>uc.
                       Inr (h1\<lparr>unverified_contributions := (unverified_contributions h1)[level :=
                              uc(peer_ix \<mapsto> \<lparr>sender_id = peer_ix, aggregate_contribution = aggregate,
                                              individual_contribution = individual\<rparr>)]\<rparr>, True))
                else Inr (h1, False)))"

definition inject_message ::
  "'c contrib_ops \<Rightarrow> ('pid, 'addr, 'c) handel \<Rightarrow> 'pid \<Rightarrow> 'c handel_message
   \<Rightarrow> ('pid, 'addr, 'c) handel res" where
  "inject_message ops h peer_id msg =
     res_bind (handle_contribution h peer_id (msg_level msg) (contact_sender msg)
                 (msg_aggregate msg) (msg_individual msg))
       (\<lambda>(h', ok). if ok then run_aggregation ops h' (msg_level msg) else Inr h')"

section \<open>Dissemination\<close>

text \<open>
  \<open>all\<close> over the peers of a level: it stops at the first peer that is not done, and
  asserts of each peer it visits that it is not the host.
\<close>

fun all_peers_completed :: "(peer_ix \<rightharpoonup> nat set) \<Rightarrow> peer_ix \<Rightarrow> nat \<Rightarrow> peer_ix list \<Rightarrow> bool res" where
  "all_peers_completed pcl own level [] = Inr True"
| "all_peers_completed pcl own level (p # ps) =
     (if p = own then Inl AssertFailed
      else if has_completed pcl p level then all_peers_completed pcl own level ps
      else Inr False)"

text \<open>The loop over a range of positions of the level: the first peer that is not done.\<close>

fun first_uncompleted ::
  "(peer_ix \<Rightarrow> bool) \<Rightarrow> peer_ix list \<Rightarrow> nat list \<Rightarrow> (peer_ix \<times> nat) option res" where
  "first_uncompleted dn ps [] = Inr None"
| "first_uncompleted dn ps (i # is) =
     res_bind (index ps i) (\<lambda>p.
       if dn p then first_uncompleted dn ps is else Inr (Some (p, i)))"

text \<open>
  The next peer to contact: after the last one, then from the start, then the last
  one again. While no peer has been contacted only the first one is considered.
\<close>

definition next_peer ::
  "(peer_ix \<Rightarrow> bool) \<Rightarrow> peer_ix list \<Rightarrow> nat option \<Rightarrow> (peer_ix \<times> nat) option res" where
  "next_peer dn ps last_contacted =
     (case last_contacted of
        Some ix \<Rightarrow>
          res_bind (first_uncompleted dn ps [ix + 1 ..< length ps]) (\<lambda>after.
          case after of
            Some n \<Rightarrow> Inr (Some n)
          | None \<Rightarrow>
              res_bind (first_uncompleted dn ps [0 ..< ix]) (\<lambda>before.
              case before of
                Some n \<Rightarrow> Inr (Some n)
              | None \<Rightarrow> first_uncompleted dn ps [ix]))
      | None \<Rightarrow> first_uncompleted dn ps [0])"

text \<open>One turn of the loop over the active levels.\<close>

definition disseminate_level ::
  "'c \<Rightarrow> ('pid, 'addr, 'c) handel \<Rightarrow> nat \<Rightarrow> ('pid, 'addr, 'c) handel res" where
  "disseminate_level own_contrib h lix =
     (case levels h ! lix of
        None \<Rightarrow> Inr h
      | Some lvl \<Rightarrow>
          res_bind (peers_at_level (peer_partitions h) lix CVP) (\<lambda>ps.
          let level = lix mod 2 ^ 32
          in res_bind (all_peers_completed (peers_completed_levels h) (own_peer_ix h) level ps) (\<lambda>all_done.
             if all_done then Inr h
             else
               res_bind (next_peer (\<lambda>p. has_completed (peers_completed_levels h) p level) ps
                           (last_contacted_peer_ix lvl)) (\<lambda>nxt.
               case nxt of
                 None \<Rightarrow> Inr h
               | Some (next_peer_ix, next_peer_level_ix) \<Rightarrow>
                   let best = best_contribution lvl
                   in res_bind (make_message (peer_partitions h) lix
                          (if next_peer_ix \<in> own_contribution_recvs h then None else Some own_contrib)
                          (contribution best) (\<not> is_completed lvl) next_peer_ix) (\<lambda>msg.
                      res_bind (index (sent_contribution_scores lvl) next_peer_level_ix) (\<lambda>sent.
                      let scores = (if sent < score best
                                    then (sent_contribution_scores lvl)[next_peer_level_ix := score best]
                                    else sent_contribution_scores lvl);
                          lvl' = lvl\<lparr>last_contacted_peer_ix := Some next_peer_level_ix,
                                     sent_contribution_scores := scores\<rparr>
                      in Inr (h\<lparr>levels := (levels h)[lix := Some lvl'], outbox := outbox h @ [msg]\<rparr>)))))))"

definition run_dissemination :: "('pid, 'addr, 'c) handel \<Rightarrow> ('pid, 'addr, 'c) handel res" where
  "run_dissemination h =
     res_bind (get_own_contribution h) (\<lambda>own.
       res_fold (disseminate_level own) h [1 ..< length (levels h)])"

section \<open>Polling\<close>

definition base_throttle_duration :: nat where
  "base_throttle_duration = 1"

text \<open>
  \<open>poll\<close>: \<open>dissem\<close>, \<open>activ\<close> and \<open>proc\<close> say whether the dissemination timer, the level
  activation timer and, when it is set, the processing delay have fired.
\<close>

definition poll ::
  "('pid, 'addr, 'c) handel \<Rightarrow> bool \<Rightarrow> bool \<Rightarrow> bool
   \<Rightarrow> (('pid, 'addr, 'c) handel \<times> ('pid, 'addr, 'c) poll_result) res" where
  "poll h dissem activ proc =
     res_bind
       (if dissem
        then res_bind (run_dissemination h) (\<lambda>h'.
               Inr (h'\<lparr>next_dissemination := dissemination_delay (conf h')\<rparr>))
        else Inr h) (\<lambda>h1.
     res_bind
       (if activ
        then (case next_non_active_level h1 of
                None \<Rightarrow> Inr h1
              | Some lvl \<Rightarrow> res_bind (try_activate_level h1 lvl) (\<lambda>h'.
                  Inr (h'\<lparr>next_activation := level_activation_delay (conf h')\<rparr>)))
        else Inr h1) (\<lambda>h2.
     if next_processing h2 \<noteq> None \<and> \<not> proc then Inr (h2, Pending)
     else
       (case outbox h2 of
          out # rest \<Rightarrow>
            Inr (h2\<lparr>next_processing := Some base_throttle_duration, outbox := rest\<rparr>, ReadyLeft out)
        | [] \<Rightarrow>
            res_bind (get_complete_aggregate h2) (\<lambda>ca.
            case ca of
              Some c \<Rightarrow> Inr (h2\<lparr>next_processing := None\<rparr>, ReadyRight c)
            | None \<Rightarrow>
                Inr (h2\<lparr>next_processing :=
                       Some (base_throttle_duration * throttle_factor (conf h2))\<rparr>, Pending)))))"

end
