(* ===== verification/Handel_Correct.thy ===== *)
theory Handel_Correct
  imports Handel
begin

text \<open>
  The invariant of a round of Handel and the proof that every operation keeps it. A round
  is a machine driven by two kinds of event, an injected message and a poll. The theory
  also describes what every operation changes (the lemmas named \<open>_cases\<close> and
  \<open>_frame\<close>) and shows that no step loses what the round has learnt.
\<close>

section \<open>Events\<close>

datatype ('pid, 'c) handel_event =
    Inject 'pid "'c handel_message"
  | Poll bool bool bool

fun handel_step ::
  "'c contrib_ops \<Rightarrow> ('pid, 'addr, 'c) handel \<Rightarrow> ('pid, 'c) handel_event
   \<Rightarrow> ('pid, 'addr, 'c) handel res" where
  "handel_step ops h (Inject peer_id msg) = inject_message ops h peer_id msg"
| "handel_step ops h (Poll dissem activ proc) =
     res_bind (poll h dissem activ proc) (\<lambda>(h', r). Inr h')"

section \<open>Invariant\<close>

definition level_ok ::
  "'c contrib_ops \<Rightarrow> ('pid, 'addr) binomial_peer_partitions \<Rightarrow> threshold \<Rightarrow> nat
   \<Rightarrow> 'c active_level \<Rightarrow> bool" where
  "level_ok ops pp t i lvl \<longleftrightarrow>
     prioritized_contributions lvl = [] \<and>
     (\<forall>c \<in> set (individual_contributions lvl). verify ops c) \<and>
     verify ops (contribution (best_contribution lvl)) \<and>
     (\<forall>ps. peers_at_level pp i CVP = Inr ps \<longrightarrow>
        length ps \<le> length (sent_contribution_scores lvl) \<and>
        (\<forall>k. last_contacted_peer_ix lvl = Some k \<longrightarrow> k < length ps) \<and>
        (is_completed lvl \<longrightarrow> ps \<noteq> [] \<longrightarrow>
           is_complete ops (contribution (best_contribution lvl)) i t = Inr True) \<and>
        (\<not> is_completed lvl \<longrightarrow> ps = [] \<longrightarrow> i = 1))"

definition levels_ok ::
  "'c contrib_ops \<Rightarrow> ('pid, 'addr) binomial_peer_partitions \<Rightarrow> threshold
   \<Rightarrow> 'c active_level option list \<Rightarrow> bool" where
  "levels_ok ops pp t ls \<longleftrightarrow>
     length ls = num_levels pp \<and> ls ! 0 \<noteq> None \<and>
     (\<forall>i. Suc i < length ls \<longrightarrow> ls ! i = None \<longrightarrow> ls ! Suc i = None) \<and>
     (\<forall>i lvl. i < length ls \<longrightarrow> ls ! i = Some lvl \<longrightarrow> level_ok ops pp t i lvl)"

definition handel_inv :: "'c contrib_ops \<Rightarrow> ('pid, 'addr, 'c) handel \<Rightarrow> bool" where
  "handel_inv ops h \<longleftrightarrow>
     overlay_inv (own_peer_ix h) (peer_partitions h) \<and>
     levels_ok ops (peer_partitions h) (conf_threshold (conf h)) (levels h) \<and>
     length (unverified_contributions h) = num_levels (peer_partitions h) \<and>
     (\<forall>uc \<in> set (unverified_contributions h). \<forall>p c. uc p = Some c \<longrightarrow> sender_id c = p)"

lemma handel_invD:
  assumes "handel_inv ops h"
  shows "overlay_inv (own_peer_ix h) (peer_partitions h)"
    "levels_ok ops (peer_partitions h) (conf_threshold (conf h)) (levels h)"
    "length (levels h) = num_levels (peer_partitions h)"
    "length (unverified_contributions h) = num_levels (peer_partitions h)"
    "2 \<le> num_levels (peer_partitions h)"
    "i < length (levels h) \<Longrightarrow> levels h ! i = Some lvl
      \<Longrightarrow> level_ok ops (peer_partitions h) (conf_threshold (conf h)) i lvl"
    "levels h ! 0 \<noteq> None"
    "uc \<in> set (unverified_contributions h) \<Longrightarrow> uc p = Some c \<Longrightarrow> sender_id c = p"
  using assms binomial.two_levels unfolding handel_inv_def levels_ok_def by blast+

lemma levels_ok_update:
  assumes "levels_ok ops pp t ls" "i < length ls" "level_ok ops pp t i lvl"
    and "i = 0 \<or> ls ! (i - 1) \<noteq> None"
  shows "levels_ok ops pp t (ls[i := Some lvl])"
  using assms unfolding levels_ok_def
  by (auto simp: nth_list_update split: if_splits)

lemma level_active_prefix:
  assumes "levels_ok ops pp t ls" "i < length ls" "ls ! i \<noteq> None" "j \<le> i"
  shows "ls ! j \<noteq> None"
  using assms(4,2,3)
proof (induction rule: inc_induct)
  case (step k)
  then show ?case using assms(1) unfolding levels_ok_def by force
qed

section \<open>Frame of the operations\<close>

lemma run_fast_path_frame:
  assumes "run_fast_path h level = Inr h'"
  obtains msgs where "h' = h\<lparr>outbox := outbox h @ msgs\<rparr>"
proof -
  have "\<exists>msgs. h' = h\<lparr>outbox := outbox h @ msgs\<rparr>"
    using assms
    by (auto simp: run_fast_path_def Let_def res_simps split: option.splits if_splits
        intro: exI [of _ "[]"])
  then show thesis using that by blast
qed

lemma handel_record_eq [simp]:
  "h\<lparr>levels := levels h\<rparr> = h" "h\<lparr>outbox := outbox h\<rparr> = h"
  by simp_all

lemma level_ok_fresh:
  assumes inv: "overlay_inv own pp" and ps: "peers_at_level pp i VP = Inr ps"
    and v: "verify ops (contribution best)"
  shows "ps = [] \<Longrightarrow> level_ok ops pp t i (unit_level best)"
    and "ps \<noteq> [] \<or> i = 1 \<Longrightarrow> length ps \<le> n \<Longrightarrow> level_ok ops pp t i (new_level best n)"
  using v binomial.level_orders_length [OF inv ps, of CVP]
  by (fastforce simp: level_ok_def unit_level_def new_level_def)+

lemma activation_step_inv:
  assumes inv: "handel_inv ops h" and l: "l < length (levels h)" "0 < l"
    and prev: "levels h ! (l - 1) = Some p" and ps: "peers_at_level (peer_partitions h) l VP = Inr ps"
    and lvl: "lvl = (if ps = [] then unit_level (best_contribution p)
                     else new_level (best_contribution p) (length ps))"
  shows "handel_inv ops (h\<lparr>levels := (levels h)[l := Some lvl]\<rparr>)"
proof -
  note D = handel_invD [OF inv]
  have v: "verify ops (contribution (best_contribution p))"
    using D(6) [OF _ prev] l by (simp add: level_ok_def)
  have "level_ok ops (peer_partitions h) (conf_threshold (conf h)) l lvl"
    using level_ok_fresh [OF D(1) ps v] lvl by auto
  then have "levels_ok ops (peer_partitions h) (conf_threshold (conf h)) ((levels h)[l := Some lvl])"
    using levels_ok_update [OF D(2)] l prev by auto
  then show ?thesis using inv by (simp add: handel_inv_def)
qed

lemma try_activate_level_cases:
  assumes "try_activate_level h l = Inr h'"
  obtains (none) "h' = h"
    | (skip) p where "0 < l" "l < length (levels h)" "levels h ! l = None" "levels h ! (l - 1) = Some p"
      "peers_at_level (peer_partitions h) l VP = Inr []"
      "try_activate_level (h\<lparr>levels := (levels h)[l := Some (unit_level (best_contribution p))]\<rparr>) (l + 1)
         = Inr h'"
    | (new) p ps where "0 < l" "l < length (levels h)" "levels h ! l = None" "levels h ! (l - 1) = Some p"
      "peers_at_level (peer_partitions h) l VP = Inr ps" "ps \<noteq> []"
      "h' = h\<lparr>levels := (levels h)[l := Some (new_level (best_contribution p) (length ps))]\<rparr>"
proof (cases "length (levels h) \<le> l \<or> is_active h l")
  case True
  then show thesis using assms none by (simp add: try_activate_level.simps)
next
  case False
  then have l: "l < length (levels h)" "levels h ! l = None"
    by (auto simp: is_active_def get_def)
  have eq: "try_activate_level h l =
      res_bind (checked_sub l 1) (\<lambda>prev. res_bind (index (levels h) prev) (\<lambda>p.
          case p of None \<Rightarrow> Inr h
          | Some q \<Rightarrow> (case peers_at_level (peer_partitions h) l VP of Inl e \<Rightarrow> Inl e
               | Inr ps \<Rightarrow> if ps = []
                   then try_activate_level (h\<lparr>levels := (levels h)[l := Some (unit_level (best_contribution q))]\<rparr>) (l + 1)
                   else Inr (h\<lparr>levels := (levels h)[l := Some (new_level (best_contribution q) (length ps))]\<rparr>))))"
    using False by (subst try_activate_level.simps) simp
  show thesis
    using assms l none skip new unfolding eq
    by (simp only: res_simps) (auto split: option.splits sum.splits if_splits)
qed

lemma try_activate_level_frame:
  "try_activate_level h l = Inr h' \<Longrightarrow>
   \<exists>ls. h' = h\<lparr>levels := ls\<rparr> \<and> length ls = length (levels h) \<and>
     (\<forall>i. levels h ! i \<noteq> None \<longrightarrow> ls ! i = levels h ! i)"
proof (induction h l arbitrary: h' rule: try_activate_level.induct)
  case (1 h l)
  from 1(2) show ?case
  proof (cases rule: try_activate_level_cases)
    case none
    then show ?thesis by (auto intro: exI [of _ "levels h"])
  next
    case (skip p)
    have "\<not> (length (levels h) \<le> l \<or> is_active h l)"
      using skip(1-3) by (auto simp: is_active_def get_def)
    from 1(1) [OF this skip(5) refl skip(6)] obtain ls where
      "h' = h\<lparr>levels := ls\<rparr>" "length ls = length (levels h)"
      "\<forall>i. (levels h)[l := Some (unit_level (best_contribution p))] ! i \<noteq> None \<longrightarrow>
         ls ! i = (levels h)[l := Some (unit_level (best_contribution p))] ! i"
      by auto
    then show ?thesis using skip(3) by (metis nth_list_update_neq)
  next
    case (new p ps)
    then show ?thesis
      by (intro exI [of _ "(levels h)[l := Some (new_level (best_contribution p) (length ps))]"])
        (auto simp: nth_list_update)
  qed
qed

lemma try_activate_level_inv:
  "try_activate_level h l = Inr h' \<Longrightarrow> handel_inv ops h \<Longrightarrow> handel_inv ops h'"
proof (induction h l arbitrary: h' rule: try_activate_level.induct)
  case (1 h l)
  from 1(2) show ?case
  proof (cases rule: try_activate_level_cases)
    case none
    then show ?thesis using 1(3) by simp
  next
    case (skip p)
    have c: "\<not> (length (levels h) \<le> l \<or> is_active h l)"
      using skip(1-3) by (auto simp: is_active_def get_def)
    show ?thesis
      by (rule 1(1) [OF c skip(5) refl skip(6)])
        (use activation_step_inv [OF 1(3) skip(2,1,4,5) refl] in simp)
  next
    case (new p ps)
    then show ?thesis using activation_step_inv [OF 1(3) new(2,1,4,5) refl] by simp
  qed
qed

section \<open>The scoring and the verification loop\<close>

lemma score_one_cases:
  assumes "score_one ops factor best st c = Inr st'"
  obtains (ban) ic w where "individual_contribution c = Some ic" "\<not> verify ops ic"
      "shrink_window (sc_window st) factor = Inr w"
      "st' = st\<lparr>sc_byzantine := insert (sender_id c) (sc_byzantine st), sc_window := w\<rparr>"
    | (score) ics aggr where "ics = sc_individual st \<or> (\<exists>ic. individual_contribution c = Some ic \<and> verify ops ic
          \<and> ics = sc_individual st @ [ic])"
      "aggr = score_aggregate ops best ics (aggregate_contribution c)"
      "st' = st\<lparr>sc_individual := ics, sc_scored := scored_insert
         \<lparr>t_score = weight ops aggr, t_sender_id = sender_id c, t_contribution = aggr\<rparr> (sc_scored st)\<rparr>"
proof (cases "individual_contribution c")
  case None
  then show thesis using assms score [OF _ refl] by (simp add: score_one_def Let_def)
next
  case (Some ic)
  show thesis
  proof (cases "verify ops ic")
    case True
    then show thesis
      using assms Some score [OF _ refl, of "sc_individual st @ [ic]"] by (simp add: score_one_def Let_def)
  next
    case False
    then show thesis using assms Some ban by (auto simp: score_one_def Let_def res_simps)
  qed
qed

lemma set_scored_insert: "set (scored_insert x ys) \<subseteq> insert x (set ys)"
  by (induction x ys rule: scored_insert.induct) auto

lemma sorted_scored_insert:
  "sorted_wrt (\<lambda>a b. t_score a < t_score b) ys
   \<Longrightarrow> sorted_wrt (\<lambda>a b. t_score a < t_score b) (scored_insert x ys)"
proof (induction x ys rule: scored_insert.induct)
  case (2 x y ys)
  then show ?case using set_scored_insert [of x ys] by fastforce
qed simp

text \<open>What the scoring loop keeps.\<close>

definition scoring_ok ::
  "'c contrib_ops \<Rightarrow> peer_ix set \<Rightarrow> 'c scoring_state \<Rightarrow> bool" where
  "scoring_ok ops byz st \<longleftrightarrow>
     (\<forall>c \<in> set (sc_individual st). verify ops c) \<and> byz \<subseteq> sc_byzantine st \<and>
     (\<forall>s \<in> set (sc_scored st). t_score s = weight ops (t_contribution s)) \<and>
     sorted_wrt (\<lambda>a b. t_score a < t_score b) (sc_scored st)"

lemma score_one_ok:
  assumes "scoring_ok ops byz st" "score_one ops factor best st c = Inr st'"
  shows "scoring_ok ops byz st'"
  using assms(2)
proof (cases rule: score_one_cases)
  case (ban ic w)
  then show ?thesis using assms(1) by (auto simp: scoring_ok_def)
next
  case (score ics aggr)
  then show ?thesis
    using assms(1) set_scored_insert
      [of "\<lparr>t_score = weight ops aggr, t_sender_id = sender_id c, t_contribution = aggr\<rparr>" "sc_scored st"]
    by (auto simp: scoring_ok_def intro: sorted_scored_insert)
qed

lemma scoring_loop_ok:
  assumes "res_fold (score_one ops factor best)
      \<lparr>sc_individual = ics, sc_byzantine = byz, sc_window = w, sc_scored = []\<rparr> cs = Inr st"
    and "\<forall>c \<in> set ics. verify ops c"
  shows "scoring_ok ops byz st"
  by (rule res_fold_invariant [OF _ _ assms(1)])
    (use assms(2) in \<open>simp add: scoring_ok_def\<close>, rule score_one_ok)

text \<open>What the verification loop keeps.\<close>

definition verification_ok ::
  "'c contrib_ops \<Rightarrow> 'c scored_contribution \<Rightarrow> peer_ix set \<Rightarrow> 'c verification_state \<Rightarrow> bool" where
  "verification_ok ops best byz st \<longleftrightarrow>
     verify ops (contribution (v_best st)) \<and> byz \<subseteq> v_byzantine st \<and>
     score best \<le> score (v_best st) \<and>
     (v_best st = best \<or> score (v_best st) = weight ops (contribution (v_best st)))"

lemma verification_loop_ok:
  assumes "res_fold (verify_one ops factor) \<lparr>v_best = best, v_byzantine = byz, v_window = w\<rparr> scs = Inr vt"
    and "verify ops (contribution best)"
    and "\<forall>s \<in> set scs. t_score s = weight ops (t_contribution s)"
  shows "verification_ok ops best byz vt"
  by (rule res_fold_invariant [OF _ _ assms(1)])
    (use assms(2,3) in \<open>auto simp: verification_ok_def verify_one_def res_simps split: if_splits\<close>)

section \<open>Aggregation\<close>

definition aggregated ::
  "('pid, 'addr, 'c) handel \<Rightarrow> nat \<Rightarrow> 'c active_level \<Rightarrow> (peer_ix \<rightharpoonup> 'c pending_contribution)
   \<Rightarrow> 'c verification_state \<Rightarrow> ('pid, 'addr, 'c) handel" where
  "aggregated h level lvl uc vt =
     h\<lparr>scoring_window := v_window vt,
       unverified_contributions := (unverified_contributions h)[level := uc],
       byzantine_nodes := v_byzantine vt,
       levels := (levels h)[level := Some lvl]\<rparr>"

lemma run_aggregation_cases:
  assumes "run_aggregation ops h level = Inr h'"
  obtains (idle) "level < length (levels h)" "h' = h"
    | (run) lvl ps uc prio st vt lvl' where
      "level < length (levels h)" "levels h ! level = Some lvl"
      "level < length (unverified_contributions h)"
      "peers_at_level (peer_partitions h) level VP = Inr ps"
      "prioritize ps (scoring_window h) (unverified_contributions h ! level)
         (prioritized_contributions lvl) = (uc, prio)"
      "res_fold (score_one ops (window_shrinking_factor (conf h)) (contribution (best_contribution lvl)))
         \<lparr>sc_individual = individual_contributions lvl, sc_byzantine = byzantine_nodes h,
          sc_window = scoring_window h, sc_scored = []\<rparr> (rev prio) = Inr st"
      "res_fold (verify_one ops (window_shrinking_factor (conf h)))
         \<lparr>v_best = best_contribution lvl, v_byzantine = sc_byzantine st, v_window = sc_window st\<rparr>
         (sc_scored st) = Inr vt"
      "lvl' = lvl\<lparr>prioritized_contributions := [], individual_contributions := sc_individual st,
                  best_contribution := v_best vt\<rparr>"
      "is_complete ops (contribution (v_best vt)) level (conf_threshold (conf h)) = Inr False \<and>
         h' = aggregated h level lvl' uc vt \<or>
       is_complete ops (contribution (v_best vt)) level (conf_threshold (conf h)) = Inr True \<and>
         (\<exists>msgs. try_activate_level
            ((aggregated h level (completed lvl') uc vt)\<lparr>outbox := outbox h @ msgs\<rparr>) (level + 1) = Inr h')"
proof -
  from assms have lt: "level < length (levels h)"
    by (auto simp: run_aggregation_def res_simps)
  show thesis
  proof (cases "levels h ! level = None \<or> unverified_contributions h ! level = Map.empty")
    case True
    with assms lt have "h' = h"
      by (auto simp: run_aggregation_def res_simps split: option.splits)
    then show thesis using idle lt by blast
  next
    case False
    then obtain lvl where lvl: "levels h ! level = Some lvl" by auto
    obtain ps where ps: "peers_at_level (peer_partitions h) level VP = Inr ps"
      and uv: "level < length (unverified_contributions h)"
      using assms False lt lvl by (auto simp: run_aggregation_def res_simps)
    obtain uc prio where pr: "prioritize ps (scoring_window h) (unverified_contributions h ! level)
         (prioritized_contributions lvl) = (uc, prio)" by fastforce
    show thesis
      using assms False
      apply (simp add: run_aggregation_def lt lvl ps uv pr Let_def)
      apply (simp only: res_simps)
      apply (elim exE conjE)
      subgoal for st vt cmp
        apply (rule run [OF lt lvl uv ps pr _ _ refl, of st vt])
          apply assumption
         apply assumption
        apply (cases cmp)
         apply (auto simp: res_simps aggregated_def elim!: run_fast_path_frame)
        done
      done
  qed
qed

lemma prioritize_takes:
  assumes "prioritize ps window uc prio = (uc', prio')"
  shows "uc' \<subseteq>\<^sub>m uc \<and> set prio' \<subseteq> set prio \<union> ran uc"
  using assms
proof (induction ps arbitrary: uc prio)
  case (Cons p ps)
  show ?case
  proof (cases "uc p")
    case None
    then show ?thesis using Cons by (auto split: if_splits)
  next
    case (Some c)
    have sub: "uc(p := None) \<subseteq>\<^sub>m uc" "ran (uc(p := None)) \<subseteq> ran uc" "c \<in> ran uc"
      using Some by (auto simp: map_le_def ran_def)
    have "uc' \<subseteq>\<^sub>m uc(p := None) \<and> set prio' \<subseteq> set (prio @ [c]) \<union> ran (uc(p := None))"
      using Cons.prems Cons.IH [of "uc(p := None)" "prio @ [c]"] Some
      by (auto simp: Let_def simp del: fun_upd_apply split: if_splits)
    then show ?thesis using sub map_le_trans [of uc' "uc(p := None)" uc] by auto
  qed
qed simp

lemma aggregated_level_ok:
  assumes ok: "level_ok ops pp t i lvl" and open_level: "\<not> is_completed lvl"
    and sc: "scoring_ok ops byz st" and v: "verification_ok ops (best_contribution lvl) byz' vt"
    and lvl': "lvl' = lvl\<lparr>prioritized_contributions := [], individual_contributions := sc_individual st,
                  best_contribution := v_best vt\<rparr>"
  shows "level_ok ops pp t i lvl'"
    and "is_complete ops (contribution (v_best vt)) i t = Inr True \<Longrightarrow> level_ok ops pp t i (completed lvl')"
  using assms
  by (auto simp: level_ok_def completed_def scoring_ok_def verification_ok_def)

lemma aggregated_inv:
  assumes inv: "handel_inv ops h" and lvl: "level < length (levels h)" "levels h ! level = Some lvl"
    "level < length (unverified_contributions h)" "\<not> is_completed lvl"
    and pr: "prioritize ps w (unverified_contributions h ! level) prio0 = (uc, prio)"
    and score: "res_fold (score_one ops factor best)
         \<lparr>sc_individual = individual_contributions lvl, sc_byzantine = byz, sc_window = w', sc_scored = []\<rparr>
         (rev prio) = Inr st"
    and verif: "res_fold (verify_one ops factor)
         \<lparr>v_best = best_contribution lvl, v_byzantine = byz', v_window = w''\<rparr> (sc_scored st) = Inr vt"
    and lvl': "lvl' = lvl\<lparr>prioritized_contributions := [], individual_contributions := sc_individual st,
                  best_contribution := v_best vt\<rparr>"
  shows "handel_inv ops (aggregated h level lvl' uc vt)"
    and "is_complete ops (contribution (v_best vt)) level (conf_threshold (conf h)) = Inr True
      \<Longrightarrow> handel_inv ops (aggregated h level (completed lvl') uc vt)"
proof -
  note D = handel_invD [OF inv]
  have ok: "level_ok ops (peer_partitions h) (conf_threshold (conf h)) level lvl"
    using D(6) lvl(1,2) by blast
  have sc: "scoring_ok ops byz st"
    by (rule scoring_loop_ok [OF score]) (use ok in \<open>simp add: level_ok_def\<close>)
  have v: "verification_ok ops (best_contribution lvl) byz' vt"
    by (rule verification_loop_ok [OF verif]) (use ok sc in \<open>auto simp: level_ok_def scoring_ok_def\<close>)
  note lv = aggregated_level_ok [OF ok lvl(4) sc v lvl']
  have sub: "uc \<subseteq>\<^sub>m unverified_contributions h ! level"
    using prioritize_takes [OF pr] by blast
  have agg: "handel_inv ops (aggregated h level l uc vt)"
    if "level_ok ops (peer_partitions h) (conf_threshold (conf h)) level l" for l
  proof -
    have "levels_ok ops (peer_partitions h) (conf_threshold (conf h)) ((levels h)[level := Some l])"
      by (rule levels_ok_update [OF D(2) lvl(1) that])
        (metis lvl(1,2) level_active_prefix [OF D(2)] diff_le_self option.distinct(1))
    moreover have "sender_id c = p"
      if "uc' \<in> set ((unverified_contributions h)[level := uc])" "uc' p = Some c" for uc' p c
      using in_set_updateD [OF that(1)] that(2) D(8) sub lvl(3) by (metis domI map_le_def nth_mem)
    ultimately show ?thesis using inv by (simp add: handel_inv_def aggregated_def)
  qed
  show "handel_inv ops (aggregated h level lvl' uc vt)" by (rule agg [OF lv(1)])
  show "handel_inv ops (aggregated h level (completed lvl') uc vt)"
    if "is_complete ops (contribution (v_best vt)) level (conf_threshold (conf h)) = Inr True"
    by (rule agg [OF lv(2) [OF that]])
qed

lemma run_aggregation_inv:
  assumes inv: "handel_inv ops h" and run: "run_aggregation ops h level = Inr h'"
    and open_level: "\<And>lvl. levels h ! level = Some lvl \<Longrightarrow> \<not> is_completed lvl"
  shows "handel_inv ops h'"
  using run
proof (cases rule: run_aggregation_cases)
  case idle
  then show ?thesis using inv by simp
next
  case (run lvl ps uc prio st vt lvl')
  note agg = aggregated_inv [OF inv run(1,2,3) open_level [OF run(2)] run(5,6,7,8)]
  from run(9) show ?thesis
  proof (elim disjE conjE exE)
    assume "h' = aggregated h level lvl' uc vt"
    then show ?thesis using agg(1) by simp
  next
    fix msgs
    assume c: "is_complete ops (contribution (v_best vt)) level (conf_threshold (conf h)) = Inr True"
      and t: "try_activate_level ((aggregated h level (completed lvl') uc vt)\<lparr>outbox := outbox h @ msgs\<rparr>)
        (level + 1) = Inr h'"
    show ?thesis
      by (rule try_activate_level_inv [OF t]) (use agg(2) [OF c] in \<open>simp add: handel_inv_def\<close>)
  qed
qed

section \<open>Contributions and messages\<close>

lemma mark_completed_frame:
  obtains pcl where "mark_completed h contact p level = h\<lparr>peers_completed_levels := pcl\<rparr>"
proof (cases contact)
  case True
  then show thesis using that [of "peers_completed_levels h"] by (simp add: mark_completed_def)
next
  case False
  then show thesis using that by (simp add: mark_completed_def Let_def)
qed

lemma handle_contribution_cases:
  assumes "handle_contribution h pid level contact agg ind = Inr (h', ok)"
  obtains (unknown) "try_index_peer (peer_partitions h) pid = None" "h' = h" "\<not> ok"
    | (known) p pcl where "try_index_peer (peer_partitions h) pid = Some p" "level < length (levels h)"
      "\<not> ok" "h' = h\<lparr>peers_completed_levels := pcl\<rparr>"
      "p \<in> byzantine_nodes h \<or> (\<exists>lvl. levels h ! level = Some lvl \<and> is_completed lvl)"
    | (taken) p pcl where "try_index_peer (peer_partitions h) pid = Some p" "level < length (levels h)"
      "level < length (unverified_contributions h)"
      "ok" "p \<notin> byzantine_nodes h" "\<And>lvl. levels h ! level = Some lvl \<Longrightarrow> \<not> is_completed lvl"
      "h' = h\<lparr>peers_completed_levels := pcl, unverified_contributions :=
         (unverified_contributions h)[level := (unverified_contributions h ! level)
           (p \<mapsto> \<lparr>sender_id = p, aggregate_contribution = agg, individual_contribution = ind\<rparr>)]\<rparr>"
proof (cases "try_index_peer (peer_partitions h) pid")
  case None
  then have "h' = h" "\<not> ok" using assms by (simp_all add: handle_contribution_def)
  then show thesis using None unknown by blast
next
  case (Some p)
  obtain pcl where h1: "mark_completed h contact p level = h\<lparr>peers_completed_levels := pcl\<rparr>"
    by (rule mark_completed_frame)
  have lt: "level < length (levels h)"
    using assms Some by (auto simp: handle_contribution_def Let_def h1 res_simps)
  show thesis
  proof (cases "p \<in> byzantine_nodes h \<or> (\<exists>lvl. levels h ! level = Some lvl \<and> is_completed lvl)")
    case True
    then show thesis
      using assms Some known [OF Some lt] lt
      by (auto simp: handle_contribution_def Let_def h1 split: option.splits)
  next
    case False
    then show thesis
      apply (intro taken [OF Some lt, of pcl])
      using assms Some lt
      apply (auto simp: handle_contribution_def Let_def h1 res_simps split: option.splits if_splits)
      done
  qed
qed

lemma inject_message_cases:
  assumes "inject_message ops h pid msg = Inr h'"
  obtains (refused) pcl where "h' = h\<lparr>peers_completed_levels := pcl\<rparr>"
    | (taken) p pcl h1 where "try_index_peer (peer_partitions h) pid = Some p" "msg_level msg < length (levels h)"
      "msg_level msg < length (unverified_contributions h)" "p \<notin> byzantine_nodes h"
      "\<And>lvl. levels h ! msg_level msg = Some lvl \<Longrightarrow> \<not> is_completed lvl"
      "h1 = h\<lparr>peers_completed_levels := pcl, unverified_contributions :=
         (unverified_contributions h)[msg_level msg := (unverified_contributions h ! msg_level msg)
           (p \<mapsto> \<lparr>sender_id = p, aggregate_contribution = msg_aggregate msg,
                  individual_contribution = msg_individual msg\<rparr>)]\<rparr>"
      "run_aggregation ops h1 (msg_level msg) = Inr h'"
proof -
  obtain h1 ok where hc: "handle_contribution h pid (msg_level msg) (contact_sender msg)
      (msg_aggregate msg) (msg_individual msg) = Inr (h1, ok)"
    and rest: "(if ok then run_aggregation ops h1 (msg_level msg) else Inr h1) = Inr h'"
    using assms by (auto simp: inject_message_def res_simps)
  from hc show thesis
  proof (cases rule: handle_contribution_cases)
    case unknown
    then show thesis using rest refused [of "peers_completed_levels h"] by simp
  next
    case (known p pcl)
    then show thesis using rest refused by auto
  next
    case (taken p pcl)
    then show thesis using rest by (intro that(2) [OF taken(1,2,3,5,6,7)]) auto
  qed
qed

lemma deposit_inv:
  assumes inv: "handel_inv ops h" and l: "l < length (unverified_contributions h)"
    and h1: "h1 = h\<lparr>peers_completed_levels := pcl, unverified_contributions :=
         (unverified_contributions h)[l := (unverified_contributions h ! l)(p \<mapsto> c)]\<rparr>" "sender_id c = p"
  shows "handel_inv ops h1"
proof -
  have "sender_id d = q"
    if "uc \<in> set ((unverified_contributions h)[l := (unverified_contributions h ! l)(p \<mapsto> c)])"
      "uc q = Some d" for uc q d
    using in_set_updateD [OF that(1)] that(2) handel_invD(8) [OF inv] nth_mem [OF l] h1(2)
    by (auto split: if_splits)
  then show ?thesis using inv h1(1) by (simp add: handel_inv_def)
qed

lemma inject_message_inv:
  assumes inv: "handel_inv ops h" and step: "inject_message ops h pid msg = Inr h'"
  shows "handel_inv ops h'"
  using step
proof (cases rule: inject_message_cases)
  case (refused pcl)
  then show ?thesis using inv by (simp add: handel_inv_def)
next
  case (taken p pcl h1)
  have "handel_inv ops h1" by (rule deposit_inv [OF inv taken(3,6)]) simp
  then show ?thesis
    by (rule run_aggregation_inv [OF _ taken(7)]) (use taken(5,6) in auto)
qed

section \<open>Dissemination\<close>

lemma first_uncompleted_Some:
  "first_uncompleted dn ps is = Inr (Some (p, i)) \<Longrightarrow> i \<in> set is \<and> i < length ps \<and> p = ps ! i \<and> \<not> dn p"
  by (induction dn ps "is" rule: first_uncompleted.induct) (auto simp: res_simps split: if_splits)

lemma first_uncompleted_total:
  "(\<And>i. i \<in> set is \<Longrightarrow> i < length ps) \<Longrightarrow> \<exists>r. first_uncompleted dn ps is = Inr r"
  by (induction dn ps "is" rule: first_uncompleted.induct) auto

lemma next_peer_Some:
  assumes "next_peer dn ps lc = Inr (Some (p, i))"
  shows "i < length ps \<and> p = ps ! i \<and> \<not> dn p"
  using assms unfolding next_peer_def
  by (auto simp: res_simps split: option.splits dest!: first_uncompleted_Some simp del: first_uncompleted.simps)

lemma next_peer_total:
  assumes "ps \<noteq> []" "\<And>k. lc = Some k \<Longrightarrow> k < length ps"
  shows "\<exists>r. next_peer dn ps lc = Inr r"
proof (cases lc)
  case None
  then show ?thesis
    using first_uncompleted_total [of "[0]" ps dn] assms(1) by (simp add: next_peer_def)
next
  case (Some k)
  obtain a b c where "first_uncompleted dn ps [k + 1 ..< length ps] = Inr a"
    "first_uncompleted dn ps [0 ..< k] = Inr b" "first_uncompleted dn ps [k] = Inr c"
    using first_uncompleted_total [of "[k + 1 ..< length ps]" ps dn]
      first_uncompleted_total [of "[0 ..< k]" ps dn] first_uncompleted_total [of "[k]" ps dn]
      assms(2) [OF Some] by fastforce
  then show ?thesis using Some by (auto simp: next_peer_def split: option.splits)
qed

lemma disseminate_level_cases:
  assumes "disseminate_level own h lix = Inr h'"
  obtains (none) "h' = h"
    | (sent) lvl ps p k sc msg where
      "levels h ! lix = Some lvl" "peers_at_level (peer_partitions h) lix CVP = Inr ps"
      "k < length ps" "p = ps ! k" "\<not> has_completed (peers_completed_levels h) p (lix mod 2 ^ 32)"
      "make_message (peer_partitions h) lix
         (if p \<in> own_contribution_recvs h then None else Some own)
         (contribution (best_contribution lvl)) (\<not> is_completed lvl) p = Inr msg"
      "length sc = length (sent_contribution_scores lvl)"
      "h' = h\<lparr>levels := (levels h)[lix := Some (lvl\<lparr>last_contacted_peer_ix := Some k,
          sent_contribution_scores := sc\<rparr>)], outbox := outbox h @ [msg]\<rparr>"
proof (cases "levels h ! lix")
  case None
  then show thesis using assms none by (simp add: disseminate_level_def)
next
  case (Some lvl)
  obtain ps all where ps: "peers_at_level (peer_partitions h) lix CVP = Inr ps"
    and all: "all_peers_completed (peers_completed_levels h) (own_peer_ix h) (lix mod 2 ^ 32) ps = Inr all"
    using assms Some by (auto simp: disseminate_level_def Let_def res_simps)
  show thesis
  proof (cases all)
    case True
    then show thesis using assms none Some ps all by (simp add: disseminate_level_def)
  next
    case False
    then obtain nxt where nxt: "next_peer (\<lambda>p. has_completed (peers_completed_levels h) p (lix mod 2 ^ 32))
        ps (last_contacted_peer_ix lvl) = Inr nxt"
      using assms Some ps all by (auto simp: disseminate_level_def Let_def res_simps)
    show thesis
    proof (cases nxt)
      case None
      then show thesis using assms none Some ps all False nxt by (simp add: disseminate_level_def)
    next
      case pk: (Some pk)
      obtain p k where [simp]: "pk = (p, k)" by fastforce
      note np = next_peer_Some [OF nxt [unfolded pk \<open>pk = (p, k)\<close>]]
      obtain msg where msg: "make_message (peer_partitions h) lix
         (if p \<in> own_contribution_recvs h then None else Some own)
         (contribution (best_contribution lvl)) (\<not> is_completed lvl) p = Inr msg"
        and k: "k < length (sent_contribution_scores lvl)"
        using assms Some ps all False nxt pk
        by (auto simp: disseminate_level_def Let_def res_simps)
      show thesis
        by (rule sent [OF Some ps _ _ _ msg, where sc = "if sent_contribution_scores lvl ! k < score (best_contribution lvl)
              then (sent_contribution_scores lvl)[k := score (best_contribution lvl)]
              else sent_contribution_scores lvl"])
          (use assms Some ps all False nxt pk msg k np in \<open>auto simp: disseminate_level_def Let_def\<close>)
    qed
  qed
qed

lemma disseminate_level_inv:
  assumes inv: "handel_inv ops h" and step: "disseminate_level own h lix = Inr h'"
    and lix: "0 < lix" "lix < length (levels h)"
  shows "handel_inv ops h'"
  using step
proof (cases rule: disseminate_level_cases)
  case none
  then show ?thesis using inv by simp
next
  case (sent lvl ps p k sc msg)
  note D = handel_invD [OF inv]
  have "level_ok ops (peer_partitions h) (conf_threshold (conf h)) lix
      (lvl\<lparr>last_contacted_peer_ix := Some k, sent_contribution_scores := sc\<rparr>)"
    using D(6) [OF lix(2) sent(1)] sent(2,3,7) by (simp add: level_ok_def)
  then have "levels_ok ops (peer_partitions h) (conf_threshold (conf h)) ((levels h)[lix :=
      Some (lvl\<lparr>last_contacted_peer_ix := Some k, sent_contribution_scores := sc\<rparr>)])"
    using level_active_prefix [OF D(2) lix(2)] sent(1)
    by (intro levels_ok_update [OF D(2) lix(2)]) auto
  then show ?thesis using inv sent(8) by (simp add: handel_inv_def)
qed

lemma run_dissemination_inv:
  assumes inv: "handel_inv ops h" and step: "run_dissemination h = Inr h'"
  shows "handel_inv ops h'"
proof -
  obtain own where "res_fold (disseminate_level own) h [1 ..< length (levels h)] = Inr h'"
    using step by (auto simp: run_dissemination_def res_simps)
  then have "handel_inv ops h' \<and> length (levels h') = length (levels h)"
  proof (rule res_fold_invariant [rotated -1], goal_cases)
    case 1
    then show ?case using inv by simp
  next
    case (2 g lix g')
    then have "length (levels g') = length (levels g)"
      by (auto elim!: disseminate_level_cases)
    with 2 disseminate_level_inv [of ops g own lix g'] show ?case by simp
  qed
  then show ?thesis ..
qed

lemma poll_cases:
  assumes "poll h dissem activ proc = Inr (h', r)"
  obtains h1 h2 np ob where
    "h1 = h \<or> (\<exists>g n. run_dissemination h = Inr g \<and> h1 = g\<lparr>next_dissemination := n\<rparr>)"
    "h2 = h1 \<or> (\<exists>l g n. next_non_active_level h1 = Some l \<and> try_activate_level h1 l = Inr g
       \<and> h2 = g\<lparr>next_activation := n\<rparr>)"
    "h' = h2\<lparr>next_processing := np, outbox := ob\<rparr>"
    "r = Pending \<or> (\<exists>out. r = ReadyLeft out \<and> outbox h2 = out # ob)
     \<or> (\<exists>c. r = ReadyRight c \<and> outbox h2 = [] \<and> get_complete_aggregate h2 = Inr (Some c))"
    "r \<noteq> Pending \<or> ob = outbox h2"
proof -
  obtain h1 where h1: "(if dissem then res_bind (run_dissemination h) (\<lambda>h'.
               Inr (h'\<lparr>next_dissemination := dissemination_delay (conf h')\<rparr>)) else Inr h) = Inr h1"
    using assms by (auto simp: poll_def res_bind_eq_Inr)
  obtain h2 where h2: "(if activ then (case next_non_active_level h1 of None \<Rightarrow> Inr h1
              | Some lvl \<Rightarrow> res_bind (try_activate_level h1 lvl) (\<lambda>h'.
                  Inr (h'\<lparr>next_activation := level_activation_delay (conf h')\<rparr>)))
        else Inr h1) = Inr h2"
    using assms unfolding poll_def h1 res_bind.simps by (auto simp: res_bind_eq_Inr)
  have rest: "(if next_processing h2 \<noteq> None \<and> \<not> proc then Inr (h2, Pending)
     else (case outbox h2 of
          out # rest \<Rightarrow>
            Inr (h2\<lparr>next_processing := Some base_throttle_duration, outbox := rest\<rparr>, ReadyLeft out)
        | [] \<Rightarrow> res_bind (get_complete_aggregate h2) (\<lambda>ca.
            case ca of Some c \<Rightarrow> Inr (h2\<lparr>next_processing := None\<rparr>, ReadyRight c)
            | None \<Rightarrow> Inr (h2\<lparr>next_processing :=
                       Some (base_throttle_duration * throttle_factor (conf h2))\<rparr>, Pending)))) = Inr (h', r)"
    using assms unfolding poll_def h1 res_bind.simps h2 .
  have "\<exists>np ob. h' = h2\<lparr>next_processing := np, outbox := ob\<rparr> \<and>
    (r = Pending \<or> (\<exists>out. r = ReadyLeft out \<and> outbox h2 = out # ob)
     \<or> (\<exists>c. r = ReadyRight c \<and> outbox h2 = [] \<and> get_complete_aggregate h2 = Inr (Some c))) \<and>
    (r \<noteq> Pending \<or> ob = outbox h2)"
  proof (cases "next_processing h2 \<noteq> None \<and> \<not> proc")
    case True
    then show ?thesis using rest by (auto intro!: exI [of _ "next_processing h2"] exI [of _ "outbox h2"])
  next
    case False
    then show ?thesis
    proof (cases "outbox h2")
      case Nil
      then obtain ca where ca: "get_complete_aggregate h2 = Inr ca"
        using rest False by (auto simp: res_bind_eq_Inr)
      have same: "h2\<lparr>next_processing := np\<rparr> = h2\<lparr>next_processing := np, outbox := []\<rparr>" for np
        using Nil by (cases h2) simp
      obtain np where np: "h' = h2\<lparr>next_processing := np\<rparr>"
        and r: "r = (case ca of None \<Rightarrow> Pending | Some c \<Rightarrow> ReadyRight c)"
        using rest False Nil ca by (cases ca) auto
      show ?thesis
        using trans [OF np same] r ca Nil by (intro exI [of _ np] exI [of _ "[]"]) (cases ca; simp)
    next
      case (Cons out ob)
      have "h' = h2\<lparr>next_processing := Some base_throttle_duration, outbox := ob\<rparr> \<and> r = ReadyLeft out"
        using rest False Cons by (auto split: if_splits)
      then show ?thesis using Cons by blast
    qed
  qed
  moreover have "h1 = h \<or> (\<exists>g n. run_dissemination h = Inr g \<and> h1 = g\<lparr>next_dissemination := n\<rparr>)"
    using h1 by (auto simp: res_bind_eq_Inr split: if_splits)
  moreover have "h2 = h1 \<or> (\<exists>l g n. next_non_active_level h1 = Some l \<and> try_activate_level h1 l = Inr g
       \<and> h2 = g\<lparr>next_activation := n\<rparr>)"
    using h2 by (auto simp: res_bind_eq_Inr split: if_splits option.splits)
  ultimately show thesis using that by blast
qed

lemma poll_inv:
  assumes inv: "handel_inv ops h" and step: "poll h dissem activ proc = Inr (h', r)"
  shows "handel_inv ops h'"
  using step
proof (cases rule: poll_cases)
  case (1 h1 h2 np ob)
  have [simp]: "handel_inv ops (g\<lparr>next_dissemination := n\<rparr>) = handel_inv ops g"
    "handel_inv ops (g\<lparr>next_activation := n\<rparr>) = handel_inv ops g"
    "handel_inv ops (g\<lparr>next_processing := np, outbox := ob\<rparr>) = handel_inv ops g"
    for g :: "('b, 'c, 'a) handel" and n np ob
    by (simp_all add: handel_inv_def)
  from 1(1) have "handel_inv ops h1"
    by (elim disjE exE conjE) (auto simp: inv intro: run_dissemination_inv [OF inv])
  with 1(2) have "handel_inv ops h2"
    by (elim disjE exE conjE) (auto intro: try_activate_level_inv)
  then show ?thesis using 1(3) by simp
qed

section \<open>The invariant along a run\<close>

lemma new_handel_inv:
  assumes "new_handel cf own pp ix = Inr h" "overlay_inv ix pp" "verify ops own"
  shows "handel_inv ops h"
proof -
  let ?s = "\<lparr>score = 1, contribution = own\<rparr>"
  have n: "2 \<le> num_levels pp" using assms(2) by (rule binomial.two_levels)
  have h: "levels h = (replicate (num_levels pp) None)[0 := Some (unit_level ?s), 1 := Some (new_level ?s 1)]"
    "peer_partitions h = pp" "own_peer_ix h = ix" "unverified_contributions h = replicate (num_levels pp) Map.empty"
    using assms(1) n by (auto simp: new_handel_def Let_def)
  obtain p0 p1 where p: "peers_at_level pp 0 VP = Inr p0" "peers_at_level pp 1 VP = Inr p1"
    using binomial.level_peers [OF assms(2), of 0 VP] binomial.level_peers [OF assms(2), of 1 VP] n by auto
  have "p0 = []" "length p1 \<le> 1"
    using binomial.level_zero [OF assms(2) p(1)] binomial.level_size [OF assms(2) p(2)] by simp_all
  then have "level_ok ops pp t 0 (unit_level ?s)" "level_ok ops pp t 1 (new_level ?s 1)" for t
    using level_ok_fresh(1) [OF assms(2) p(1), of ops ?s] level_ok_fresh(2) [OF assms(2) p(2), of ops ?s]
      assms(3) by simp_all
  then have "levels_ok ops pp t (levels h)" for t
    using n by (auto simp: levels_ok_def h nth_list_update split: if_splits)
  then show ?thesis using assms(2) by (auto simp: handel_inv_def h)
qed

lemma handel_step_inv:
  "handel_inv ops h \<Longrightarrow> handel_step ops h e = Inr h' \<Longrightarrow> handel_inv ops h'"
  by (cases e) (auto simp: res_simps intro: inject_message_inv poll_inv)

interpretation round: event_machine "handel_step ops" "handel_inv ops" "\<lambda>e. True" for ops
  by unfold_locales (rule handel_step_inv)

section \<open>What a round has learnt is kept\<close>

definition level_le :: "'c active_level \<Rightarrow> 'c active_level \<Rightarrow> bool" where
  "level_le l l' \<longleftrightarrow>
     score (best_contribution l) \<le> score (best_contribution l') \<and>
     (is_completed l \<longrightarrow> is_completed l' \<and> best_contribution l' = best_contribution l)"

definition handel_le :: "('pid, 'addr, 'c) handel \<Rightarrow> ('pid, 'addr, 'c) handel \<Rightarrow> bool" where
  "handel_le h h' \<longleftrightarrow>
     byzantine_nodes h \<subseteq> byzantine_nodes h' \<and> conf h' = conf h \<and>
     peer_partitions h' = peer_partitions h \<and> own_peer_ix h' = own_peer_ix h \<and>
     length (levels h') = length (levels h) \<and>
     (\<forall>i l. levels h ! i = Some l \<longrightarrow> (\<exists>l'. levels h' ! i = Some l' \<and> level_le l l'))"

lemma level_le_refl [simp]: "level_le l l"
  by (simp add: level_le_def)

lemma handel_le_refl: "handel_le h h"
  by (simp add: handel_le_def)

lemma handel_le_trans: "handel_le h g \<Longrightarrow> handel_le g k \<Longrightarrow> handel_le h k"
proof -
  assume a: "handel_le h g" and b: "handel_le g k"
  have "\<exists>l''. levels k ! i = Some l'' \<and> level_le l l''" if l: "levels h ! i = Some l" for i l
  proof -
    obtain l' where l': "levels g ! i = Some l'" "level_le l l'" using a l unfolding handel_le_def by blast
    then obtain l'' where "levels k ! i = Some l''" "level_le l' l''" using b unfolding handel_le_def by blast
    with l'(2) show ?thesis by (auto simp: level_le_def)
  qed
  with a b show ?thesis unfolding handel_le_def by auto
qed

lemma handel_le_level:
  assumes "levels h ! i = Some l" "level_le l l'" "byzantine_nodes h \<subseteq> byzantine_nodes h'"
    and "levels h' = (levels h)[i := Some l']" "conf h' = conf h"
    "peer_partitions h' = peer_partitions h" "own_peer_ix h' = own_peer_ix h"
  shows "handel_le h h'"
proof -
  have "\<exists>k'. levels h' ! j = Some k' \<and> level_le k k'" if "levels h ! j = Some k" for j k
    using that assms(1,2,4) by (cases "j = i \<and> i < length (levels h)")
      (auto simp: nth_list_update list_update_beyond)
  then show ?thesis using assms by (simp add: handel_le_def)
qed

lemma try_activate_level_le: "try_activate_level h l = Inr h' \<Longrightarrow> handel_le h h'"
  by (drule try_activate_level_frame) (auto simp: handel_le_def)

lemma scoring_loop_byzantine:
  assumes "res_fold (score_one ops factor best) st cs = Inr st'"
  shows "sc_byzantine st \<subseteq> sc_byzantine st'"
  by (rule res_fold_invariant [OF _ _ assms]) (auto elim!: score_one_cases)

lemma verification_loop_le:
  assumes "res_fold (verify_one ops factor) vt scs = Inr vt'"
  shows "v_byzantine vt \<subseteq> v_byzantine vt' \<and> score (v_best vt) \<le> score (v_best vt')"
  by (rule res_fold_invariant [OF _ _ assms]) (auto simp: verify_one_def res_simps split: if_splits)

lemma run_aggregation_le:
  assumes run: "run_aggregation ops h level = Inr h'"
    and open_level: "\<And>lvl. levels h ! level = Some lvl \<Longrightarrow> \<not> is_completed lvl"
  shows "handel_le h h'"
  using run
proof (cases rule: run_aggregation_cases)
  case idle
  then show ?thesis by (simp add: handel_le_refl)
next
  case (run lvl ps uc prio st vt lvl')
  have byz: "byzantine_nodes h \<subseteq> v_byzantine vt" and sc: "score (best_contribution lvl) \<le> score (v_best vt)"
    using scoring_loop_byzantine [OF run(6)] verification_loop_le [OF run(7)] by auto
  have agg: "handel_le h ((aggregated h level l uc vt)\<lparr>outbox := ob\<rparr>)"
    if "best_contribution l = v_best vt" for l ob
    using run(2) byz sc open_level [OF run(2)] that
    by (intro handel_le_level [OF run(2), of l]) (auto simp: aggregated_def level_le_def)
  from run(9) show ?thesis
  proof (elim disjE conjE exE)
    assume "h' = aggregated h level lvl' uc vt"
    then show ?thesis using agg [of lvl' "outbox h'"] run(8) by simp
  next
    fix msgs
    assume "try_activate_level ((aggregated h level (completed lvl') uc vt)\<lparr>outbox := outbox h @ msgs\<rparr>)
      (level + 1) = Inr h'"
    then show ?thesis
      using agg [of "completed lvl'" "outbox h @ msgs"] try_activate_level_le handel_le_trans run(8)
      by (fastforce simp: completed_def)
  qed
qed

lemma inject_message_le: "inject_message ops h pid msg = Inr h' \<Longrightarrow> handel_le h h'"
proof (erule inject_message_cases)
  fix pcl assume "h' = h\<lparr>peers_completed_levels := pcl\<rparr>"
  then show ?thesis by (simp add: handel_le_def)
next
  fix p pcl h1
  assume o: "\<And>lvl. levels h ! msg_level msg = Some lvl \<Longrightarrow> \<not> is_completed lvl"
    and h1: "h1 = h\<lparr>peers_completed_levels := pcl, unverified_contributions :=
         (unverified_contributions h)[msg_level msg := (unverified_contributions h ! msg_level msg)
           (p \<mapsto> \<lparr>sender_id = p, aggregate_contribution = msg_aggregate msg,
                  individual_contribution = msg_individual msg\<rparr>)]\<rparr>"
    and r: "run_aggregation ops h1 (msg_level msg) = Inr h'"
  have "handel_le h h1" by (simp add: h1 handel_le_def)
  moreover have "handel_le h1 h'" using o by (intro run_aggregation_le [OF r]) (simp add: h1)
  ultimately show ?thesis by (rule handel_le_trans)
qed

lemma disseminate_level_le: "disseminate_level own h lix = Inr h' \<Longrightarrow> handel_le h h'"
proof (erule disseminate_level_cases)
  show "h' = h \<Longrightarrow> handel_le h h'" by (simp add: handel_le_refl)
next
  fix lvl k sc msg
  assume "levels h ! lix = Some lvl" "h' = h\<lparr>levels := (levels h)[lix := Some (lvl\<lparr>last_contacted_peer_ix := Some k,
          sent_contribution_scores := sc\<rparr>)], outbox := outbox h @ [msg]\<rparr>"
  then show "handel_le h h'" by (intro handel_le_level) (auto simp: level_le_def)
qed

interpretation dissemination: monotone_machine "disseminate_level own" handel_le for own
  by unfold_locales (auto intro: handel_le_refl handel_le_trans disseminate_level_le)

lemma poll_le: "poll h dissem activ proc = Inr (h', r) \<Longrightarrow> handel_le h h'"
proof (erule poll_cases)
  fix h1 h2 np ob
  assume h1: "h1 = h \<or> (\<exists>g n. run_dissemination h = Inr g \<and> h1 = g\<lparr>next_dissemination := n\<rparr>)"
    and h2: "h2 = h1 \<or> (\<exists>l g n. next_non_active_level h1 = Some l \<and> try_activate_level h1 l = Inr g
       \<and> h2 = g\<lparr>next_activation := n\<rparr>)" and h': "h' = h2\<lparr>next_processing := np, outbox := ob\<rparr>"
  have d: "handel_le h g" if "run_dissemination h = Inr g" for g
    using that dissemination.run_below by (auto simp: run_dissemination_def res_simps)
  have [simp]: "handel_le k (g\<lparr>next_dissemination := n\<rparr>) = handel_le k g"
    "handel_le k (g\<lparr>next_activation := n\<rparr>) = handel_le k g"
    "handel_le k (g\<lparr>next_processing := np, outbox := ob\<rparr>) = handel_le k g"
    for k g :: "('a, 'b, 'c) handel" and n
    by (simp_all add: handel_le_def)
  from h1 have "handel_le h h1" by (elim disjE exE conjE) (simp_all add: handel_le_refl d)
  moreover from h2 have "handel_le h1 h2"
    by (elim disjE exE conjE) (simp_all add: handel_le_refl try_activate_level_le)
  ultimately show ?thesis using handel_le_trans by (simp add: h')
qed

interpretation learning: monotone_machine "handel_step ops" handel_le for ops
proof
  show "handel_step ops s e = Inr s' \<Longrightarrow> handel_le s s'" for s s' e
    by (cases e) (auto simp: res_simps intro: inject_message_le poll_le)
qed (auto intro: handel_le_refl handel_le_trans)

end
