(* ===== verification/Handel_Safety.thy ===== *)
theory Handel_Safety
  imports Handel_Correct
begin

text \<open>
  What a round of Handel guarantees to its users: honest peers are not banned, no run
  panics while its messages name existing levels, the aggregate a round returns is valid
  and heavy enough, and dissemination addresses the right peers. The last section
  states the properties, with their instances on a small round.
\<close>

section \<open>Honest peers are not banned\<close>

text \<open>What is relied on of the contributions: a combination of valid ones is valid.\<close>

definition combine_sound :: "'c contrib_ops \<Rightarrow> bool" where
  "combine_sound ops \<longleftrightarrow>
     (\<forall>a b c. verify ops a \<longrightarrow> verify ops b \<longrightarrow> try_combine ops a b = Some c \<longrightarrow> verify ops c)"

definition valid_pending :: "'c contrib_ops \<Rightarrow> 'c \<Rightarrow> 'c option \<Rightarrow> bool" where
  "valid_pending ops agg ind \<longleftrightarrow> verify ops agg \<and> (\<forall>ic. ind = Some ic \<longrightarrow> verify ops ic)"

definition honest_inv ::
  "'c contrib_ops \<Rightarrow> ('pid, 'addr) binomial_peer_partitions \<Rightarrow> peer_ix
   \<Rightarrow> ('pid, 'addr, 'c) handel \<Rightarrow> bool" where
  "honest_inv ops pp p h \<longleftrightarrow>
     combine_sound ops \<and> handel_inv ops h \<and> peer_partitions h = pp \<and> p \<notin> byzantine_nodes h \<and>
     (\<forall>uc \<in> set (unverified_contributions h). \<forall>c. uc p = Some c \<longrightarrow>
        valid_pending ops (aggregate_contribution c) (individual_contribution c))"

fun honest_event ::
  "'c contrib_ops \<Rightarrow> ('pid, 'addr) binomial_peer_partitions \<Rightarrow> peer_ix
   \<Rightarrow> ('pid, 'c) handel_event \<Rightarrow> bool" where
  "honest_event ops pp p (Inject pid msg) \<longleftrightarrow>
     (try_index_peer pp pid = Some p \<longrightarrow> valid_pending ops (msg_aggregate msg) (msg_individual msg))"
| "honest_event ops pp p (Poll dissem activ proc) \<longleftrightarrow> True"

lemma combine_soundD:
  "combine_sound ops \<Longrightarrow> verify ops a \<Longrightarrow> verify ops b \<Longrightarrow> try_combine ops a b = Some c \<Longrightarrow> verify ops c"
  unfolding combine_sound_def by blast

lemma score_aggregate_valid:
  assumes "combine_sound ops" "verify ops best" "verify ops c" "\<forall>ic \<in> set ics. verify ops ic"
  shows "verify ops (score_aggregate ops best ics c)"
proof (cases "try_combine ops best c")
  case None
  have "verify ops (foldl (\<lambda>acc ic. case try_combine ops acc ic of Some a \<Rightarrow> a | None \<Rightarrow> acc) c ics)"
    using assms(3,4)
  proof (induction ics arbitrary: c)
    case (Cons ic ics)
    have "verify ops (case try_combine ops c ic of Some a \<Rightarrow> a | None \<Rightarrow> c)"
      using Cons.prems combine_soundD [OF assms(1), of c ic] by (cases "try_combine ops c ic") simp_all
    then show ?case using Cons.IH Cons.prems(2) by simp
  qed simp
  then show ?thesis using None by (simp add: score_aggregate_def)
next
  case (Some a)
  then show ?thesis using combine_soundD [OF assms(1,2,3)] by (simp add: score_aggregate_def)
qed

lemma scoring_loop_honest:
  assumes loop: "res_fold (score_one ops factor best)
      \<lparr>sc_individual = ics, sc_byzantine = byz, sc_window = w, sc_scored = []\<rparr> cs = Inr st"
    and sound: "combine_sound ops" "verify ops best" "\<forall>ic \<in> set ics. verify ops ic" "p \<notin> byz"
    and cs: "\<And>c. c \<in> set cs \<Longrightarrow> sender_id c = p
      \<Longrightarrow> valid_pending ops (aggregate_contribution c) (individual_contribution c)"
  shows "p \<notin> sc_byzantine st \<and>
    (\<forall>s \<in> set (sc_scored st). t_sender_id s = p \<longrightarrow> verify ops (t_contribution s))"
proof -
  let ?I = "\<lambda>st. p \<notin> sc_byzantine st \<and> (\<forall>ic \<in> set (sc_individual st). verify ops ic) \<and>
    (\<forall>s \<in> set (sc_scored st). t_sender_id s = p \<longrightarrow> verify ops (t_contribution s))"
  have "?I st"
  proof (rule res_fold_invariant [OF _ _ loop], goal_cases)
    case (2 s c s')
    from 2(3) show ?case
    proof (cases rule: score_one_cases)
      case (ban ic w)
      then have "sender_id c \<noteq> p" using cs [OF 2(2)] by (auto simp: valid_pending_def)
      then show ?thesis using ban(4) 2(1) by auto
    next
      case (score ics' aggr)
      have ics: "\<forall>ic \<in> set ics'. verify ops ic" using score(1) 2(1) by auto
      have "verify ops aggr" if "sender_id c = p"
        using cs [OF 2(2) that] score_aggregate_valid [OF sound(1,2) _ ics] score(2)
        by (simp add: valid_pending_def)
      then show ?thesis
        using score(3) ics 2(1) set_scored_insert
          [of "\<lparr>t_score = weight ops aggr, t_sender_id = sender_id c, t_contribution = aggr\<rparr>" "sc_scored s"]
        by auto
    qed
  qed (use sound in auto)
  then show ?thesis by blast
qed

lemma verification_loop_honest:
  assumes "res_fold (verify_one ops factor) vt scs = Inr vt'" "p \<notin> v_byzantine vt"
    and "\<forall>s \<in> set scs. t_sender_id s = p \<longrightarrow> verify ops (t_contribution s)"
  shows "p \<notin> v_byzantine vt'"
  by (rule res_fold_invariant [OF _ _ assms(1)])
    (use assms(2,3) in \<open>auto simp: verify_one_def res_simps split: if_splits\<close>)

lemma try_activate_level_fields:
  assumes "try_activate_level h l = Inr h'"
  shows "byzantine_nodes h' = byzantine_nodes h" "peer_partitions h' = peer_partitions h"
    "unverified_contributions h' = unverified_contributions h"
  using try_activate_level_frame [OF assms] by auto

lemma run_aggregation_honest:
  assumes inv: "honest_inv ops pp p h" and run: "run_aggregation ops h level = Inr h'"
    and open_level: "\<And>lvl. levels h ! level = Some lvl \<Longrightarrow> \<not> is_completed lvl"
  shows "honest_inv ops pp p h'"
  using run
proof (cases rule: run_aggregation_cases)
  case idle
  then show ?thesis using inv by simp
next
  case (run lvl ps uc prio st vt lvl')
  have h: "combine_sound ops" "handel_inv ops h" "peer_partitions h = pp" "p \<notin> byzantine_nodes h"
    and pend: "\<And>uc c. uc \<in> set (unverified_contributions h) \<Longrightarrow> uc p = Some c
      \<Longrightarrow> valid_pending ops (aggregate_contribution c) (individual_contribution c)"
    using inv by (auto simp: honest_inv_def)
  note D = handel_invD [OF h(2)]
  have ok: "level_ok ops (peer_partitions h) (conf_threshold (conf h)) level lvl"
    using D(6) run(1,2) by blast
  note pr = prioritize_takes [OF run(5)]
  have uv: "unverified_contributions h ! level \<in> set (unverified_contributions h)" using run(3) by simp
  have "p \<notin> sc_byzantine st \<and>
    (\<forall>s \<in> set (sc_scored st). t_sender_id s = p \<longrightarrow> verify ops (t_contribution s))"
  proof (rule scoring_loop_honest [OF run(6) h(1) _ _ h(4)], goal_cases)
    case (3 c)
    then obtain q where "(unverified_contributions h ! level) q = Some c"
      using pr ok by (auto simp: level_ok_def ran_def)
    moreover have "q = p" using D(8) [OF uv calculation] 3(2) by simp
    ultimately show ?case using pend [OF uv] by simp
  qed (use ok in \<open>auto simp: level_ok_def\<close>)
  then have byz: "p \<notin> v_byzantine vt" using verification_loop_honest [OF run(7), of p] by simp
  have "valid_pending ops (aggregate_contribution c) (individual_contribution c)"
    if "uc' \<in> set ((unverified_contributions h)[level := uc])" "uc' p = Some c" for uc' c
  proof -
    have "uc' = uc \<or> uc' \<in> set (unverified_contributions h)"
      using that(1) by (rule in_set_updateD)
    moreover have "uc p = Some c \<Longrightarrow> (unverified_contributions h ! level) p = Some c"
      using pr by (auto simp: map_le_def dom_def)
    ultimately show ?thesis using pend uv that(2) by blast
  qed
  moreover have "byzantine_nodes h' = v_byzantine vt \<and> peer_partitions h' = peer_partitions h \<and>
      unverified_contributions h' = (unverified_contributions h)[level := uc]"
    using run(9) by (elim disjE conjE exE) (auto dest: try_activate_level_fields simp: aggregated_def)
  moreover have "handel_inv ops h'"
    by (rule run_aggregation_inv [OF h(2) \<open>run_aggregation ops h level = Inr h'\<close>]) (rule open_level)
  ultimately show ?thesis using h byz by (simp add: honest_inv_def)
qed

lemma inject_message_honest:
  assumes inv: "honest_inv ops pp p h" and ev: "honest_event ops pp p (Inject pid msg)"
    and step: "inject_message ops h pid msg = Inr h'"
  shows "honest_inv ops pp p h'"
  using step
proof (cases rule: inject_message_cases)
  case (refused pcl)
  moreover have "handel_inv ops h = handel_inv ops h'" by (simp add: refused handel_inv_def)
  ultimately show ?thesis using inv by (simp add: honest_inv_def)
next
  case (taken q pcl h1)
  have pp: "peer_partitions h = pp"
    and pend: "\<And>uc c. uc \<in> set (unverified_contributions h) \<Longrightarrow> uc p = Some c
      \<Longrightarrow> valid_pending ops (aggregate_contribution c) (individual_contribution c)"
    using inv by (simp_all add: honest_inv_def)
  let ?u = "(unverified_contributions h ! msg_level msg)(q \<mapsto> \<lparr>sender_id = q,
    aggregate_contribution = msg_aggregate msg, individual_contribution = msg_individual msg\<rparr>)"
  have "valid_pending ops (aggregate_contribution c) (individual_contribution c)"
    if "uc \<in> set ((unverified_contributions h)[msg_level msg := ?u])" "uc p = Some c" for uc c
  proof -
    have "uc = ?u \<or> uc \<in> set (unverified_contributions h)"
      using that(1) by (rule in_set_updateD)
    then show ?thesis
      using that(2) pend ev taken(1) nth_mem [OF taken(3)] pp by (cases "q = p") auto
  qed
  moreover have "handel_inv ops h1"
    by (rule deposit_inv [OF _ taken(3,6)]) (use inv in \<open>simp_all add: honest_inv_def\<close>)
  ultimately have "honest_inv ops pp p h1" using inv by (simp add: honest_inv_def taken(6))
  then show ?thesis
    by (rule run_aggregation_honest [OF _ taken(7)]) (use taken(5,6) in auto)
qed

lemma disseminate_level_fields:
  assumes "disseminate_level own h l = Inr h'"
  shows "byzantine_nodes h' = byzantine_nodes h \<and> peer_partitions h' = peer_partitions h \<and>
    unverified_contributions h' = unverified_contributions h"
  using assms by (rule disseminate_level_cases) simp_all

lemma run_dissemination_fields:
  assumes "run_dissemination h = Inr h'"
  shows "byzantine_nodes h' = byzantine_nodes h \<and> peer_partitions h' = peer_partitions h \<and>
    unverified_contributions h' = unverified_contributions h"
proof -
  obtain own where "res_fold (disseminate_level own) h [1 ..< length (levels h)] = Inr h'"
    using assms by (auto simp: run_dissemination_def res_simps)
  then show ?thesis
    by (rule res_fold_invariant [rotated -1]) (simp_all add: disseminate_level_fields)
qed

lemma poll_fields:
  assumes "poll h dissem activ proc = Inr (h', r)"
  shows "byzantine_nodes h' = byzantine_nodes h \<and> peer_partitions h' = peer_partitions h \<and>
    unverified_contributions h' = unverified_contributions h"
  using assms
proof (cases rule: poll_cases)
  case (1 h1 h2 np ob)
  from 1(1) have "byzantine_nodes h1 = byzantine_nodes h \<and> peer_partitions h1 = peer_partitions h \<and>
    unverified_contributions h1 = unverified_contributions h"
    by (elim disjE exE conjE) (auto dest: run_dissemination_fields)
  moreover from 1(2) have "byzantine_nodes h2 = byzantine_nodes h1 \<and> peer_partitions h2 = peer_partitions h1 \<and>
    unverified_contributions h2 = unverified_contributions h1"
    by (elim disjE exE conjE) (auto dest: try_activate_level_fields)
  ultimately show ?thesis using 1(3) by simp
qed

interpretation honest_run: event_machine "handel_step ops" "honest_inv ops pp p" "honest_event ops pp p"
  for ops pp p
proof
  fix s e s'
  assume inv: "honest_inv ops pp p s" and e: "honest_event ops pp p e" and step: "handel_step ops s e = Inr s'"
  show "honest_inv ops pp p s'"
  proof (cases e)
    case (Inject pid msg)
    then show ?thesis using inject_message_honest [OF inv] e step by simp
  next
    case (Poll dissem activ proc)
    then obtain r where "poll s dissem activ proc = Inr (s', r)"
      using step by (auto simp: res_simps)
    from poll_fields [OF this] poll_inv [OF _ this, of ops] show ?thesis
      using inv by (simp add: honest_inv_def)
  qed
qed

section \<open>Absence of panics\<close>

definition ready_inv :: "'c contrib_ops \<Rightarrow> nat \<Rightarrow> ('pid, 'addr, 'c) handel \<Rightarrow> bool" where
  "ready_inv ops n h \<longleftrightarrow>
     handel_inv ops h \<and> num_levels (peer_partitions h) = n \<and>
     window_shrinking_factor (conf h) \<noteq> 0 \<and> denom (conf_threshold (conf h)) \<noteq> 0 \<and>
     2 ^ (n - 1) \<le> usize_max \<and> 2 ^ (n - 1) * num (conf_threshold (conf h)) \<le> usize_max \<and>
     peers_at_level (peer_partitions h) 1 VP \<noteq> Inr []"

fun level_in_range :: "nat \<Rightarrow> ('pid, 'c) handel_event \<Rightarrow> bool" where
  "level_in_range n (Inject pid msg) \<longleftrightarrow> msg_level msg < n"
| "level_in_range n (Poll dissem activ proc) \<longleftrightarrow> True"

lemma shrink_window_total: "factor \<noteq> 0 \<Longrightarrow> \<exists>w'. shrink_window w factor = Inr w'"
  by (simp add: shrink_window_def checked_div_def)

lemma score_one_total: "factor \<noteq> 0 \<Longrightarrow> \<exists>st'. score_one ops factor best st c = Inr st'"
  using shrink_window_total [of factor "sc_window st"]
  by (auto simp: score_one_def Let_def split: option.splits)

lemma verify_one_total: "factor \<noteq> 0 \<Longrightarrow> \<exists>st'. verify_one ops factor st sc = Inr st'"
  using shrink_window_total [of factor "v_window st"] by (auto simp: verify_one_def)

lemma is_complete_total:
  assumes "denom t \<noteq> 0" "2 ^ (n - 1) \<le> usize_max" "2 ^ (n - 1) * num t \<le> usize_max" "l < n"
  shows "\<exists>b. is_complete ops c l t = Inr b"
proof -
  have "(2::nat) ^ l \<le> 2 ^ (n - 1)" using assms(4) by (intro power_increasing) auto
  then have "2 ^ l \<le> usize_max" "2 ^ l * num t \<le> usize_max"
    using assms(2,3) by (meson le_trans mult_le_mono1)+
  then show ?thesis
    using assms(1) by (simp add: is_complete_def threshold_min_def checked_usize_def checked_div_def)
qed

lemma make_message_total:
  assumes "overlay_inv own pp" "peers_at_level pp l ord = Inr ps" "p \<in> set ps"
  shows "\<exists>msg. make_message pp k i a c p = Inr msg"
  using binomial.level_identify [OF assms] by (auto simp: make_message_def)

lemma fast_path_nodes_total:
  assumes "ps \<noteq> []"
  obtains ns where "fast_path_nodes h l off ps = Inr ns" "distinct ns"
    "\<And>p. p \<in> set ns \<Longrightarrow> p \<in> set ps \<and> \<not> has_completed (peers_completed_levels h) p (l mod 2 ^ 32)"
proof -
  let ?ixs = "map (\<lambda>ix. (ix + off) mod length ps) [0 ..< fast_path_window (conf h)]"
  have "res_mapM (\<lambda>ix. checked_rem (ix + off) (length ps)) [0 ..< fast_path_window (conf h)] = Inr ?ixs"
    using assms by (intro res_mapM_Inr) (simp add: checked_rem_def)
  then have "fast_path_nodes h l off ps = Inr (dedup (sort
      (filter (\<lambda>p. \<not> has_completed (peers_completed_levels h) p (l mod 2 ^ 32)) (map ((!) ps) ?ixs))))"
    by (simp add: fast_path_nodes_def)
  moreover have "ps ! i \<in> set ps" if "i \<in> set ?ixs" for i using that assms by auto
  ultimately show thesis using sorted_dedup_distinct [OF sorted_sort] by (intro that) auto
qed

lemma run_fast_path_total:
  assumes inv: "handel_inv ops h" and l: "l < length (levels h)" and ne: "peers_at_level (peer_partitions h) l CVP \<noteq> Inr []"
    and c: "\<And>lvl. levels h ! l = Some lvl \<Longrightarrow> is_completed lvl"
  shows "\<exists>h'. run_fast_path h l = Inr h'"
proof (cases "levels h ! l")
  case None
  then show ?thesis using l by (cases "levels h") (auto simp: run_fast_path_def index_def Let_def)
next
  case (Some lvl)
  note D = handel_invD [OF inv]
  obtain ps where ps: "peers_at_level (peer_partitions h) l CVP = Inr ps" "ps \<noteq> []"
    using binomial.level_peers [OF D(1), of l CVP] l D(3) ne by auto
  let ?off = "case last_contacted_peer_ix lvl of None \<Rightarrow> 0 | Some x \<Rightarrow> x + 1"
  obtain ns where ns: "fast_path_nodes h l ?off ps = Inr ns" and "set ns \<subseteq> set ps"
    using fast_path_nodes_total [OF ps(2)] by (metis subsetI)
  then have "\<exists>ms. res_mapM (\<lambda>p. make_message (peer_partitions h) l (i p) a k p) ns = Inr ms" for i a k
    by (meson res_mapM_no_panic make_message_total [OF D(1) ps(1)] subsetD)
  then show ?thesis
    using l ps ns Some c [OF Some] by (fastforce simp: run_fast_path_def Let_def index_def res_simps)
qed

lemma try_activate_level_total:
  "handel_inv ops h \<Longrightarrow> \<exists>h'. try_activate_level h l = Inr h'"
proof (induction h l rule: try_activate_level.induct)
  case (1 h l)
  note D = handel_invD [OF 1(2)]
  show ?case
  proof (cases "length (levels h) \<le> l \<or> is_active h l")
    case True
    then show ?thesis by (simp add: try_activate_level.simps)
  next
    case False
    then have l: "l < length (levels h)" "0 < l"
      using D(7) by (simp, cases "l = 0") (auto simp: is_active_def get_def)
    then have sub: "checked_sub l 1 = Inr (l - 1)" "l - 1 < length (levels h)"
      by (simp_all add: checked_sub_def)
    obtain ps where ps: "peers_at_level (peer_partitions h) l VP = Inr ps"
      using binomial.level_peers [OF D(1), of l VP] l D(3) by auto
    show ?thesis
    proof (cases "levels h ! (l - 1)")
      case None
      then show ?thesis using False sub by (subst try_activate_level.simps) simp
    next
      case (Some q)
      let ?h = "h\<lparr>levels := (levels h)[l := Some (unit_level (best_contribution q))]\<rparr>"
      have "\<exists>h'. try_activate_level ?h (l + 1) = Inr h'" if "ps = []"
        by (rule 1(1) [OF False ps that]) (use activation_step_inv [OF 1(2) l Some ps refl] that in simp)
      then show ?thesis using False sub Some ps by (subst try_activate_level.simps) auto
    qed
  qed
qed

lemma run_aggregation_total:
  assumes inv: "ready_inv ops n h" and l: "level < n"
    and open_level: "\<And>lvl. levels h ! level = Some lvl \<Longrightarrow> \<not> is_completed lvl"
  shows "\<exists>h'. run_aggregation ops h level = Inr h'"
proof (cases "levels h ! level = None \<or> unverified_contributions h ! level = Map.empty")
  case True
  moreover have "index (levels h) level = Inr (levels h ! level)"
    "index (unverified_contributions h) level = Inr (unverified_contributions h ! level)"
    using l inv handel_invD(3,4) [of ops h] by (simp_all add: ready_inv_def)
  ultimately show ?thesis by (auto simp: run_aggregation_def split: option.splits)
next
  case False
  then obtain lvl where lvl: "levels h ! level = Some lvl" by auto
  have h: "handel_inv ops h" "window_shrinking_factor (conf h) \<noteq> 0" and n: "num_levels (peer_partitions h) = n"
    using inv by (auto simp: ready_inv_def)
  note D = handel_invD [OF h(1)]
  have lt: "level < length (levels h)" "level < length (unverified_contributions h)" using D(3,4) n l by auto
  obtain ps where ps: "peers_at_level (peer_partitions h) level VP = Inr ps"
    using binomial.level_peers [OF D(1), of level VP] l n by auto
  obtain uc prio where pr: "prioritize ps (scoring_window h) (unverified_contributions h ! level)
       (prioritized_contributions lvl) = (uc, prio)" by fastforce
  obtain st where st: "res_fold (score_one ops (window_shrinking_factor (conf h)) (contribution (best_contribution lvl)))
         \<lparr>sc_individual = individual_contributions lvl, sc_byzantine = byzantine_nodes h,
          sc_window = scoring_window h, sc_scored = []\<rparr> (rev prio) = Inr st"
    using res_fold_total score_one_total [OF h(2)] by metis
  obtain vt where vt: "res_fold (verify_one ops (window_shrinking_factor (conf h)))
         \<lparr>v_best = best_contribution lvl, v_byzantine = sc_byzantine st, v_window = sc_window st\<rparr>
         (sc_scored st) = Inr vt"
    using res_fold_total verify_one_total [OF h(2)] by metis
  obtain b where b: "is_complete ops (contribution (v_best vt)) level (conf_threshold (conf h)) = Inr b"
    using is_complete_total [of "conf_threshold (conf h)" n level] inv l unfolding ready_inv_def by metis
  define lvl' where "lvl' = lvl\<lparr>prioritized_contributions := [], individual_contributions := sc_individual st,
                  best_contribution := v_best vt\<rparr>"
  define h1 where "h1 = aggregated h level (completed lvl') uc vt"
  have eq: "run_aggregation ops h level = (if b then res_bind (run_fast_path h1 level)
      (\<lambda>h''. try_activate_level h'' (level + 1)) else Inr (aggregated h level lvl' uc vt))"
    using False
    by (simp add: run_aggregation_def lt lvl ps pr st vt b Let_def h1_def lvl'_def aggregated_def)
  show ?thesis
  proof (cases b)
    case True
    have inv1: "handel_inv ops h1"
      unfolding h1_def using b True
      by (intro aggregated_inv(2) [OF h(1) lt(1) lvl lt(2) open_level [OF lvl] pr st vt lvl'_def]) simp
    have ne: "peers_at_level (peer_partitions h) level CVP \<noteq> Inr []"
      using D(6) [OF lt(1) lvl] open_level [OF lvl] inv binomial.level_orders [OF D(1) ps, of CVP] ps
      by (auto simp: level_ok_def ready_inv_def)
    obtain h2 where h2: "run_fast_path h1 level = Inr h2"
      using run_fast_path_total [OF inv1, of level] ne lt(1)
      by (auto simp: h1_def aggregated_def completed_def)
    then obtain msgs where "h2 = h1\<lparr>outbox := outbox h1 @ msgs\<rparr>" by (rule run_fast_path_frame)
    then have "handel_inv ops h2" using inv1 by (simp add: handel_inv_def)
    then show ?thesis using try_activate_level_total eq True h2 by simp
  qed (simp add: eq)
qed

lemma inject_message_total:
  assumes inv: "ready_inv ops n h" and l: "msg_level msg < n"
  shows "\<exists>h'. inject_message ops h pid msg = Inr h'"
proof -
  have h: "handel_inv ops h" and n: "num_levels (peer_partitions h) = n"
    using inv by (auto simp: ready_inv_def)
  note D = handel_invD [OF h]
  have ix: "index (levels h) (msg_level msg) = Inr (levels h ! msg_level msg)"
    "index (unverified_contributions h) (msg_level msg) = Inr (unverified_contributions h ! msg_level msg)"
    using D(3,4) n l by auto
  have "\<exists>r. handle_contribution h pid (msg_level msg) (contact_sender msg)
      (msg_aggregate msg) (msg_individual msg) = Inr r"
  proof (cases "try_index_peer (peer_partitions h) pid")
    case None
    then show ?thesis by (auto simp: handle_contribution_def)
  next
    case (Some p)
    obtain pcl where "mark_completed h (contact_sender msg) p (msg_level msg) = h\<lparr>peers_completed_levels := pcl\<rparr>"
      by (rule mark_completed_frame)
    then show ?thesis using Some ix by (auto simp: handle_contribution_def Let_def)
  qed
  then obtain h1 ok where hc: "handle_contribution h pid (msg_level msg) (contact_sender msg)
      (msg_aggregate msg) (msg_individual msg) = Inr (h1, ok)" by auto
  from hc show ?thesis
  proof (cases rule: handle_contribution_cases)
    case (taken p pcl)
    have "handel_inv ops h1" by (rule deposit_inv [OF h taken(3,7)]) simp
    then have "ready_inv ops n h1" using inv taken(7) by (simp add: ready_inv_def)
    then obtain h' where "run_aggregation ops h1 (msg_level msg) = Inr h'"
      using run_aggregation_total [OF _ l] taken(6,7) by fastforce
    then show ?thesis using hc taken(4) by (simp add: inject_message_def)
  qed (simp_all add: inject_message_def hc)
qed

lemma all_peers_completed_total: "own \<notin> set ps \<Longrightarrow> \<exists>b. all_peers_completed pcl own l ps = Inr b"
  by (induction ps) auto

lemma disseminate_level_total:
  assumes inv: "handel_inv ops h" and lix: "lix < length (levels h)"
  shows "\<exists>h'. disseminate_level own h lix = Inr h'"
proof (cases "levels h ! lix")
  case None
  then show ?thesis by (simp add: disseminate_level_def)
next
  case (Some lvl)
  note D = handel_invD [OF inv]
  obtain ps where ps: "peers_at_level (peer_partitions h) lix CVP = Inr ps" "own_peer_ix h \<notin> set ps"
    using binomial.level_peers [OF D(1), of lix CVP] lix D(3) by auto
  have ok: "length ps \<le> length (sent_contribution_scores lvl)"
    "\<And>k. last_contacted_peer_ix lvl = Some k \<Longrightarrow> k < length ps"
    using D(6) [OF lix Some] ps(1) by (auto simp: level_ok_def)
  let ?dn = "\<lambda>p. has_completed (peers_completed_levels h) p (lix mod 2 ^ 32)"
  obtain all where all: "all_peers_completed (peers_completed_levels h) (own_peer_ix h) (lix mod 2 ^ 32) ps = Inr all"
    using all_peers_completed_total [OF ps(2)] by blast
  show ?thesis
  proof (cases "all \<or> next_peer ?dn ps (last_contacted_peer_ix lvl) = Inr None")
    case True
    then show ?thesis using Some ps all by (auto simp: disseminate_level_def Let_def)
  next
    case False
    then have "ps \<noteq> []" using all by auto
    then obtain p k where nxt: "next_peer ?dn ps (last_contacted_peer_ix lvl) = Inr (Some (p, k))"
      using next_peer_total [of ps "last_contacted_peer_ix lvl" ?dn] ok(2) False
      by (metis not_None_eq surj_pair)
    have k: "k < length ps" "p \<in> set ps" using next_peer_Some [OF nxt] by auto
    obtain msg where "make_message (peer_partitions h) lix (if p \<in> own_contribution_recvs h then None else Some own)
        (contribution (best_contribution lvl)) (\<not> is_completed lvl) p = Inr msg"
      by (meson make_message_total [OF D(1) ps(1) k(2)])
    then show ?thesis using Some ps all False nxt k(1) ok(1) by (simp add: disseminate_level_def Let_def)
  qed
qed

lemma run_dissemination_total:
  assumes inv: "handel_inv ops h"
  shows "\<exists>h'. run_dissemination h = Inr h'"
proof -
  note D = handel_invD [OF inv]
  have ne: "0 < length (levels h)" using D(3,5) by linarith
  moreover obtain l0 where "levels h ! 0 = Some l0" using D(7) by blast
  ultimately have own: "get_own_contribution h = Inr (contribution (best_contribution l0))"
    by (simp add: get_own_contribution_def)
  let ?I = "\<lambda>g. handel_inv ops g \<and> length (levels g) = length (levels h)"
  let ?own = "contribution (best_contribution l0)"
  have "\<exists>t. res_fold (disseminate_level ?own) h [1 ..< length (levels h)] = Inr t \<and> ?I t"
  proof (rule res_fold_total_inv, goal_cases)
    case (2 g lix)
    then have lix: "0 < lix" "lix < length (levels g)" by auto
    then obtain g' where g': "disseminate_level ?own g lix = Inr g'"
      using disseminate_level_total [of ops g lix ?own] 2(1) by blast
    moreover have "handel_inv ops g'" using disseminate_level_inv [OF _ g' lix] 2(1) by blast
    moreover have "length (levels g') = length (levels g)"
      using disseminate_level_le [OF g'] by (simp add: handel_le_def)
    ultimately show ?case using 2(1) by simp
  qed (use inv in simp)
  then show ?thesis using own by (auto simp: run_dissemination_def)
qed

lemma poll_total:
  assumes inv: "handel_inv ops h"
  shows "\<exists>h' r. poll h dissem activ proc = Inr (h', r)"
proof -
  have [simp]: "handel_inv ops (g\<lparr>next_dissemination := n\<rparr>) = handel_inv ops g"
    "handel_inv ops (g\<lparr>next_activation := n\<rparr>) = handel_inv ops g"
    for g :: "('b, 'c, 'a) handel" and n by (simp_all add: handel_inv_def)
  obtain h1 where h1: "(if dissem then res_bind (run_dissemination h) (\<lambda>h'.
               Inr (h'\<lparr>next_dissemination := dissemination_delay (conf h')\<rparr>)) else Inr h) = Inr h1"
    and inv1: "handel_inv ops h1"
  proof (cases dissem)
    case True
    obtain g where "run_dissemination h = Inr g" using run_dissemination_total [OF inv] ..
    then show thesis using True that run_dissemination_inv [OF inv] by simp
  next
    case False
    then show thesis using that inv by simp
  qed
  obtain h2 where h2: "(if activ then (case next_non_active_level h1 of None \<Rightarrow> Inr h1
              | Some lvl \<Rightarrow> res_bind (try_activate_level h1 lvl) (\<lambda>h'.
                  Inr (h'\<lparr>next_activation := level_activation_delay (conf h')\<rparr>))) else Inr h1) = Inr h2"
    and inv2: "handel_inv ops h2"
  proof (cases "activ \<and> next_non_active_level h1 \<noteq> None")
    case True
    then obtain l g where "next_non_active_level h1 = Some l" "try_activate_level h1 l = Inr g"
      using try_activate_level_total [OF inv1] by blast
    then show thesis using True that try_activate_level_inv [OF _ inv1, of l g] by simp
  next
    case False
    then show thesis using that inv1 by auto
  qed
  have "length (levels h2) - 1 < length (levels h2)" "1 \<le> length (levels h2)"
    using handel_invD(3,5) [OF inv2] by linarith+
  then obtain ca where ca: "get_complete_aggregate h2 = Inr ca"
    by (simp add: get_complete_aggregate_def checked_sub_def)
  show ?thesis
    unfolding poll_def h1 res_bind.simps h2 ca
    by (cases "next_processing h2 \<noteq> None \<and> \<not> proc"; cases "outbox h2"; cases ca) auto
qed

interpretation live_round: total_event_machine "handel_step ops" "ready_inv ops n" "level_in_range n"
  for ops n
proof
  show "ready_inv ops n s'" if "ready_inv ops n s" "handel_step ops s e = Inr s'" for s e s'
    using that handel_step_inv [of ops s e s'] learning.step_below [OF that(2)]
    by (auto simp: ready_inv_def handel_le_def)
  show "\<exists>s'. handel_step ops s e = Inr s'" if "ready_inv ops n s" "level_in_range n e" for s e
  proof (cases e)
    case (Inject pid msg)
    then show ?thesis using that inject_message_total [OF that(1)] by simp
  next
    case (Poll dissem activ proc)
    moreover have "handel_inv ops s" using that(1) by (simp add: ready_inv_def)
    ultimately show ?thesis using poll_total [of ops s dissem activ proc] by auto
  qed
qed

section \<open>A small round\<close>

text \<open>
  Two peers whose contributions are weights. The instance evaluates the definitions
  on concrete messages.
\<close>

definition demo_ops :: "nat contrib_ops" where
  "demo_ops = \<lparr>try_combine = (\<lambda>a b. Some (a + b)), weight = (\<lambda>c. c), verify = (\<lambda>c. 0 < c)\<rparr>"

definition demo_conf :: handel_config where
  "demo_conf = \<lparr>conf_threshold = \<lparr>num = 1, denom = 1\<rparr>, window_shrinking_factor = 2,
     initial_scoring_window = 4, fast_path_window = 1, dissemination_delay = 10,
     level_activation_delay = 10, throttle_factor = 1\<rparr>"

definition demo_overlay :: "(nat, unit) binomial_peer_partitions" where
  "demo_overlay = \<lparr>bp_peers = [0, 1], bp_peer_index = [0 \<mapsto> 0, 1 \<mapsto> 1],
     bp_partitions_by_vp = [[], [1]], bp_partitions_by_cvp = [[], [1]], bp_addr_book = Map.empty\<rparr>"

definition demo_round :: "(nat, unit, nat) handel" where
  "demo_round = \<lparr>conf = demo_conf, scoring_window = 4,
     unverified_contributions = [Map.empty, Map.empty], peer_partitions = demo_overlay,
     levels = [Some (unit_level \<lparr>score = 1, contribution = 1\<rparr>), Some (new_level \<lparr>score = 1, contribution = 1\<rparr> 1)],
     byzantine_nodes = {}, own_contribution_recvs = {}, outbox = [], own_peer_ix = 0,
     peers_completed_levels = Map.empty, next_processing = None,
     next_dissemination = 10, next_activation = 10\<rparr>"

definition demo_message :: "nat \<Rightarrow> nat handel_message" where
  "demo_message c = \<lparr>msg_level = 1, msg_individual = None, msg_aggregate = c, contact_sender = False\<rparr>"

lemma demo_overlay_inv: "overlay_inv 0 demo_overlay"
proof -
  have lb: "level_block 0 l = (if l = 0 then [] else [1])" if "l \<le> 1" for l
    using that by (cases l) (auto simp: level_block_def sibling_def Let_def)
  have "overlay_ok {0, 1} 0 1 demo_overlay"
    unfolding overlay_ok_def
    by (auto simp: demo_overlay_def lb le_Suc_eq less_Suc_eq numeral_2_eq_2 nth_Cons')
  then show ?thesis unfolding overlay_inv_def by (auto simp: demo_overlay_def)
qed

text \<open>Three peers padded to four, where the padding falls on the first level of peer 0.\<close>

definition padded_overlay :: "(nat, unit) binomial_peer_partitions" where
  "padded_overlay = \<lparr>bp_peers = [0, 100, 1, 2], bp_peer_index = [0 \<mapsto> 0, 100 \<mapsto> 1, 1 \<mapsto> 2, 2 \<mapsto> 3],
     bp_partitions_by_vp = [[], [], [2, 3]], bp_partitions_by_cvp = [[], [], [2, 3]],
     bp_addr_book = Map.empty\<rparr>"

definition padded_conf :: handel_config where
  "padded_conf = demo_conf\<lparr>conf_threshold := \<lparr>num = 2, denom = 3\<rparr>\<rparr>"

lemma padded_overlay_inv: "overlay_inv 0 padded_overlay"
proof -
  have lb: "level_block 0 0 = []" "level_block 0 1 = [1]" "level_block 0 2 = [2, 3]"
    by (simp_all add: level_block_def sibling_def Let_def upt_rec)
  have l: "l = 0 \<or> l = 1 \<or> l = 2" if "l \<le> 2" for l :: nat using that by auto
  have ix: "bp_peer_index padded_overlay pid = Some i \<longleftrightarrow> i < 2 ^ 2 \<and> bp_peers padded_overlay ! i = pid" for pid i
    by (auto simp: padded_overlay_def less_Suc_eq numeral_eq_Suc nth_Cons')
  have lv: "distinct (bp_partitions_by_vp padded_overlay ! l)" "distinct (bp_partitions_by_cvp padded_overlay ! l)"
     "set (bp_partitions_by_vp padded_overlay ! l) = {j \<in> set (level_block 0 l). bp_peers padded_overlay ! j \<in> {0, 1, 2}}"
     "set (bp_partitions_by_cvp padded_overlay ! l) = {j \<in> set (level_block 0 l). bp_peers padded_overlay ! j \<in> {0, 1, 2}}"
    if "l \<le> 2" for l
    using l [OF that] lb by (auto simp: padded_overlay_def)
  have "overlay_ok {0, 1, 2} 0 2 padded_overlay"
    unfolding overlay_ok_def ix using lv by (auto simp: padded_overlay_def nth_Cons' split: if_splits)
  moreover have "bp_peer_index padded_overlay 0 = Some 0" by (simp add: padded_overlay_def)
  ultimately show ?thesis unfolding overlay_inv_def by blast
qed

lemma demo_round_new: "new_handel demo_conf 1 demo_overlay 0 = Inr demo_round"
  by (simp add: new_handel_def demo_round_def demo_conf_def demo_overlay_def num_levels_def
      numeral_2_eq_2 Let_def)

lemmas demo_defs = demo_ops_def demo_conf_def demo_overlay_def demo_round_def demo_message_def

lemmas handel_eval = inject_message_def handle_contribution_def mark_completed_def run_aggregation_def
  is_complete_def threshold_min_def run_fast_path_def fast_path_nodes_def try_index_peer_def
  peers_at_level_def index_def checked_usize_def checked_div_def checked_rem_def checked_sub_def usize_max_def score_one_def
  score_aggregate_def verify_one_def completed_def try_activate_level.simps has_completed_def
  new_level_def unit_level_def saturating_mul_def shrink_window_def make_message_def identify_peer_def
  num_levels_def is_active_def get_def poll_def get_complete_aggregate_def

lemma demo_round_complete:
  "\<exists>h h'. inject_message demo_ops demo_round 1 (demo_message 1) = Inr h \<and>
     poll h False False True = Inr (h', ReadyRight 2)"
  by (simp add: demo_defs handel_eval)

section \<open>Messages of the dissemination\<close>

text \<open>What a message sent for a level is: the level's best contribution, to one of its peers.\<close>

definition sent_for ::
  "'c contrib_ops \<Rightarrow> ('pid, 'addr, 'c) handel \<Rightarrow> nat \<Rightarrow> ('pid, 'addr, 'c) send_one_shot \<Rightarrow> bool" where
  "sent_for ops h l m \<longleftrightarrow>
     (\<exists>lvl ps p. levels h ! l = Some lvl \<and> peers_at_level (peer_partitions h) l CVP = Inr ps \<and>
        p \<in> set ps \<and> p \<noteq> own_peer_ix h \<and> identify_peer (peer_partitions h) p = Inr (out_peer m) \<and>
        \<not> has_completed (peers_completed_levels h) p (l mod 2 ^ 32) \<and>
        msg_level (out_message m) = l mod 2 ^ 32 \<and>
        msg_aggregate (out_message m) = contribution (best_contribution lvl) \<and>
        verify ops (msg_aggregate (out_message m)) \<and>
        contact_sender (out_message m) = (\<not> is_completed lvl))"

lemma disseminate_level_message:
  assumes inv: "handel_inv ops h" and l: "l < length (levels h)" and step: "disseminate_level own h l = Inr h'"
  shows "h' = h \<or> (\<exists>m lvl. sent_for ops h l m \<and> levels h' = (levels h)[l := Some lvl] \<and>
    outbox h' = outbox h @ [m] \<and> peer_partitions h' = peer_partitions h \<and>
    own_peer_ix h' = own_peer_ix h \<and> peers_completed_levels h' = peers_completed_levels h)"
  using step
proof (cases rule: disseminate_level_cases)
  case (sent lvl ps p k sc msg)
  note D = handel_invD [OF inv]
  have "verify ops (contribution (best_contribution lvl))"
    using D(6) [OF l sent(1)] by (simp add: level_ok_def)
  moreover have "own_peer_ix h \<notin> set ps" "p \<in> set ps"
    using binomial.level_peers [OF D(1), of l CVP] l D(3) sent(2,3,4) by auto
  ultimately have "sent_for ops h l msg"
    using sent(1,2,5,6) by (auto simp: sent_for_def make_message_def res_simps)
  then show ?thesis using sent(8) by auto
qed simp

lemma run_dissemination_messages:
  assumes inv: "handel_inv ops h" and "res_fold (disseminate_level own) h [a ..< length (levels h)] = Inr h'" "0 < a"
  shows "\<exists>ls ms. outbox h' = outbox h @ ms \<and> sorted_wrt (<) ls \<and> set ls \<subseteq> {a ..< length (levels h)} \<and>
    list_all2 (sent_for ops h) ls ms"
  using assms
proof (induction "length (levels h) - a" arbitrary: a h)
  case 0
  then show ?case by (intro exI [of _ "[]"]) auto
next
  case (Suc n)
  then have a: "a < length (levels h)" by simp
  then obtain g where g: "disseminate_level own h a = Inr g"
    and rest: "res_fold (disseminate_level own) g [Suc a ..< length (levels h)] = Inr h'"
    using Suc.prems(2) by (auto simp: upt_conv_Cons res_simps)
  have invg: "handel_inv ops g" using disseminate_level_inv [OF Suc.prems(1) g Suc.prems(3) a] .
  have len: "length (levels g) = length (levels h)" using disseminate_level_le [OF g] by (simp add: handel_le_def)
  have n: "n = length (levels g) - Suc a" using Suc.hyps(2) len by linarith
  obtain ls ms where ms: "outbox h' = outbox g @ ms" "sorted_wrt (<) ls" "set ls \<subseteq> {Suc a ..< length (levels h)}"
    "list_all2 (sent_for ops g) ls ms"
    using Suc.hyps(1) [OF n invg] rest len by auto
  from disseminate_level_message [OF Suc.prems(1) a g] show ?case
  proof (elim disjE exE conjE)
    assume "g = h"
    then show ?thesis using ms by (intro exI [of _ ls] exI [of _ ms]) auto
  next
    fix m lvl
    assume m: "sent_for ops h a m" and g': "levels g = (levels h)[a := Some lvl]" "outbox g = outbox h @ [m]"
      "peer_partitions g = peer_partitions h" "own_peer_ix g = own_peer_ix h"
      "peers_completed_levels g = peers_completed_levels h"
    have "sent_for ops g l x = sent_for ops h l x" if "l \<in> set ls" for l x
    proof -
      have "levels g ! l = levels h ! l" using ms(3) that g'(1) by auto
      then show ?thesis using g' by (simp add: sent_for_def)
    qed
    then have "list_all2 (sent_for ops h) ls ms" using ms(4) by (auto simp: list_all2_conv_all_nth)
    then show ?thesis using m ms g'(2) a
      by (intro exI [of _ "a # ls"] exI [of _ "m # ms"]) auto
  qed
qed


lemma handel_leD:
  "handel_le h h' \<Longrightarrow> levels h ! i = Some l \<Longrightarrow> \<exists>l'. levels h' ! i = Some l' \<and> level_le l l'"
  unfolding handel_le_def by blast

lemma poll_aggregate:
  assumes "poll h dissem activ proc = Inr (h', ReadyRight c)"
  shows "get_complete_aggregate h' = Inr (Some c)"
  using assms
proof (cases rule: poll_cases)
  case (1 h1 h2 np ob)
  then show ?thesis by (simp add: get_complete_aggregate_def)
qed

section \<open>Properties\<close>

text \<open>
  C4. The aggregate a round returns is valid and reaches the threshold of the last
  level, whatever messages the peers sent before: after any sequence of events that
  did not panic, a \<open>poll\<close> that returns an aggregate returns one that verifies against the
  public data and whose weight is at least \<open>2 ^ (levels - 1) * num / denom\<close>.
\<close>

theorem complete_aggregate_valid:
  assumes new: "new_handel cf own pp ix = Inr h" "overlay_inv ix pp" "verify ops own"
    and run: "res_fold (handel_step ops) h es = Inr h1"
    and poll: "poll h1 dissem activ proc = Inr (h2, ReadyRight c)"
  shows "verify ops c \<and>
    (\<exists>thr. threshold_min (conf_threshold cf) (2 ^ (num_levels pp - 1)) = Inr thr \<and> thr \<le> weight ops c)"
proof -
  have inv1: "handel_inv ops h1"
    using round.run_inv [OF new_handel_inv [OF new] _ run] by simp
  have inv2: "handel_inv ops h2" by (rule poll_inv [OF inv1 poll])
  have le: "handel_le h h2"
    using handel_le_trans [OF learning.run_below [OF run] poll_le [OF poll]] .
  have h: "conf h = cf" "peer_partitions h = pp" using new(1) by (auto simp: new_handel_def Let_def split: if_splits)
  have pp2: "peer_partitions h2 = pp" "conf h2 = cf" using le h by (simp_all add: handel_le_def)
  note D = handel_invD [OF inv2]
  obtain lvl where lvl: "levels h2 ! (num_levels pp - 1) = Some lvl" "is_completed lvl"
    "c = contribution (best_contribution lvl)"
    using poll_aggregate [OF poll] D(3) pp2 by (auto simp: get_complete_aggregate_def res_simps split: option.splits if_splits)
  have last: "num_levels pp - 1 < length (levels h2)" using D(3,5) pp2 by simp
  obtain ps where ps: "peers_at_level pp (num_levels pp - 1) CVP = Inr ps"
    using binomial.level_peers [OF new(2), of "num_levels pp - 1" CVP] last D(3) pp2 by auto
  have "ps \<noteq> []" by (rule binomial.last_level [OF new(2) ps])
  then have "verify ops c" "is_complete ops c (num_levels pp - 1) (conf_threshold cf) = Inr True"
    using D(6) [OF last lvl(1)] lvl(2,3) ps pp2 by (auto simp: level_ok_def)
  then show ?thesis by (auto simp: is_complete_def res_simps)
qed

theorem complete_aggregate_valid_witness:
  "\<exists>h1 h2. res_fold (handel_step demo_ops) demo_round [Inject 1 (demo_message 1)] = Inr h1 \<and>
     poll h1 False False True = Inr (h2, ReadyRight 2) \<and> verify demo_ops 2 \<and>
     (\<exists>thr. threshold_min (conf_threshold demo_conf) (2 ^ (num_levels demo_overlay - 1)) = Inr thr \<and>
        thr \<le> weight demo_ops 2)"
proof -
  obtain h1 h2 where i: "inject_message demo_ops demo_round 1 (demo_message 1) = Inr h1"
    and p: "poll h1 False False True = Inr (h2, ReadyRight 2)"
    using demo_round_complete by blast
  then have r: "res_fold (handel_step demo_ops) demo_round [Inject 1 (demo_message 1)] = Inr h1" by simp
  have "verify demo_ops 1" by (simp add: demo_ops_def)
  from complete_aggregate_valid [OF demo_round_new demo_overlay_inv this r p] r p show ?thesis by blast
qed

text \<open>
  C5. In every reachable state the active levels are an initial segment of the levels, and
  the best contribution and all individual contributions an active level stores are valid.
\<close>

theorem active_levels_valid:
  assumes "new_handel cf own pp ix = Inr h" "overlay_inv ix pp" "verify ops own"
    and "res_fold (handel_step ops) h es = Inr h'"
    and "i < length (levels h')" "levels h' ! i = Some lvl"
  shows "verify ops (contribution (best_contribution lvl)) \<and>
    (\<forall>c \<in> set (individual_contributions lvl). verify ops c) \<and> (\<forall>j \<le> i. is_active h' j)"
proof -
  have inv: "handel_inv ops h'"
    using round.run_inv [OF new_handel_inv [OF assms(1-3)] _ assms(4)] by simp
  note D = handel_invD [OF inv]
  have "is_active h' j" if "j \<le> i" for j
    using level_active_prefix [OF D(2) assms(5) _ that] assms(5,6) that
    by (auto simp: is_active_def get_def)
  then show ?thesis using D(6) [OF assms(5,6)] by (simp add: level_ok_def)
qed

theorem active_levels_valid_witness:
  "\<exists>h1 lvl. res_fold (handel_step demo_ops) demo_round [Inject 1 (demo_message 1)] = Inr h1 \<and>
     levels h1 ! 1 = Some lvl \<and> verify demo_ops (contribution (best_contribution lvl)) \<and> is_active h1 0"
proof -
  obtain h1 h2 where i: "inject_message demo_ops demo_round 1 (demo_message 1) = Inr h1"
    using demo_round_complete by blast
  then have r: "res_fold (handel_step demo_ops) demo_round [Inject 1 (demo_message 1)] = Inr h1" by simp
  have le: "handel_le demo_round h1" by (rule inject_message_le [OF i])
  obtain lvl where lvl: "levels h1 ! 1 = Some lvl"
    using handel_leD [OF le, of 1] by (auto simp: demo_round_def)
  have l1: "1 < length (levels h1)" using le by (simp add: handel_le_def demo_round_def)
  have "verify demo_ops 1" by (simp add: demo_ops_def)
  from active_levels_valid [OF demo_round_new demo_overlay_inv this r l1 lvl] r lvl show ?thesis
    by blast
qed


text \<open>
  C6. A peer that only sends valid contributions is never banned, provided that a
  combination of valid contributions is valid: whatever the other peers send, the index of
  the peer does not enter \<open>byzantine_nodes\<close>.
\<close>

theorem honest_peer_never_banned:
  assumes "new_handel cf own pp ix = Inr h" "overlay_inv ix pp" "verify ops own" "combine_sound ops"
    and "\<And>e. e \<in> set es \<Longrightarrow> honest_event ops pp p e"
    and "res_fold (handel_step ops) h es = Inr h'"
  shows "p \<notin> byzantine_nodes h'"
proof -
  have "honest_inv ops pp p h"
    using new_handel_inv [OF assms(1-3)] assms(1,4)
    by (auto simp: honest_inv_def new_handel_def Let_def split: if_splits)
  from honest_run.run_inv [OF this assms(5,6)] show ?thesis by (simp add: honest_inv_def)
qed

theorem honest_peer_never_banned_witness:
  "\<exists>h1. res_fold (handel_step demo_ops) demo_round [Inject 1 (demo_message 1)] = Inr h1 \<and>
     1 \<notin> byzantine_nodes h1"
proof -
  obtain h1 h2 where "inject_message demo_ops demo_round 1 (demo_message 1) = Inr h1"
    using demo_round_complete by blast
  then have r: "res_fold (handel_step demo_ops) demo_round [Inject 1 (demo_message 1)] = Inr h1" by simp
  have v: "verify demo_ops 1" "combine_sound demo_ops" by (simp_all add: demo_ops_def combine_sound_def)
  have "honest_event demo_ops demo_overlay 1 e" if "e \<in> set [Inject 1 (demo_message 1)]" for e
    using that by (simp add: demo_message_def valid_pending_def demo_ops_def)
  from honest_peer_never_banned [OF demo_round_new demo_overlay_inv v this r] r show ?thesis by blast
qed

text \<open>
  C7. A round never forgets: along any run the banned peers stay banned, an active level
  stays active, the score of its best contribution does not fall, and a completed level stays
  completed with the same contribution.
\<close>

theorem round_progress:
  assumes "res_fold (handel_step ops) h es = Inr h'"
  shows "byzantine_nodes h \<subseteq> byzantine_nodes h' \<and>
    (\<forall>i l. levels h ! i = Some l \<longrightarrow>
       (\<exists>l'. levels h' ! i = Some l' \<and>
          score (best_contribution l) \<le> score (best_contribution l') \<and>
          (is_completed l \<longrightarrow> is_completed l' \<and> best_contribution l' = best_contribution l)))"
  using learning.run_below [OF assms] by (simp add: handel_le_def level_le_def)

theorem round_progress_witness:
  "\<exists>h1 l'. res_fold (handel_step demo_ops) demo_round [Inject 1 (demo_message 1)] = Inr h1 \<and>
     levels h1 ! 0 = Some l' \<and> best_contribution l' = \<lparr>score = 1, contribution = 1\<rparr>"
proof -
  obtain h1 h2 where "inject_message demo_ops demo_round 1 (demo_message 1) = Inr h1"
    using demo_round_complete by blast
  then have r: "res_fold (handel_step demo_ops) demo_round [Inject 1 (demo_message 1)] = Inr h1" by simp
  have "levels demo_round ! 0 = Some (unit_level \<lparr>score = 1, contribution = 1\<rparr>)"
    by (simp add: demo_round_def)
  with round_progress [OF r] r show ?thesis by (fastforce simp: unit_level_def)
qed

text \<open>
  A message of a banned peer changes nothing but the record of the levels the peer
  says it has completed.
\<close>

theorem banned_peer_ignored:
  assumes "try_index_peer (peer_partitions h) pid = Some p" "p \<in> byzantine_nodes h"
    and "inject_message ops h pid msg = Inr h'"
  shows "\<exists>pcl. h' = h\<lparr>peers_completed_levels := pcl\<rparr>"
  using assms(3)
proof (cases rule: inject_message_cases)
  case (taken q pcl h1)
  then show ?thesis using assms(1,2) by simp
qed blast

theorem banned_peer_ignored_witness:
  "\<exists>h' pcl. inject_message demo_ops (demo_round\<lparr>byzantine_nodes := {1}\<rparr>) 1 (demo_message 1) = Inr h' \<and>
     h' = demo_round\<lparr>byzantine_nodes := {1}, peers_completed_levels := pcl\<rparr>"
proof -
  let ?h = "demo_round\<lparr>byzantine_nodes := {1}\<rparr>"
  obtain h' where "inject_message demo_ops ?h 1 (demo_message 1) = Inr h'"
    by (simp add: demo_defs handel_eval)
  moreover have "try_index_peer (peer_partitions ?h) 1 = Some 1" "1 \<in> byzantine_nodes ?h"
    by (simp_all add: demo_defs try_index_peer_def)
  ultimately show ?thesis using banned_peer_ignored by metis
qed



text \<open>
  A message of a known peer for a level that does not exist makes the round panic:
  the level of a message is not checked before it indexes the vector of levels.
\<close>

theorem unknown_level_panics:
  assumes "try_index_peer (peer_partitions h) pid = Some p" "length (levels h) \<le> msg_level msg"
  shows "inject_message ops h pid msg = Inl IndexOutOfBounds"
proof -
  obtain pcl where "mark_completed h (contact_sender msg) p (msg_level msg) = h\<lparr>peers_completed_levels := pcl\<rparr>"
    by (rule mark_completed_frame)
  then show ?thesis
    using assms by (simp add: inject_message_def handle_contribution_def Let_def index_def)
qed

theorem unknown_level_panics_witness:
  "inject_message demo_ops demo_round 1 ((demo_message 1)\<lparr>msg_level := 2\<rparr>) = Inl IndexOutOfBounds"
  by (rule unknown_level_panics [where p = 1]) (simp_all add: demo_defs try_index_peer_def)

text \<open>
  A round whose first level is empty panics with a division by zero on the first
  message for that level, when the threshold of the level is reached by the own contribution
  alone: level 1 is activated by the constructor even if all its peers were padding.
\<close>

theorem empty_first_level_panics:
  assumes inv: "handel_inv ops h" and pid: "try_index_peer (peer_partitions h) pid = Some p" "p \<notin> byzantine_nodes h"
    and lvl: "levels h ! 1 = Some lvl" "\<not> is_completed lvl"
      "is_complete ops (contribution (best_contribution lvl)) 1 (conf_threshold (conf h)) = Inr True"
    and ps: "peers_at_level (peer_partitions h) 1 VP = Inr []" and w: "0 < fast_path_window (conf h)"
    and msg: "msg_level msg = 1"
  shows "inject_message ops h pid msg = Inl DivideByZero"
proof -
  note D = handel_invD [OF inv]
  obtain pcl where mc: "mark_completed h (contact_sender msg) p (msg_level msg) = h\<lparr>peers_completed_levels := pcl\<rparr>"
    by (rule mark_completed_frame)
  have len: "1 < length (levels h)" "1 < length (unverified_contributions h)" "0 < length (levels h)"
    using D(3,4,5) by linarith+
  obtain c where c: "handle_contribution h pid (msg_level msg) (contact_sender msg)
      (msg_aggregate msg) (msg_individual msg) = Inr (h\<lparr>peers_completed_levels := pcl,
         unverified_contributions := (unverified_contributions h)[1 := (unverified_contributions h ! 1)(p \<mapsto> c)]\<rparr>, True)"
    using pid lvl len mc by (simp add: handle_contribution_def Let_def msg)
  have "peers_at_level (peer_partitions h) 1 CVP = Inr []"
    using binomial.level_peers [OF D(1), of 1 CVP] binomial.level_orders [OF D(1) ps, of CVP] len(1) D(3) by fastforce
  moreover have "level_ok ops (peer_partitions h) (conf_threshold (conf h)) 1 lvl" by (rule D(6) [OF len(1) lvl(1)])
  moreover have "res_mapM (\<lambda>ix. checked_rem (ix + off) 0) [0 ..< fast_path_window (conf h)] = Inl DivideByZero" for off
    using w by (simp add: upt_conv_Cons checked_rem_def)
  ultimately show ?thesis
    using c lvl len ps D(7)
    by (auto simp: inject_message_def run_aggregation_def msg Let_def level_ok_def run_fast_path_def
        fast_path_nodes_def completed_def nth_list_update map_upd_nonempty)
qed

theorem empty_first_level_panics_witness:
  "\<exists>h. new_handel padded_conf 1 padded_overlay 0 = Inr h \<and>
     inject_message demo_ops h 1 (demo_message 1) = Inl DivideByZero"
proof -
  obtain h where h: "new_handel padded_conf (1::nat) padded_overlay 0 = Inr h"
    "h = \<lparr>conf = padded_conf, scoring_window = 4, unverified_contributions = replicate 3 Map.empty,
      peer_partitions = padded_overlay, levels = [Some (unit_level \<lparr>score = 1, contribution = 1\<rparr>),
        Some (new_level \<lparr>score = 1, contribution = 1\<rparr> 1), None],
      byzantine_nodes = {}, own_contribution_recvs = {}, outbox = [], own_peer_ix = 0,
      peers_completed_levels = Map.empty, next_processing = None, next_dissemination = 10, next_activation = 10\<rparr>"
    by (simp add: new_handel_def padded_conf_def demo_conf_def padded_overlay_def num_levels_def numeral_eq_Suc Let_def)
  have "handel_inv demo_ops h"
    by (rule new_handel_inv [OF h(1) padded_overlay_inv]) (simp add: demo_ops_def)
  then have "inject_message demo_ops h 1 (demo_message 1) = Inl DivideByZero"
    by (rule empty_first_level_panics [where p = 2 and lvl = "new_level \<lparr>score = 1, contribution = 1\<rparr> 1"])
      (simp_all add: h(2) padded_overlay_def padded_conf_def demo_conf_def demo_ops_def demo_message_def
        try_index_peer_def new_level_def is_complete_def threshold_min_def checked_usize_def checked_div_def
        usize_max_def peers_at_level_def)
  with h(1) show ?thesis by blast
qed

text \<open>
  Dissemination sends at most one message per active level, in the order of the
  levels, each to a peer of the level other than the host that has not announced the
  completion of the level, and each carrying the valid best contribution of the level.
\<close>

theorem dissemination_messages:
  assumes "new_handel cf own pp ix = Inr h0" "overlay_inv ix pp" "verify ops own"
    and "res_fold (handel_step ops) h0 es = Inr h" "run_dissemination h = Inr h'"
  shows "\<exists>ls ms. outbox h' = outbox h @ ms \<and> sorted_wrt (<) ls \<and> set ls \<subseteq> {1 ..< length (levels h)} \<and>
    list_all2 (sent_for ops h) ls ms"
proof -
  have inv: "handel_inv ops h"
    using round.run_inv [OF new_handel_inv [OF assms(1-3)] _ assms(4)] by simp
  obtain own where "res_fold (disseminate_level own) h [1 ..< length (levels h)] = Inr h'"
    using assms(5) by (auto simp: run_dissemination_def res_simps)
  from run_dissemination_messages [OF inv this] show ?thesis by simp
qed

theorem dissemination_messages_witness:
  "\<exists>h' ls ms. run_dissemination demo_round = Inr h' \<and> outbox h' = ms \<and> length ms = 1 \<and>
     list_all2 (sent_for demo_ops demo_round) ls ms"
proof -
  obtain h' where h': "run_dissemination demo_round = Inr h'" "length (outbox h') = 1"
    by (simp add: demo_defs handel_eval run_dissemination_def get_own_contribution_def
        disseminate_level_def next_peer_def upt_rec numeral_2_eq_2 Let_def)
  have v: "verify demo_ops 1" and r: "res_fold (handel_step demo_ops) demo_round [] = Inr demo_round"
    by (simp_all add: demo_ops_def)
  have "outbox demo_round = []" by (simp add: demo_round_def)
  with dissemination_messages [OF demo_round_new demo_overlay_inv v r h'(1)] h' show ?thesis by auto
qed

end
