(* ===== verification/Peers.thy ===== *)
theory Peers
  imports Prelude "HOL-Library.Product_Lexorder" "HOL-Library.Word"
begin

text \<open>
  The repository of known peers of \<open>spectrum-network\<close>: the identifiers and reputations of
  \<open>types.rs\<close>, the data of \<open>peer_manager/data.rs\<close>, the index of
  \<open>peer_manager/peer_index.rs\<close> and the struct \<open>PeerRepo\<close> of
  \<open>peer_manager/peers_state.rs\<close> with the operations of \<open>ConnectedPeer\<close>,
  \<open>NotConnectedPeer\<close>, \<open>PeerInState\<close> and the trait \<open>PeersState\<close>. The handles the code
  borrows from the repository become the repository and a peer identifier. A hash map
  is a partial map, a hash set a set, and a \<open>BTreeSet\<close> the sorted list of its elements.
\<close>

section \<open>Identifiers and reputation (types.rs)\<close>

type_synonym reputation = int

definition i32_min :: int where
  "i32_min = - (2 ^ 31)"

definition i32_max :: int where
  "i32_max = 2 ^ 31 - 1"

definition checked_i32 :: "int \<Rightarrow> int res" where
  "checked_i32 x = (if i32_min \<le> x \<and> x \<le> i32_max then Inr x else Inl ArithOverflow)"

datatype reputation_change = NoResponse | TooSlow

fun is_downgrade :: "reputation_change \<Rightarrow> bool" where
  "is_downgrade NoResponse = True"
| "is_downgrade TooSlow = True"

fun i32_from_change :: "reputation_change \<Rightarrow> int" where
  "i32_from_change NoResponse = - 10"
| "i32_from_change TooSlow = - 10"

definition initial_reputation :: reputation where
  "initial_reputation = 0"

definition apply_change :: "reputation \<Rightarrow> reputation_change \<Rightarrow> reputation res" where
  "apply_change r change = checked_i32 (r + i32_from_change change)"

type_synonym protocol_id = "8 word"
type_synonym protocol_ver = "8 word"

text \<open>A protocol tag is three bytes: a slash, the identifier and the version.\<close>

type_synonym protocol_tag = "8 word \<times> 8 word \<times> 8 word"

definition default_protocol_ver :: protocol_ver where
  "default_protocol_ver = 1"

text \<open>The reversed order of versions.\<close>

definition protocol_ver_le :: "protocol_ver \<Rightarrow> protocol_ver \<Rightarrow> bool" where
  "protocol_ver_le v w \<longleftrightarrow> w \<le> v"

definition new_tag :: "protocol_id \<Rightarrow> protocol_ver \<Rightarrow> protocol_tag" where
  "new_tag pid ver = (47, pid, ver)"

definition tag_protocol_id :: "protocol_tag \<Rightarrow> protocol_id" where
  "tag_protocol_id t = fst (snd t)"

definition tag_protocol_ver :: "protocol_tag \<Rightarrow> protocol_ver" where
  "tag_protocol_ver t = snd (snd t)"

text \<open>The conversion \<open>From<ProtocolTag> for ProtocolVer\<close>, which reads byte 1.\<close>

definition ver_from_tag :: "protocol_tag \<Rightarrow> protocol_ver" where
  "ver_from_tag t = fst (snd t)"

section \<open>Data (data.rs)\<close>

datatype ('pid, 'addr) peer_destination =
    PeerId 'pid
  | PeerIdWithAddr 'pid 'addr

fun dest_peer_id :: "('pid, 'addr) peer_destination \<Rightarrow> 'pid" where
  "dest_peer_id (PeerId pid) = pid"
| "dest_peer_id (PeerIdWithAddr pid addr) = pid"

fun into_addr :: "('pid, 'addr) peer_destination \<Rightarrow> 'addr option" where
  "into_addr (PeerIdWithAddr pid addr) = Some addr"
| "into_addr (PeerId pid) = None"

datatype conn_handler_error = SyncChannelExhausted | UnacceptablePeer

datatype connection_loss_reason =
    ResetByPeer
  | Reset conn_handler_error
  | UnknownReason

text \<open>The flag of an outbound connection says whether it is confirmed.\<close>

datatype connection_direction = Inbound | Outbound bool

datatype connection_state = Connected connection_direction | NotConnected

fun is_connected :: "connection_state \<Rightarrow> bool" where
  "is_connected (Connected d) = True"
| "is_connected NotConnected = False"

record 'addr peer_info =
  is_reserved :: bool
  is_boot :: bool
  addr :: "'addr option"
  reputation :: reputation
  conn_state :: connection_state
  num_connections :: nat
  last_handshake :: "nat option"
  outbound_backoff_until :: "nat option"
  supported_protocols :: "protocol_id list option"

definition new_peer_info :: "'addr option \<Rightarrow> bool \<Rightarrow> bool \<Rightarrow> 'addr peer_info" where
  "new_peer_info a reserved boot =
     \<lparr>is_reserved = reserved, is_boot = boot, addr = a, reputation = initial_reputation,
      conn_state = NotConnected, num_connections = 0, last_handshake = None,
      outbound_backoff_until = None, supported_protocols = None\<rparr>"

definition supports :: "'addr peer_info \<Rightarrow> protocol_id \<Rightarrow> bool option" where
  "supports pi prot = map_option (\<lambda>ps. prot \<in> set ps) (supported_protocols pi)"

text \<open>\<open>confirm_new_conn\<close> discards the incremented counter.\<close>

definition confirm_new_conn :: "'addr peer_info \<Rightarrow> 'addr peer_info" where
  "confirm_new_conn pi = pi"

datatype protocol_allocation_policy = Bounded nat | MaxPolicy | Zero

section \<open>The index (peer\_index.rs)\<close>

record 'pid peer_index =
  reserved_peers :: "'pid set"
  boot_peers :: "'pid set"
  enabled_connections :: "'pid \<rightharpoonup> connection_direction"
  protocols :: "protocol_id \<rightharpoonup> 'pid set"
  num_inbound :: nat
  num_outbound :: nat

definition new_index :: "'pid peer_index" where
  "new_index = \<lparr>reserved_peers = {}, boot_peers = {}, enabled_connections = Map.empty,
     protocols = Map.empty, num_inbound = 0, num_outbound = 0\<rparr>"

definition add_outgoing :: "'pid \<Rightarrow> 'pid peer_index \<Rightarrow> 'pid peer_index" where
  "add_outgoing pid ix =
     ix\<lparr>enabled_connections := (enabled_connections ix)(pid \<mapsto> Outbound False)\<rparr>"

definition confirm_outbound :: "'pid \<Rightarrow> 'pid peer_index \<Rightarrow> 'pid peer_index" where
  "confirm_outbound pid ix =
     ix\<lparr>enabled_connections := (enabled_connections ix)(pid \<mapsto> Outbound True)\<rparr>"

definition add_incoming :: "'pid \<Rightarrow> 'pid peer_index \<Rightarrow> 'pid peer_index" where
  "add_incoming pid ix =
     ix\<lparr>enabled_connections := (enabled_connections ix)(pid \<mapsto> Inbound)\<rparr>"

text \<open>\<open>saturating_sub\<close> is the subtraction of natural numbers.\<close>

definition drop_outgoing :: "'pid \<Rightarrow> bool \<Rightarrow> 'pid peer_index \<Rightarrow> 'pid peer_index" where
  "drop_outgoing pid boot ix =
     ix\<lparr>num_outbound := num_outbound ix - 1,
        enabled_connections := (enabled_connections ix)(pid := None),
        boot_peers := (if boot then boot_peers ix - {pid} else boot_peers ix)\<rparr>"

definition drop_incoming :: "'pid \<Rightarrow> 'pid peer_index \<Rightarrow> 'pid peer_index \<times> bool" where
  "drop_incoming pid ix =
     (ix\<lparr>num_inbound := num_inbound ix - 1,
         enabled_connections := (enabled_connections ix)(pid := None)\<rparr>,
      enabled_connections ix pid \<noteq> None)"

definition reserve_peer :: "'pid \<Rightarrow> 'pid peer_index \<Rightarrow> 'pid peer_index" where
  "reserve_peer pid ix = ix\<lparr>reserved_peers := insert pid (reserved_peers ix)\<rparr>"

definition drop_reserved_peer :: "'pid \<Rightarrow> 'pid peer_index \<Rightarrow> 'pid peer_index" where
  "drop_reserved_peer pid ix = ix\<lparr>reserved_peers := reserved_peers ix - {pid}\<rparr>"

definition update_reserved_set :: "'pid set \<Rightarrow> 'pid peer_index \<Rightarrow> 'pid peer_index" where
  "update_reserved_set ps ix = ix\<lparr>reserved_peers := ps\<rparr>"

definition index_enable_protocol ::
  "protocol_id \<Rightarrow> 'pid \<Rightarrow> 'pid peer_index \<Rightarrow> 'pid peer_index \<times> bool" where
  "index_enable_protocol prot pid ix =
     (case protocols ix prot of
        Some ps \<Rightarrow> (ix\<lparr>protocols := (protocols ix)(prot \<mapsto> insert pid ps)\<rparr>, pid \<notin> ps)
      | None \<Rightarrow> (ix, False))"

definition is_protocol_enabled :: "protocol_id \<Rightarrow> 'pid \<Rightarrow> 'pid peer_index \<Rightarrow> bool" where
  "is_protocol_enabled prot pid ix =
     (case protocols ix prot of Some ps \<Rightarrow> pid \<in> ps | None \<Rightarrow> False)"

section \<open>The repository (peers\_state.rs)\<close>

record networking_config =
  min_known_peers :: nat
  min_outbound :: nat
  max_inbound :: nat
  max_outbound :: nat

record ('pid, 'addr) peer_repo =
  peers :: "'pid \<rightharpoonup> 'addr peer_info"
  sorted_peers :: "('pid \<times> reputation) list"
  peer_index :: "'pid peer_index"
  netw_conf :: networking_config
  repo_boot_peers :: "('pid, 'addr) peer_destination list"

definition new_repo ::
  "networking_config \<Rightarrow> ('pid, 'addr) peer_destination list \<Rightarrow> ('pid, 'addr) peer_repo" where
  "new_repo nc boot =
     \<lparr>peers = Map.empty, sorted_peers = [], peer_index = new_index, netw_conf = nc,
      repo_boot_peers = boot\<rparr>"

text \<open>A handle on a peer: whether it is connected, decided when it is taken.\<close>

datatype 'pid peer_in_state = ConnectedPeer 'pid | NotConnectedPeer 'pid

definition peer :: "('pid, 'addr) peer_repo \<Rightarrow> 'pid \<Rightarrow> 'pid peer_in_state option" where
  "peer r pid =
     (case peers r pid of
        None \<Rightarrow> None
      | Some pi \<Rightarrow>
          (case conn_state pi of
             Connected d \<Rightarrow> Some (ConnectedPeer pid)
           | NotConnected \<Rightarrow> Some (NotConnectedPeer pid)))"

text \<open>\<open>peer_info.get_mut()\<close> and \<open>peer_info.get()\<close> on the occupied entry of a handle.\<close>

definition modify_info ::
  "('addr peer_info \<Rightarrow> 'addr peer_info) \<Rightarrow> 'pid \<Rightarrow> ('pid, 'addr) peer_repo \<Rightarrow> ('pid, 'addr) peer_repo" where
  "modify_info f pid r = r\<lparr>peers := (peers r)(pid := map_option f (peers r pid))\<rparr>"

subsection \<open>ConnectedPeer\<close>

definition disconnect_peer :: "'pid \<Rightarrow> ('pid, 'addr) peer_repo \<Rightarrow> ('pid, 'addr) peer_repo" where
  "disconnect_peer pid r =
     (case peers r pid of
        None \<Rightarrow> r
      | Some pi \<Rightarrow>
          let ix = (case conn_state pi of
                      Connected Inbound \<Rightarrow> fst (drop_incoming pid (peer_index r))
                    | Connected (Outbound c) \<Rightarrow> drop_outgoing pid (is_boot pi) (peer_index r)
                    | NotConnected \<Rightarrow> peer_index r)
          in modify_info (\<lambda>pi. pi\<lparr>conn_state := NotConnected\<rparr>) pid (r\<lparr>peer_index := ix\<rparr>))"

definition confirm_connection ::
  "'pid \<Rightarrow> ('pid, 'addr) peer_repo \<Rightarrow> ('pid, 'addr) peer_repo \<times> bool" where
  "confirm_connection pid r =
     (case map_option conn_state (peers r pid) of
        Some (Connected (Outbound False)) \<Rightarrow>
          (modify_info (\<lambda>pi. pi\<lparr>conn_state := Connected (Outbound True)\<rparr>) pid r, True)
      | _ \<Rightarrow> (r, False))"

definition is_confirmed :: "'pid \<Rightarrow> ('pid, 'addr) peer_repo \<Rightarrow> bool" where
  "is_confirmed pid r =
     (map_option conn_state (peers r pid) = Some (Connected (Outbound True)) \<or>
      map_option conn_state (peers r pid) = Some (Connected Inbound))"

text \<open>
  \<open>ConnectedPeer::adjust_reputation\<close> and \<open>NotConnectedPeer::adjust_reputation\<close> compute
  the new reputation and drop it.
\<close>

definition adjust_reputation_handle ::
  "'pid \<Rightarrow> reputation_change \<Rightarrow> ('pid, 'addr) peer_repo \<Rightarrow> ('pid, 'addr) peer_repo res" where
  "adjust_reputation_handle pid change r =
     (case peers r pid of
        None \<Rightarrow> Inr r
      | Some pi \<Rightarrow> res_bind (apply_change (reputation pi) change) (\<lambda>_. Inr r))"

definition get_reputation :: "'pid \<Rightarrow> ('pid, 'addr) peer_repo \<Rightarrow> reputation option" where
  "get_reputation pid r = map_option reputation (peers r pid)"

definition get_conn_direction :: "'pid \<Rightarrow> ('pid, 'addr) peer_repo \<Rightarrow> connection_direction res" where
  "get_conn_direction pid r =
     (case map_option conn_state (peers r pid) of
        Some (Connected d) \<Rightarrow> Inr d
      | _ \<Rightarrow> Inl AssertFailed)"

definition handshaked :: "nat \<Rightarrow> 'pid \<Rightarrow> ('pid, 'addr) peer_repo \<Rightarrow> ('pid, 'addr) peer_repo" where
  "handshaked now pid r = modify_info (\<lambda>pi. pi\<lparr>last_handshake := Some now\<rparr>) pid r"

definition enable_protocol ::
  "protocol_id \<Rightarrow> 'pid \<Rightarrow> ('pid, 'addr) peer_repo \<Rightarrow> ('pid, 'addr) peer_repo" where
  "enable_protocol prot pid r =
     (let ix = peer_index r;
          ps = (case protocols ix prot of None \<Rightarrow> {} | Some ps \<Rightarrow> ps)
      in r\<lparr>peer_index := ix\<lparr>protocols := (protocols ix)(prot \<mapsto> insert pid ps)\<rparr>\<rparr>)"

definition destination :: "'pid \<Rightarrow> ('pid, 'addr) peer_repo \<Rightarrow> ('pid, 'addr) peer_destination" where
  "destination pid r =
     (case peers r pid of
        Some pi \<Rightarrow> (case addr pi of Some a \<Rightarrow> PeerIdWithAddr pid a | None \<Rightarrow> PeerId pid)
      | None \<Rightarrow> PeerId pid)"

subsection \<open>NotConnectedPeer\<close>

text \<open>The incremented counter of connections is discarded.\<close>

definition force_connect ::
  "connection_direction \<Rightarrow> 'pid \<Rightarrow> ('pid, 'addr) peer_repo \<Rightarrow> ('pid, 'addr) peer_repo" where
  "force_connect d pid r = modify_info (\<lambda>pi. pi\<lparr>conn_state := Connected d\<rparr>) pid r"

definition connect_peer :: "'pid \<Rightarrow> ('pid, 'addr) peer_repo \<Rightarrow> ('pid, 'addr) peer_repo" where
  "connect_peer pid r =
     force_connect (Outbound False) pid (r\<lparr>peer_index := add_outgoing pid (peer_index r)\<rparr>)"

definition try_accept_connection ::
  "'pid \<Rightarrow> ('pid, 'addr) peer_repo \<Rightarrow> ('pid, 'addr) peer_repo \<times> bool" where
  "try_accept_connection pid r =
     (if num_inbound (peer_index r) < max_inbound (netw_conf r)
      then (force_connect Inbound pid r, True) else (r, False))"

definition forget :: "'pid \<Rightarrow> ('pid, 'addr) peer_repo \<Rightarrow> ('pid, 'addr) peer_repo" where
  "forget pid r =
     (case peers r pid of
        None \<Rightarrow> r
      | Some pi \<Rightarrow> r\<lparr>sorted_peers := remove1 (pid, reputation pi) (sorted_peers r),
                     peers := (peers r)(pid := None)\<rparr>)"

definition set_backoff_until :: "nat \<Rightarrow> 'pid \<Rightarrow> ('pid, 'addr) peer_repo \<Rightarrow> ('pid, 'addr) peer_repo" where
  "set_backoff_until ts pid r = modify_info (\<lambda>pi. pi\<lparr>outbound_backoff_until := Some ts\<rparr>) pid r"

definition backoff_until :: "'pid \<Rightarrow> ('pid, 'addr) peer_repo \<Rightarrow> nat option" where
  "backoff_until pid r =
     (case peers r pid of None \<Rightarrow> None | Some pi \<Rightarrow> outbound_backoff_until pi)"

subsection \<open>PeerInState\<close>

definition set_protocols ::
  "protocol_id list \<Rightarrow> 'pid \<Rightarrow> ('pid, 'addr) peer_repo \<Rightarrow> ('pid, 'addr) peer_repo" where
  "set_protocols ps pid r = modify_info (\<lambda>pi. pi\<lparr>supported_protocols := Some ps\<rparr>) pid r"

definition adjust_reputation ::
  "reputation_change \<Rightarrow> 'pid::linorder \<Rightarrow> ('pid, 'addr) peer_repo \<Rightarrow> ('pid, 'addr) peer_repo res" where
  "adjust_reputation change pid r =
     (case peers r pid of
        None \<Rightarrow> Inr r
      | Some pi \<Rightarrow>
          res_bind (apply_change (reputation pi) change) (\<lambda>new_rep.
            Inr ((modify_info (\<lambda>pi. pi\<lparr>reputation := new_rep\<rparr>) pid r)
              \<lparr>sorted_peers :=
                 insort_insert (pid, new_rep) (remove1 (pid, reputation pi) (sorted_peers r))\<rparr>)))"

definition is_reputation_acceptable :: "reputation \<Rightarrow> 'pid \<Rightarrow> ('pid, 'addr) peer_repo \<Rightarrow> bool" where
  "is_reputation_acceptable min_rep pid r =
     (case peers r pid of None \<Rightarrow> True | Some pi \<Rightarrow> min_rep \<le> reputation pi)"

definition set_reserved :: "bool \<Rightarrow> 'pid \<Rightarrow> ('pid, 'addr) peer_repo \<Rightarrow> ('pid, 'addr) peer_repo" where
  "set_reserved reserved pid r =
     (let ix = (if reserved then reserve_peer pid (peer_index r)
                else drop_reserved_peer pid (peer_index r))
      in modify_info (\<lambda>pi. pi\<lparr>is_reserved := reserved\<rparr>) pid (r\<lparr>peer_index := ix\<rparr>))"

subsection \<open>PeersState for PeerRepo\<close>

datatype peer_state_filter = FilterConnected | FilterNotConnected

datatype ('pid, 'addr) networking_state =
    NotBootstrapped "('pid, 'addr) peer_destination list"
  | BootInProgress
  | Bootstrapped
  | Saturated

definition get_peers :: "nat \<Rightarrow> ('pid, 'addr) peer_repo \<Rightarrow> ('pid, 'addr) peer_destination list" where
  "get_peers limit r =
     List.map_filter (\<lambda>(pid, _).
       case peers r pid of
         None \<Rightarrow> None
       | Some pi \<Rightarrow> Some (case addr pi of Some a \<Rightarrow> PeerIdWithAddr pid a | None \<Rightarrow> PeerId pid))
       (take limit (sorted_peers r))"

definition get_peer_reputation :: "'pid \<Rightarrow> ('pid, 'addr) peer_repo \<Rightarrow> reputation option" where
  "get_peer_reputation pid r = map_option reputation (peers r pid)"

text \<open>\<open>try_add_peer\<close> returns the repository and whether the peer was added.\<close>

definition try_add_peer ::
  "('pid::linorder, 'addr) peer_destination \<Rightarrow> bool \<Rightarrow> bool \<Rightarrow> ('pid, 'addr) peer_repo
   \<Rightarrow> ('pid, 'addr) peer_repo \<times> bool" where
  "try_add_peer dest reserved boot r =
     (let pid = dest_peer_id dest
      in if peers r pid = None
         then (r\<lparr>sorted_peers := insort_insert (pid, initial_reputation) (sorted_peers r),
                 peers := (peers r)(pid \<mapsto> new_peer_info (into_addr dest) reserved boot),
                 peer_index := (if reserved then reserve_peer pid (peer_index r) else peer_index r)\<rparr>,
               True)
         else (r, False))"

text \<open>
  The loop of \<open>set_reserved_peers\<close> over the peers in some order, and the whole operation,
  which also returns the unknown peers.
\<close>

fun mark_reserved :: "'pid list \<Rightarrow> ('pid, 'addr) peer_repo \<Rightarrow> ('pid, 'addr) peer_repo" where
  "mark_reserved [] r = r"
| "mark_reserved (pid # pids) r =
     mark_reserved pids (if peer r pid = None then r else set_reserved True pid r)"

definition set_reserved_peers ::
  "('pid set \<Rightarrow> 'pid list) \<Rightarrow> 'pid set \<Rightarrow> ('pid, 'addr) peer_repo \<Rightarrow> ('pid, 'addr) peer_repo \<times> 'pid set" where
  "set_reserved_peers order ps r =
     (let r' = mark_reserved (order ps) r;
          known = {pid \<in> ps. peers r pid \<noteq> None}
      in (r'\<lparr>peer_index := update_reserved_set known (peer_index r')\<rparr>, ps - known))"

definition get_reserved_peers :: "peer_state_filter option \<Rightarrow> ('pid, 'addr) peer_repo \<Rightarrow> 'pid set" where
  "get_reserved_peers filt r =
     {pid \<in> reserved_peers (peer_index r).
        case peers r pid of
          None \<Rightarrow> False
        | Some pi \<Rightarrow> is_reserved pi \<and>
            (case filt of
               None \<Rightarrow> True
             | Some FilterConnected \<Rightarrow> is_connected (conn_state pi)
             | Some FilterNotConnected \<Rightarrow> \<not> is_connected (conn_state pi))}"

definition get_enabled_peers :: "protocol_id \<Rightarrow> ('pid, 'addr) peer_repo \<Rightarrow> 'pid set option" where
  "get_enabled_peers prot r = protocols (peer_index r) prot"

definition num_connected_peers :: "('pid, 'addr) peer_repo \<Rightarrow> nat" where
  "num_connected_peers r = card (dom (enabled_connections (peer_index r)))"

definition networking_state :: "('pid, 'addr) peer_repo \<Rightarrow> ('pid, 'addr) networking_state res" where
  "networking_state r =
     (if card (dom (peers r)) < min_known_peers (netw_conf r)
      then Inr (NotBootstrapped (repo_boot_peers r))
      else
        res_bind (checked_sub (num_outbound (peer_index r)) (card (boot_peers (peer_index r)))) (\<lambda>n.
          Inr (if n < min_outbound (netw_conf r) then BootInProgress
               else if num_outbound (peer_index r) < max_outbound (netw_conf r) then Bootstrapped
               else Saturated)))"

text \<open>\<open>filter_peers\<close> iterates the hash map in some order.\<close>

definition filter_peers ::
  "('pid set \<Rightarrow> 'pid list) \<Rightarrow> ('pid \<Rightarrow> 'addr peer_info \<Rightarrow> bool) \<Rightarrow> ('pid, 'addr) peer_repo \<Rightarrow> 'pid list" where
  "filter_peers order pred r =
     filter (\<lambda>pid. case peers r pid of Some pi \<Rightarrow> pred pid pi | None \<Rightarrow> False) (order (dom (peers r)))"

fun pick_best_in ::
  "('pid \<rightharpoonup> 'addr peer_info) \<Rightarrow> ('pid \<Rightarrow> 'addr peer_info \<Rightarrow> bool) option
   \<Rightarrow> ('pid \<times> reputation) list \<Rightarrow> 'pid option" where
  "pick_best_in ps filt [] = None"
| "pick_best_in ps filt ((pid, rep) # rest) =
     (case ps pid of
        Some pi \<Rightarrow>
          if (case filt of Some f \<Rightarrow> f pid pi | None \<Rightarrow> True) then Some pid
          else pick_best_in ps filt rest
      | None \<Rightarrow> pick_best_in ps filt rest)"

definition pick_best ::
  "('pid \<Rightarrow> 'addr peer_info \<Rightarrow> bool) option \<Rightarrow> ('pid, 'addr) peer_repo \<Rightarrow> 'pid option" where
  "pick_best filt r = pick_best_in (peers r) filt (sorted_peers r)"

end
