(* ===== verification/Peer_Manager.thy ===== *)
theory Peer_Manager
  imports Peers
begin

text \<open>
  The peer manager (\<open>spectrum-network/src/peer_manager.rs\<close>): its configuration and
  messages, the allocation of connections and protocols, every request and notification
  handler, and \<open>poll_next\<close>. The manager is a stream: a poll takes the current time and
  whether each of the two timers has fired, and returns the next command or nothing. The
  order in which a hash set is iterated is the parameter \<open>order\<close>; the answers sent through
  one-shot channels are collected in \<open>responses\<close>.
\<close>

section \<open>Messages and state\<close>

datatype ('pid, 'addr) peer_manager_out =
    Connect "('pid, 'addr) peer_destination"
  | Drop 'pid
  | AcceptIncomingConnection 'pid nat
  | Reject 'pid nat
  | StartProtocol protocol_id 'pid
  | NotifyPeerPunished 'pid reputation_change

datatype ('pid, 'addr, 'ch) peer_manager_request =
    AddPeers "('pid, 'addr) peer_destination list"
  | AddReservedPeer "('pid, 'addr) peer_destination"
  | SetReservedPeers "'pid set"
  | ReportPeer 'pid reputation_change
  | GetPeerReputation 'pid 'ch
  | GetPeers nat 'ch
  | SetProtocols 'pid "protocol_id list"

datatype 'pid peer_event =
    IncomingConnection 'pid nat
  | ConnectionEstablished 'pid nat
  | ConnectionLost 'pid connection_loss_reason
  | DialFailure 'pid
  | ForceEnabled 'pid protocol_id

datatype ('pid, 'addr, 'ch) peer_manager_in =
    Notification "'pid peer_event"
  | Request "('pid, 'addr, 'ch) peer_manager_request"

datatype ('pid, 'addr) response =
    PeersResponse "('pid, 'addr) peer_destination list"
  | ReputationResponse reputation

record peer_manager_config =
  min_acceptable_reputation :: reputation
  min_reputation :: reputation
  conn_reset_outbound_backoff :: nat
  conn_alloc_interval :: nat
  prot_alloc_interval :: nat
  protocols_allocation :: "(protocol_id \<times> protocol_allocation_policy) list"
  peer_manager_msg_buffer_size :: nat

datatype conn_allocation_mode = Active | Passive | Idle

text \<open>Durations are in milliseconds.\<close>

definition active_conn_alloc_interval :: nat where
  "active_conn_alloc_interval = 1000"

record ('pid, 'addr, 'ch) peer_manager =
  state :: "('pid, 'addr) peer_repo"
  pm_conf :: peer_manager_config
  mailbox :: "('pid, 'addr, 'ch) peer_manager_in list"
  out_queue :: "('pid, 'addr) peer_manager_out list"
  next_conn_alloc :: nat
  next_prot_alloc :: nat
  boot_in_progress :: bool
  responses :: "('ch \<times> ('pid, 'addr) response) list"

definition new_manager ::
  "('pid, 'addr) peer_repo \<Rightarrow> peer_manager_config \<Rightarrow> ('pid, 'addr, 'ch) peer_manager" where
  "new_manager st cf =
     \<lparr>state = st, pm_conf = cf, mailbox = [], out_queue = [], next_conn_alloc = 0,
      next_prot_alloc = 0, boot_in_progress = False, responses = []\<rparr>"

text \<open>The mailbox methods of \<open>PeersMailbox\<close> append one message each.\<close>

definition mailbox_send ::
  "('pid, 'addr, 'ch) peer_manager_in \<Rightarrow> ('pid, 'addr, 'ch) peer_manager \<Rightarrow> ('pid, 'addr, 'ch) peer_manager" where
  "mailbox_send m pm = pm\<lparr>mailbox := mailbox pm @ [m]\<rparr>"

definition push_out ::
  "('pid, 'addr) peer_manager_out \<Rightarrow> ('pid, 'addr, 'ch) peer_manager \<Rightarrow> ('pid, 'addr, 'ch) peer_manager" where
  "push_out out pm = pm\<lparr>out_queue := out_queue pm @ [out]\<rparr>"

section \<open>Connections\<close>

definition connect ::
  "nat \<Rightarrow> ('pid, 'addr, 'ch) peer_manager \<Rightarrow> 'pid \<Rightarrow> ('pid, 'addr, 'ch) peer_manager" where
  "connect now pm pid =
     (case peer (state pm) pid of
        Some (NotConnectedPeer p) \<Rightarrow>
          if (case backoff_until pid (state pm) of Some t \<Rightarrow> t \<le> now | None \<Rightarrow> True)
          then let st = connect_peer pid (state pm)
               in push_out (Connect (destination pid st)) (pm\<lparr>state := st\<rparr>)
          else pm
      | _ \<Rightarrow> pm)"

definition disconnect ::
  "('pid, 'addr, 'ch) peer_manager \<Rightarrow> 'pid \<Rightarrow> bool \<Rightarrow> ('pid, 'addr, 'ch) peer_manager" where
  "disconnect pm pid forget_it =
     (case peer (state pm) pid of
        Some (ConnectedPeer p) \<Rightarrow>
          let st = disconnect_peer pid (state pm);
              st' = (if forget_it then forget pid st else st)
          in push_out (Drop pid) (pm\<lparr>state := st'\<rparr>)
      | _ \<Rightarrow> pm)"

definition connect_reserved ::
  "('pid set \<Rightarrow> 'pid list) \<Rightarrow> nat \<Rightarrow> ('pid, 'addr, 'ch) peer_manager \<Rightarrow> ('pid, 'addr, 'ch) peer_manager" where
  "connect_reserved order now pm =
     foldl (connect now) pm (order (get_reserved_peers (Some FilterNotConnected) (state pm)))"

definition connect_best ::
  "nat \<Rightarrow> ('pid, 'addr, 'ch) peer_manager \<Rightarrow> ('pid, 'addr, 'ch) peer_manager" where
  "connect_best now pm =
     (case pick_best (Some (\<lambda>_ pi. conn_state pi = NotConnected)) (state pm) of
        Some pid \<Rightarrow> connect now pm pid
      | None \<Rightarrow> pm)"

definition add_all ::
  "bool \<Rightarrow> bool \<Rightarrow> ('pid::linorder, 'addr) peer_destination list \<Rightarrow> ('pid, 'addr, 'ch) peer_manager
   \<Rightarrow> ('pid, 'addr, 'ch) peer_manager" where
  "add_all reserved boot ps pm =
     pm\<lparr>state := foldl (\<lambda>st p. fst (try_add_peer p reserved boot st)) (state pm) ps\<rparr>"

definition prepare_allocate_connections ::
  "('pid set \<Rightarrow> 'pid list) \<Rightarrow> ('pid::linorder, 'addr, 'ch) peer_manager
   \<Rightarrow> (('pid, 'addr, 'ch) peer_manager \<times> conn_allocation_mode) res" where
  "prepare_allocate_connections order pm =
     res_bind (networking_state (state pm)) (\<lambda>ns.
       Inr (case ns of
              NotBootstrapped boot \<Rightarrow> (add_all False True boot pm, Active)
            | BootInProgress \<Rightarrow> (pm\<lparr>boot_in_progress := True\<rparr>, Active)
            | Bootstrapped \<Rightarrow>
                (if boot_in_progress pm
                 then (foldl (\<lambda>pm pid. disconnect pm pid True) pm
                         (filter_peers order (\<lambda>_ pi. is_boot pi \<and> is_connected (conn_state pi)) (state pm)))
                      \<lparr>boot_in_progress := False\<rparr>
                 else pm, Passive)
            | Saturated \<Rightarrow> (pm, Idle)))"

section \<open>Protocols\<close>

definition policy_allows ::
  "protocol_allocation_policy \<Rightarrow> nat \<Rightarrow> nat \<Rightarrow> bool res" where
  "policy_allows policy enabled connected =
     (case policy of
        Bounded max_conn_percent \<Rightarrow>
          res_bind (checked_div enabled connected) (\<lambda>q. Inr (q < max_conn_percent div 100))
      | MaxPolicy \<Rightarrow> Inr (enabled < connected)
      | Zero \<Rightarrow> Inr False)"

definition allocate_protocol ::
  "('pid, 'addr, 'ch) peer_manager \<Rightarrow> protocol_id \<times> protocol_allocation_policy
   \<Rightarrow> ('pid, 'addr, 'ch) peer_manager res" where
  "allocate_protocol pm entry =
     (let (prot, policy) = entry
      in case get_enabled_peers prot (state pm) of
           None \<Rightarrow> Inr pm
         | Some enabled \<Rightarrow>
             res_bind (policy_allows policy (card enabled) (num_connected_peers (state pm))) (\<lambda>cond.
             if \<not> cond then Inr pm
             else
               (case pick_best (Some (\<lambda>pid pi. pid \<notin> enabled \<and> supports pi prot = Some True)) (state pm) of
                  None \<Rightarrow> Inr pm
                | Some candidate \<Rightarrow>
                    (case peer (state pm) candidate of
                       Some (ConnectedPeer p) \<Rightarrow>
                         Inr (push_out (StartProtocol prot candidate)
                                (pm\<lparr>state := enable_protocol prot candidate (state pm)\<rparr>))
                     | _ \<Rightarrow> Inr pm))))"

definition allocate_protocols ::
  "('pid, 'addr, 'ch) peer_manager \<Rightarrow> ('pid, 'addr, 'ch) peer_manager res" where
  "allocate_protocols pm = res_fold allocate_protocol pm (protocols_allocation (pm_conf pm))"

section \<open>Requests\<close>

definition on_add_peers ::
  "('pid::linorder, 'addr) peer_destination list \<Rightarrow> ('pid, 'addr, 'ch) peer_manager
   \<Rightarrow> ('pid, 'addr, 'ch) peer_manager" where
  "on_add_peers ps pm = add_all False False ps pm"

definition on_get_peers ::
  "nat \<Rightarrow> 'ch \<Rightarrow> ('pid, 'addr, 'ch) peer_manager \<Rightarrow> ('pid, 'addr, 'ch) peer_manager" where
  "on_get_peers limit ch pm =
     pm\<lparr>responses := responses pm @ [(ch, PeersResponse (get_peers limit (state pm)))]\<rparr>"

definition on_add_reserved_peer ::
  "('pid::linorder, 'addr) peer_destination \<Rightarrow> ('pid, 'addr, 'ch) peer_manager
   \<Rightarrow> ('pid, 'addr, 'ch) peer_manager" where
  "on_add_reserved_peer dest pm = add_all True False [dest] pm"

definition on_set_reserved_peers ::
  "('pid set \<Rightarrow> 'pid list) \<Rightarrow> 'pid::linorder set \<Rightarrow> ('pid, 'addr, 'ch) peer_manager
   \<Rightarrow> ('pid, 'addr, 'ch) peer_manager" where
  "on_set_reserved_peers order ps pm =
     (let (st, unknown) = set_reserved_peers order ps (state pm)
      in add_all True False (map PeerId (order unknown)) (pm\<lparr>state := st\<rparr>))"

definition on_report_peer ::
  "'pid::linorder \<Rightarrow> reputation_change \<Rightarrow> ('pid, 'addr, 'ch) peer_manager
   \<Rightarrow> ('pid, 'addr, 'ch) peer_manager res" where
  "on_report_peer pid adjustment pm =
     (case peer (state pm) pid of
        None \<Rightarrow> Inr pm
      | Some p \<Rightarrow>
          let pm1 = (if is_downgrade adjustment
                     then push_out (NotifyPeerPunished pid adjustment) pm else pm)
          in res_bind (adjust_reputation adjustment pid (state pm1)) (\<lambda>st.
             let pm2 = pm1\<lparr>state := st\<rparr>
             in Inr (if is_reputation_acceptable (min_acceptable_reputation (pm_conf pm)) pid st
                     then pm2 else disconnect pm2 pid True)))"

definition on_get_peer_reputation ::
  "'pid \<Rightarrow> 'ch \<Rightarrow> ('pid, 'addr, 'ch) peer_manager \<Rightarrow> ('pid, 'addr, 'ch) peer_manager" where
  "on_get_peer_reputation pid ch pm =
     (case get_reputation pid (state pm) of
        None \<Rightarrow> pm
      | Some rep \<Rightarrow> pm\<lparr>responses := responses pm @ [(ch, ReputationResponse rep)]\<rparr>)"

definition on_set_peer_protocols ::
  "'pid \<Rightarrow> protocol_id list \<Rightarrow> ('pid, 'addr, 'ch) peer_manager \<Rightarrow> ('pid, 'addr, 'ch) peer_manager" where
  "on_set_peer_protocols pid ps pm =
     (if peer (state pm) pid = None then pm else pm\<lparr>state := set_protocols ps pid (state pm)\<rparr>)"

section \<open>Notifications\<close>

definition on_incoming_connection ::
  "'pid::linorder \<Rightarrow> nat \<Rightarrow> ('pid, 'addr, 'ch) peer_manager \<Rightarrow> ('pid, 'addr, 'ch) peer_manager" where
  "on_incoming_connection pid conn_id pm =
     (let accept = (\<lambda>st.
        let (st', ok) = try_accept_connection pid st
        in push_out (if ok then AcceptIncomingConnection pid conn_id else Reject pid conn_id)
             (pm\<lparr>state := st'\<rparr>))
      in case peer (state pm) pid of
           Some (NotConnectedPeer p) \<Rightarrow>
             (case get_reputation pid (state pm) of
                Some rep \<Rightarrow>
                  if min_reputation (pm_conf pm) \<le> rep then accept (state pm)
                  else push_out (Reject pid conn_id) pm
              | None \<Rightarrow> pm)
         | Some (ConnectedPeer p) \<Rightarrow> push_out (Reject pid conn_id) pm
         | None \<Rightarrow>
             let (st, added) = try_add_peer (PeerId pid) False False (state pm)
             in if added then accept st else push_out (Reject pid conn_id) (pm\<lparr>state := st\<rparr>))"

definition on_connection_established ::
  "'pid \<Rightarrow> nat \<Rightarrow> ('pid, 'addr, 'ch) peer_manager \<Rightarrow> ('pid, 'addr, 'ch) peer_manager" where
  "on_connection_established pid conn_id pm =
     (case peer (state pm) pid of
        Some (ConnectedPeer p) \<Rightarrow> pm\<lparr>state := fst (confirm_connection pid (state pm))\<rparr>
      | _ \<Rightarrow> pm)"

definition on_connection_lost ::
  "nat \<Rightarrow> 'pid::linorder \<Rightarrow> connection_loss_reason \<Rightarrow> ('pid, 'addr, 'ch) peer_manager
   \<Rightarrow> ('pid, 'addr, 'ch) peer_manager res" where
  "on_connection_lost now pid reason pm =
     (case peer (state pm) pid of
        Some (ConnectedPeer p) \<Rightarrow>
          let st = disconnect_peer pid (state pm);
              reserved = (case peers st pid of Some pi \<Rightarrow> is_reserved pi | None \<Rightarrow> False)
          in (case reason of
                ResetByPeer \<Rightarrow>
                  Inr (pm\<lparr>state :=
                    (if reserved then st
                     else set_backoff_until (now + conn_reset_outbound_backoff (pm_conf pm)) pid st)\<rparr>)
              | Reset SyncChannelExhausted \<Rightarrow> on_report_peer pid TooSlow (pm\<lparr>state := st\<rparr>)
              | Reset UnacceptablePeer \<Rightarrow> Inr (pm\<lparr>state := st\<rparr>)
              | UnknownReason \<Rightarrow> Inr (pm\<lparr>state := st\<rparr>))
      | _ \<Rightarrow> Inr pm)"

definition on_dial_failure ::
  "'pid::linorder \<Rightarrow> ('pid, 'addr, 'ch) peer_manager \<Rightarrow> ('pid, 'addr, 'ch) peer_manager res" where
  "on_dial_failure pid pm =
     (case peer (state pm) pid of
        Some (ConnectedPeer p) \<Rightarrow> on_report_peer pid NoResponse pm
      | _ \<Rightarrow> Inr pm)"

definition on_force_enabled ::
  "'pid \<Rightarrow> protocol_id \<Rightarrow> ('pid, 'addr, 'ch) peer_manager \<Rightarrow> ('pid, 'addr, 'ch) peer_manager" where
  "on_force_enabled pid prot pm =
     (case peer (state pm) pid of
        Some (ConnectedPeer p) \<Rightarrow> pm\<lparr>state := enable_protocol prot pid (state pm)\<rparr>
      | _ \<Rightarrow> pm)"

section \<open>The stream\<close>

fun handle_input ::
  "('pid set \<Rightarrow> 'pid list) \<Rightarrow> nat \<Rightarrow> ('pid::linorder, 'addr, 'ch) peer_manager_in
   \<Rightarrow> ('pid, 'addr, 'ch) peer_manager \<Rightarrow> ('pid, 'addr, 'ch) peer_manager res" where
  "handle_input order now (Notification (IncomingConnection pid c)) pm =
     Inr (on_incoming_connection pid c pm)"
| "handle_input order now (Notification (ConnectionEstablished pid c)) pm =
     Inr (on_connection_established pid c pm)"
| "handle_input order now (Notification (ConnectionLost pid reason)) pm =
     on_connection_lost now pid reason pm"
| "handle_input order now (Notification (DialFailure pid)) pm = on_dial_failure pid pm"
| "handle_input order now (Notification (ForceEnabled pid prot)) pm =
     Inr (on_force_enabled pid prot pm)"
| "handle_input order now (Request (AddPeers ps)) pm = Inr (on_add_peers ps pm)"
| "handle_input order now (Request (GetPeers limit ch)) pm = Inr (on_get_peers limit ch pm)"
| "handle_input order now (Request (ReportPeer pid change)) pm = on_report_peer pid change pm"
| "handle_input order now (Request (AddReservedPeer dest)) pm = Inr (on_add_reserved_peer dest pm)"
| "handle_input order now (Request (GetPeerReputation pid ch)) pm =
     Inr (on_get_peer_reputation pid ch pm)"
| "handle_input order now (Request (SetReservedPeers ps)) pm =
     Inr (on_set_reserved_peers order ps pm)"
| "handle_input order now (Request (SetProtocols pid ps)) pm =
     Inr (on_set_peer_protocols pid ps pm)"

definition allocate_connections ::
  "('pid set \<Rightarrow> 'pid list) \<Rightarrow> nat \<Rightarrow> ('pid::linorder, 'addr, 'ch) peer_manager
   \<Rightarrow> ('pid, 'addr, 'ch) peer_manager res" where
  "allocate_connections order now pm =
     res_bind (prepare_allocate_connections order (connect_reserved order now pm)) (\<lambda>(pm', mode).
       Inr (case mode of
              Active \<Rightarrow> (connect_best now pm')\<lparr>next_conn_alloc := active_conn_alloc_interval\<rparr>
            | Passive \<Rightarrow> (connect_best now pm')\<lparr>next_conn_alloc := conn_alloc_interval (pm_conf pm')\<rparr>
            | Idle \<Rightarrow> pm'\<lparr>next_conn_alloc := conn_alloc_interval (pm_conf pm')\<rparr>))"

definition poll_timers ::
  "('pid set \<Rightarrow> 'pid list) \<Rightarrow> nat \<Rightarrow> bool \<Rightarrow> bool \<Rightarrow> ('pid::linorder, 'addr, 'ch) peer_manager
   \<Rightarrow> ('pid, 'addr, 'ch) peer_manager res" where
  "poll_timers order now conn_ready prot_ready pm =
     res_bind (if conn_ready then allocate_connections order now pm else Inr pm) (\<lambda>pm1.
       if prot_ready
       then res_bind (allocate_protocols pm1) (\<lambda>pm2.
              Inr (pm2\<lparr>next_prot_alloc := prot_alloc_interval (pm_conf pm2)\<rparr>))
       else Inr pm1)"

text \<open>
  \<open>poll_next\<close>: the next command (\<open>Some\<close>), or \<open>None\<close> for \<open>Poll::Pending\<close>. Every turn of
  the loop that does not return takes a message from the mailbox.
\<close>

fun poll_loop ::
  "('pid set \<Rightarrow> 'pid list) \<Rightarrow> nat \<Rightarrow> bool \<Rightarrow> bool \<Rightarrow> ('pid::linorder, 'addr, 'ch) peer_manager_in list
   \<Rightarrow> ('pid, 'addr, 'ch) peer_manager
   \<Rightarrow> (('pid, 'addr, 'ch) peer_manager \<times> ('pid, 'addr) peer_manager_out option) res" where
  "poll_loop order now conn_ready prot_ready [] pm =
     (case out_queue pm of
        out # rest \<Rightarrow> Inr (pm\<lparr>mailbox := [], out_queue := rest\<rparr>, Some out)
      | [] \<Rightarrow> res_bind (poll_timers order now conn_ready prot_ready (pm\<lparr>mailbox := []\<rparr>)) (\<lambda>pm'.
                Inr (pm', None)))"
| "poll_loop order now conn_ready prot_ready (m # ms) pm =
     (case out_queue pm of
        out # rest \<Rightarrow> Inr (pm\<lparr>mailbox := m # ms, out_queue := rest\<rparr>, Some out)
      | [] \<Rightarrow> res_bind (handle_input order now m (pm\<lparr>mailbox := ms\<rparr>)) (\<lambda>pm'.
                poll_loop order now conn_ready prot_ready ms pm'))"

definition poll_next ::
  "('pid set \<Rightarrow> 'pid list) \<Rightarrow> nat \<Rightarrow> bool \<Rightarrow> bool \<Rightarrow> ('pid::linorder, 'addr, 'ch) peer_manager
   \<Rightarrow> (('pid, 'addr, 'ch) peer_manager \<times> ('pid, 'addr) peer_manager_out option) res" where
  "poll_next order now conn_ready prot_ready pm =
     poll_loop order now conn_ready prot_ready (mailbox pm) pm"

end
