(* ===== verification/Peers_Correct.thy ===== *)
theory Peers_Correct
  imports Peer_Manager
begin

text \<open>
  Correctness of the peer repository and the peer manager: the invariant of the repository
  and its preservation by every operation and handler, the manager as a machine driven by
  messages and polls, and the properties of the handlers.
\<close>

section \<open>Invariant of the repository\<close>

definition repo_inv :: "('pid::linorder, 'addr) peer_repo \<Rightarrow> bool" where
  "repo_inv r \<longleftrightarrow>
     finite (dom (peers r)) \<and> sorted (sorted_peers r) \<and> distinct (sorted_peers r) \<and>
     (\<forall>pid rep. (pid, rep) \<in> set (sorted_peers r) \<longleftrightarrow> map_option reputation (peers r pid) = Some rep) \<and>
     (\<forall>pid. enabled_connections (peer_index r) pid \<noteq> None \<longleftrightarrow>
        (\<exists>pi c. peers r pid = Some pi \<and> conn_state pi = Connected (Outbound c))) \<and>
     num_inbound (peer_index r) = 0 \<and> num_outbound (peer_index r) = 0 \<and> boot_peers (peer_index r) = {}"

lemma repo_invD:
  assumes "repo_inv r"
  shows "finite (dom (peers r))" "sorted (sorted_peers r)" "distinct (sorted_peers r)"
    "(pid, rep) \<in> set (sorted_peers r) \<longleftrightarrow> map_option reputation (peers r pid) = Some rep"
    "enabled_connections (peer_index r) pid \<noteq> None \<longleftrightarrow>
        (\<exists>pi c. peers r pid = Some pi \<and> conn_state pi = Connected (Outbound c))"
    "num_inbound (peer_index r) = 0" "num_outbound (peer_index r) = 0" "boot_peers (peer_index r) = {}"
  using assms unfolding repo_inv_def by blast+

lemma dom_modify [simp]: "dom (peers (modify_info f pid r)) = dom (peers r)"
  by (auto simp: modify_info_def dom_def split: if_splits)

lemma new_repo_inv: "repo_inv (new_repo nc boot)"
  by (simp add: repo_inv_def new_repo_def new_index_def)

lemma modify_info_inv:
  assumes inv: "repo_inv r" and rep: "\<And>pi. reputation (f pi) = reputation pi"
    and st: "\<And>pi. peers r pid = Some pi \<Longrightarrow> conn_state (f pi) = conn_state pi"
  shows "repo_inv (modify_info f pid r)"
proof -
  have "map_option reputation (peers (modify_info f pid r) q) = map_option reputation (peers r q)" for q
    using rep by (cases "peers r pid") (auto simp: modify_info_def option.map_comp comp_def)
  moreover have "(\<exists>pi c. peers (modify_info f pid r) q = Some pi \<and> conn_state pi = Connected (Outbound c)) \<longleftrightarrow>
      (\<exists>pi c. peers r q = Some pi \<and> conn_state pi = Connected (Outbound c))" for q
    using st by (cases "peers r pid") (auto simp: modify_info_def)
  ultimately show ?thesis
    using inv unfolding repo_inv_def by (simp add: modify_info_def [of f pid r])
qed

lemma connect_peer_inv:
  assumes inv: "repo_inv r" and p: "peers r pid \<noteq> None"
  shows "repo_inv (connect_peer pid r)"
proof -
  let ?r = "connect_peer pid r"
  have "map_option reputation (peers ?r q) = map_option reputation (peers r q)" for q
    by (auto simp: connect_peer_def force_connect_def modify_info_def option.map_comp comp_def)
  moreover have "enabled_connections (peer_index ?r) q \<noteq> None \<longleftrightarrow>
      (\<exists>pi c. peers ?r q = Some pi \<and> conn_state pi = Connected (Outbound c))" for q
    using repo_invD(5) [OF inv, of q] p
    by (auto simp: connect_peer_def force_connect_def modify_info_def add_outgoing_def)
  moreover have "dom (peers ?r) = dom (peers r)" by (simp add: connect_peer_def force_connect_def)
  ultimately show ?thesis
    using inv unfolding repo_inv_def
    by (simp add: connect_peer_def [of pid r] force_connect_def modify_info_def add_outgoing_def)
qed

lemma disconnect_peer_inv:
  assumes inv: "repo_inv r"
  shows "repo_inv (disconnect_peer pid r)"
proof (cases "peers r pid")
  case None
  then show ?thesis using inv by (simp add: disconnect_peer_def)
next
  case (Some pi)
  let ?r = "disconnect_peer pid r"
  have fields: "peers ?r = (peers r)(pid \<mapsto> pi\<lparr>conn_state := NotConnected\<rparr>)"
    "sorted_peers ?r = sorted_peers r"
    "num_inbound (peer_index ?r) = 0" "num_outbound (peer_index ?r) = 0" "boot_peers (peer_index ?r) = {}"
    using Some repo_invD(6-8) [OF inv]
    by (auto simp: disconnect_peer_def modify_info_def drop_incoming_def drop_outgoing_def Let_def
        split: connection_state.splits connection_direction.splits)
  have en: "enabled_connections (peer_index ?r) = (enabled_connections (peer_index r))(pid := None)"
    using Some repo_invD(5) [OF inv, of pid]
    by (auto simp: disconnect_peer_def modify_info_def drop_incoming_def drop_outgoing_def Let_def
        split: connection_state.splits connection_direction.splits)
  have "enabled_connections (peer_index ?r) q \<noteq> None \<longleftrightarrow>
      (\<exists>pi c. peers ?r q = Some pi \<and> conn_state pi = Connected (Outbound c))" for q
    using repo_invD(5) [OF inv, of q] by (auto simp: en fields)
  moreover have "map_option reputation (peers ?r q) = map_option reputation (peers r q)" for q
    using Some by (simp add: fields)
  ultimately show ?thesis using inv fields unfolding repo_inv_def by simp
qed

lemma forget_inv:
  assumes inv: "repo_inv r" and nc: "\<And>pi. peers r pid = Some pi \<Longrightarrow> conn_state pi = NotConnected"
  shows "repo_inv (forget pid r)"
proof (cases "peers r pid")
  case None
  then show ?thesis using inv by (simp add: forget_def)
next
  case (Some pi)
  note D = repo_invD [OF inv]
  have "(q, rep) \<in> set (remove1 (pid, reputation pi) (sorted_peers r)) \<longleftrightarrow>
      map_option reputation (((peers r)(pid := None)) q) = Some rep" for q rep
    using D(3,4) Some by auto
  moreover have "enabled_connections (peer_index r) q \<noteq> None \<longleftrightarrow>
      (\<exists>pi c. ((peers r)(pid := None)) q = Some pi \<and> conn_state pi = Connected (Outbound c))" for q
    using D(5) [of q] nc Some by auto
  ultimately show ?thesis
    using Some D(1,2,3,6,7,8) by (simp add: forget_def repo_inv_def sorted_remove1)
qed

lemma adjust_reputation_inv:
  assumes inv: "repo_inv r" and adj: "adjust_reputation change pid r = Inr r'"
  shows "repo_inv r'"
proof (cases "peers r pid")
  case None
  then show ?thesis using assms by (simp add: adjust_reputation_def)
next
  case (Some pi)
  note D = repo_invD [OF inv]
  obtain new where r': "r' = (modify_info (\<lambda>pi. pi\<lparr>reputation := new\<rparr>) pid r)
      \<lparr>sorted_peers := insort_insert (pid, new) (remove1 (pid, reputation pi) (sorted_peers r))\<rparr>"
    using adj Some by (auto simp: adjust_reputation_def res_simps)
  have "(q, rep) \<in> set (sorted_peers r') \<longleftrightarrow> map_option reputation (peers r' q) = Some rep" for q rep
    using D(3,4) Some by (auto simp: r' modify_info_def set_insort_insert)
  moreover have "enabled_connections (peer_index r') q \<noteq> None \<longleftrightarrow>
      (\<exists>pi c. peers r' q = Some pi \<and> conn_state pi = Connected (Outbound c))" for q
    using D(5) [of q] Some by (auto simp: r' modify_info_def)
  moreover have "dom (peers r') = dom (peers r)" using Some by (auto simp: r' modify_info_def)
  ultimately show ?thesis
    using D unfolding repo_inv_def
    by (simp add: r' modify_info_def sorted_insort_insert distinct_insort_insert sorted_remove1)
qed

lemma try_add_peer_inv:
  assumes inv: "repo_inv r"
  shows "repo_inv (fst (try_add_peer dest reserved boot r))"
proof (cases "peers r (dest_peer_id dest) = None")
  case False
  then show ?thesis using inv by (auto simp: try_add_peer_def Let_def)
next
  case True
  note D = repo_invD [OF inv]
  let ?r = "fst (try_add_peer dest reserved boot r)"
  have "(q, rep) \<in> set (sorted_peers ?r) \<longleftrightarrow> map_option reputation (peers ?r q) = Some rep" for q rep
    using D(4) [of q rep] True
    by (auto simp: try_add_peer_def set_insort_insert new_peer_info_def Let_def)
  moreover have "enabled_connections (peer_index ?r) q \<noteq> None \<longleftrightarrow>
      (\<exists>pi c. peers ?r q = Some pi \<and> conn_state pi = Connected (Outbound c))" for q
    using D(5) [of q] True by (auto simp: try_add_peer_def reserve_peer_def new_peer_info_def Let_def)
  ultimately show ?thesis
    using D True unfolding repo_inv_def
    by (simp add: try_add_peer_def [of dest reserved boot r] reserve_peer_def sorted_insort_insert
        distinct_insort_insert Let_def)
qed

lemma index_update_inv:
  assumes "repo_inv r" "enabled_connections ix = enabled_connections (peer_index r)"
    "num_inbound ix = num_inbound (peer_index r)" "num_outbound ix = num_outbound (peer_index r)"
    "boot_peers ix = boot_peers (peer_index r)"
  shows "repo_inv (r\<lparr>peer_index := ix\<rparr>)"
  using assms unfolding repo_inv_def by simp

lemma set_reserved_inv: "repo_inv r \<Longrightarrow> repo_inv (set_reserved b pid r)"
  unfolding set_reserved_def Let_def
  by (rule modify_info_inv) (auto intro!: index_update_inv simp: reserve_peer_def drop_reserved_peer_def)

lemma mark_reserved_inv: "repo_inv r \<Longrightarrow> repo_inv (mark_reserved pids r)"
  by (induction pids r rule: mark_reserved.induct) (simp_all add: set_reserved_inv)

lemma set_reserved_peers_inv: "repo_inv r \<Longrightarrow> repo_inv (fst (set_reserved_peers order ps r))"
  by (auto simp: set_reserved_peers_def Let_def update_reserved_set_def
      intro!: index_update_inv mark_reserved_inv)

lemma enable_protocol_inv: "repo_inv r \<Longrightarrow> repo_inv (enable_protocol prot pid r)"
  by (auto simp: enable_protocol_def Let_def intro!: index_update_inv)

lemma force_connect_inv:
  assumes inv: "repo_inv r" and nc: "\<And>pi. peers r pid = Some pi \<Longrightarrow> conn_state pi = NotConnected"
  shows "repo_inv (force_connect Inbound pid r)"
proof -
  let ?r = "force_connect Inbound pid r"
  note D = repo_invD [OF inv]
  have "map_option reputation (peers ?r q) = map_option reputation (peers r q)" for q
    by (auto simp: force_connect_def modify_info_def option.map_comp comp_def)
  moreover have "enabled_connections (peer_index r) q \<noteq> None \<longleftrightarrow>
      (\<exists>pi c. peers ?r q = Some pi \<and> conn_state pi = Connected (Outbound c))" for q
    using D(5) [of q] nc by (cases "peers r pid") (auto simp: force_connect_def modify_info_def)
  moreover have "dom (peers ?r) = dom (peers r)" by (simp add: force_connect_def)
  moreover have "peer_index ?r = peer_index r" "sorted_peers ?r = sorted_peers r"
    by (simp_all add: force_connect_def modify_info_def)
  ultimately show ?thesis using D(1-4,6-8) unfolding repo_inv_def by simp
qed

lemma accept_inv:
  assumes "repo_inv r" "\<And>pi. peers r pid = Some pi \<Longrightarrow> conn_state pi = NotConnected"
  shows "repo_inv (fst (try_accept_connection pid r))"
  using assms by (auto simp: try_accept_connection_def intro: force_connect_inv)

lemma confirm_connection_inv:
  assumes inv: "repo_inv r"
  shows "repo_inv (fst (confirm_connection pid r))"
proof (cases "map_option conn_state (peers r pid) = Some (Connected (Outbound False))")
  case False
  then have "fst (confirm_connection pid r) = r"
    by (auto simp: confirm_connection_def split: option.splits connection_state.splits
        connection_direction.splits bool.splits)
  then show ?thesis using inv by simp
next
  case True
  then obtain pi where pi: "peers r pid = Some pi" "conn_state pi = Connected (Outbound False)" by auto
  let ?r = "fst (confirm_connection pid r)"
  note D = repo_invD [OF inv]
  have r: "?r = modify_info (\<lambda>pi. pi\<lparr>conn_state := Connected (Outbound True)\<rparr>) pid r"
    using pi by (simp add: confirm_connection_def)
  have "map_option reputation (peers ?r q) = map_option reputation (peers r q)" for q
    using pi by (simp add: r modify_info_def)
  moreover have "enabled_connections (peer_index r) q \<noteq> None \<longleftrightarrow>
      (\<exists>pi c. peers ?r q = Some pi \<and> conn_state pi = Connected (Outbound c))" for q
    using D(5) [of q] pi by (auto simp: r modify_info_def)
  moreover have "dom (peers ?r) = dom (peers r)" "peer_index ?r = peer_index r" "sorted_peers ?r = sorted_peers r"
    using pi by (auto simp: r modify_info_def)
  ultimately show ?thesis using D(1-4,6-8) unfolding repo_inv_def by simp
qed

section \<open>Invariant of the manager\<close>

lemma peer_cases:
  "peer r pid = None \<longleftrightarrow> peers r pid = None"
  "peer r pid = Some (NotConnectedPeer p) \<longleftrightarrow> p = pid \<and> (\<exists>pi. peers r pid = Some pi \<and> conn_state pi = NotConnected)"
  "peer r pid = Some (ConnectedPeer p) \<longleftrightarrow> p = pid \<and> (\<exists>pi d. peers r pid = Some pi \<and> conn_state pi = Connected d)"
  by (auto simp: peer_def split: option.splits connection_state.splits)

lemma state_push_out [simp]: "state (push_out out pm) = state pm"
  by (simp add: push_out_def)

abbreviation pm_inv :: "('pid::linorder, 'addr, 'ch) peer_manager \<Rightarrow> bool" where
  "pm_inv pm \<equiv> repo_inv (state pm)"

lemma connect_inv: "pm_inv pm \<Longrightarrow> pm_inv (connect now pm pid)"
  by (auto simp: connect_def Let_def peer_cases split: option.splits peer_in_state.splits
      intro!: connect_peer_inv)

lemma disconnected_state:
  "peers (disconnect_peer pid r) pid = Some pi \<Longrightarrow> conn_state pi = NotConnected"
  by (auto simp: disconnect_peer_def modify_info_def Let_def split: option.splits)

lemma disconnect_inv: "pm_inv pm \<Longrightarrow> pm_inv (disconnect pm pid b)"
  by (auto simp: disconnect_def Let_def split: option.splits peer_in_state.splits
      intro!: forget_inv disconnect_peer_inv dest: disconnected_state)

lemma foldl_inv: "I s \<Longrightarrow> (\<And>s x. I s \<Longrightarrow> I (f s x)) \<Longrightarrow> I (foldl f s xs)"
  by (induction xs arbitrary: s) auto

lemma add_all_inv: "pm_inv pm \<Longrightarrow> pm_inv (add_all reserved boot ps pm)"
  unfolding add_all_def by (auto intro!: foldl_inv [where I = repo_inv] try_add_peer_inv)

lemma connect_reserved_inv: "pm_inv pm \<Longrightarrow> pm_inv (connect_reserved order now pm)"
  unfolding connect_reserved_def by (rule foldl_inv) (auto intro: connect_inv)

lemma connect_best_inv: "pm_inv pm \<Longrightarrow> pm_inv (connect_best now pm)"
  by (auto simp: connect_best_def intro: connect_inv split: option.splits)

lemma prepare_inv:
  assumes "pm_inv pm" "prepare_allocate_connections order pm = Inr (pm', mode)"
  shows "pm_inv pm'"
proof -
  have "pm_inv (foldl (\<lambda>pm pid. disconnect pm pid True) pm pids)" for pids
    using assms(1) by (rule foldl_inv) (rule disconnect_inv)
  moreover obtain ns where "networking_state (state pm) = Inr ns"
    using assms(2) by (auto simp: prepare_allocate_connections_def res_simps)
  ultimately show ?thesis
    using assms by (cases ns) (auto simp: prepare_allocate_connections_def add_all_inv split: if_splits)
qed

lemma allocate_protocol_inv: "pm_inv pm \<Longrightarrow> allocate_protocol pm entry = Inr pm' \<Longrightarrow> pm_inv pm'"
  by (auto simp: allocate_protocol_def res_simps split: option.splits if_splits prod.splits
      peer_in_state.splits intro!: enable_protocol_inv)

lemma on_report_peer_inv:
  assumes "pm_inv pm" "on_report_peer pid adj pm = Inr pm'"
  shows "pm_inv pm'"
proof (cases "peer (state pm) pid")
  case None
  then show ?thesis using assms by (simp add: on_report_peer_def)
next
  case (Some p)
  then obtain st pm1 where "adjust_reputation adj pid (state pm) = Inr st"
    and "pm' = pm1\<lparr>state := st\<rparr> \<or> pm' = disconnect (pm1\<lparr>state := st\<rparr>) pid True"
    using assms(2) by (auto simp: on_report_peer_def Let_def res_simps split: if_splits)
  then show ?thesis
    using adjust_reputation_inv [OF assms(1)] disconnect_inv [of "pm1\<lparr>state := st\<rparr>"] by auto
qed

lemma on_connection_lost_inv:
  assumes "pm_inv pm" "on_connection_lost now pid reason pm = Inr pm'"
  shows "pm_inv pm'"
proof -
  let ?st = "disconnect_peer pid (state pm)"
  have st: "repo_inv ?st" "repo_inv (set_backoff_until t pid ?st)" for t
    using disconnect_peer_inv [OF assms(1)]
    by (simp_all add: set_backoff_until_def modify_info_inv)
  then show ?thesis
    using assms on_report_peer_inv [of "pm\<lparr>state := ?st\<rparr>" pid TooSlow pm']
    by (auto simp: on_connection_lost_def Let_def
        split: option.splits peer_in_state.splits connection_loss_reason.splits conn_handler_error.splits if_splits)
qed

lemma on_incoming_connection_inv: "pm_inv pm \<Longrightarrow> pm_inv (on_incoming_connection pid c pm)"
proof -
  assume inv: "pm_inv pm"
  show ?thesis
  proof (cases "peer (state pm) pid")
    case None
    let ?st = "fst (try_add_peer (PeerId pid) False False (state pm))"
    have st: "repo_inv ?st" using inv by (rule try_add_peer_inv)
    moreover have "conn_state pi = NotConnected" if "peers ?st pid = Some pi" for pi
      using that None by (auto simp: peer_cases try_add_peer_def new_peer_info_def)
    ultimately have "repo_inv (fst (try_accept_connection pid ?st))" by (rule accept_inv)
    then show ?thesis
      using None st by (simp add: on_incoming_connection_def Let_def split_beta)
  next
    case (Some p)
    show ?thesis
    proof (cases p)
      case (ConnectedPeer q)
      then show ?thesis using Some inv by (simp add: on_incoming_connection_def)
    next
      case (NotConnectedPeer q)
      then have "repo_inv (fst (try_accept_connection pid (state pm)))"
        using Some by (intro accept_inv inv) (auto simp: peer_cases)
      then show ?thesis
        using Some NotConnectedPeer inv
        by (auto simp: on_incoming_connection_def Let_def split: prod.splits option.splits if_splits)
    qed
  qed
qed

lemma on_set_reserved_peers_inv: "pm_inv pm \<Longrightarrow> pm_inv (on_set_reserved_peers order ps pm)"
proof -
  assume inv: "pm_inv pm"
  obtain st unknown where s: "set_reserved_peers order ps (state pm) = (st, unknown)" by fastforce
  have "repo_inv st" using set_reserved_peers_inv [OF inv, of order ps] s by simp
  then show ?thesis using s by (simp add: on_set_reserved_peers_def add_all_inv)
qed

lemma handle_input_inv:
  assumes "pm_inv pm" "handle_input order now m pm = Inr pm'"
  shows "pm_inv pm'"
  using assms
proof (induction order now m pm rule: handle_input.induct)
  case (2 order now pid c pm)
  then show ?case
    by (auto simp: on_connection_established_def confirm_connection_inv split: option.splits peer_in_state.splits)
next
  case (4 order now pid pm)
  then show ?case
    by (auto simp: on_dial_failure_def split: option.splits peer_in_state.splits intro: on_report_peer_inv)
next
  case (5 order now pid prot pm)
  then show ?case
    by (auto simp: on_force_enabled_def enable_protocol_inv split: option.splits peer_in_state.splits)
next
  case (10 order now pid ch pm)
  then show ?case by (auto simp: on_get_peer_reputation_def split: option.splits)
next
  case (12 order now pid ps pm)
  then show ?case
    by (auto simp: on_set_peer_protocols_def set_protocols_def split: if_splits intro!: modify_info_inv)
qed (auto simp: on_add_peers_def on_get_peers_def on_add_reserved_peer_def
    intro: on_incoming_connection_inv on_connection_lost_inv add_all_inv on_report_peer_inv
      on_set_reserved_peers_inv)

lemma poll_timers_inv:
  assumes inv: "pm_inv pm" and poll: "poll_timers order now cr pr pm = Inr pm'"
  shows "pm_inv pm'"
proof -
  obtain pm1 where pm1: "(if cr then allocate_connections order now pm else Inr pm) = Inr pm1"
    using poll by (auto simp: poll_timers_def res_bind_eq_Inr)
  have inv1: "pm_inv pm1"
  proof (cases cr)
    case True
    then obtain pm0 mode where p: "prepare_allocate_connections order (connect_reserved order now pm) = Inr (pm0, mode)"
      using pm1 by (auto simp: allocate_connections_def res_bind_eq_Inr)
    then have "state pm1 = state pm0 \<or> state pm1 = state (connect_best now pm0)"
      using pm1 True by (cases mode) (auto simp: allocate_connections_def)
    then show ?thesis
      using prepare_inv [OF connect_reserved_inv [OF inv] p] connect_best_inv [of pm0 now] by auto
  next
    case False
    then show ?thesis using pm1 inv by simp
  qed
  show ?thesis
  proof (cases pr)
    case True
    then obtain pm2 where "allocate_protocols pm1 = Inr pm2" "state pm' = state pm2"
      using poll pm1 by (auto simp: poll_timers_def res_bind_eq_Inr)
    moreover have "pm_inv pm2"
      using res_fold_invariant [where I = pm_inv, OF inv1 _ calculation(1) [unfolded allocate_protocols_def]]
        allocate_protocol_inv by blast
    ultimately show ?thesis by simp
  next
    case False
    then show ?thesis using poll pm1 inv1 by (simp add: poll_timers_def)
  qed
qed

lemma poll_loop_inv:
  "pm_inv pm \<Longrightarrow> poll_loop order now cr pr ms pm = Inr (pm', r) \<Longrightarrow> pm_inv pm'"
proof (induction ms arbitrary: pm)
  case Nil
  then show ?case
    using poll_timers_inv [of "pm\<lparr>mailbox := []\<rparr>" order now cr pr pm']
    by (auto simp: res_simps split: list.splits)
next
  case (Cons m ms)
  show ?case
  proof (cases "out_queue pm")
    case Nil
    then obtain pm1 where "handle_input order now m (pm\<lparr>mailbox := ms\<rparr>) = Inr pm1"
      "poll_loop order now cr pr ms pm1 = Inr (pm', r)"
      using Cons.prems(2) by (auto simp: res_simps)
    then show ?thesis
      using Cons.IH [of pm1] handle_input_inv [of "pm\<lparr>mailbox := ms\<rparr>" order now m pm1] Cons.prems(1) by simp
  next
    case (Cons out rest)
    then show ?thesis using Cons.prems by auto
  qed
qed

section \<open>The manager as a machine\<close>

datatype ('pid, 'addr, 'ch) manager_event =
    Send "('pid, 'addr, 'ch) peer_manager_in"
  | PollNext nat bool bool

fun manager_step ::
  "('pid set \<Rightarrow> 'pid list) \<Rightarrow> ('pid::linorder, 'addr, 'ch) peer_manager
   \<Rightarrow> ('pid, 'addr, 'ch) manager_event \<Rightarrow> ('pid, 'addr, 'ch) peer_manager res" where
  "manager_step order pm (Send m) = Inr (mailbox_send m pm)"
| "manager_step order pm (PollNext now cr pr) =
     res_bind (poll_next order now cr pr pm) (\<lambda>(pm', r). Inr pm')"

interpretation manager: event_machine "manager_step order" pm_inv "\<lambda>e. True" for order
proof
  fix s s' :: "('a::linorder, 'b, 'c) peer_manager" and e
  assume "pm_inv s" "manager_step order s e = Inr s'"
  then show "pm_inv s'"
    by (cases e) (auto simp: mailbox_send_def poll_next_def res_simps intro: poll_loop_inv)
qed


section \<open>Lemmas for the properties\<close>

lemma pick_best_in_Some:
  assumes "pick_best_in ps (Some f) xs = Some pid"
  shows "\<exists>pi rep. ps pid = Some pi \<and> f pid pi \<and> (pid, rep) \<in> set xs \<and>
    (sorted xs \<longrightarrow> (\<forall>q qi s. (q, s) \<in> set xs \<longrightarrow> ps q = Some qi \<longrightarrow> f q qi \<longrightarrow> pid \<le> q))"
  using assms
proof (induction xs)
  case (Cons x xs)
  obtain q s where x: "x = (q, s)" by fastforce
  show ?case
  proof (cases "\<exists>qi. ps q = Some qi \<and> f q qi")
    case True
    then have "pid = q" using Cons.prems x by auto
    then show ?thesis using True by (fastforce simp: x)
  next
    case False
    then have "pick_best_in ps (Some f) xs = Some pid"
      using Cons.prems x by (auto split: option.splits if_splits)
    from Cons.IH [OF this] False show ?thesis by (fastforce simp: x)
  qed
qed simp

lemma pick_best_in_None:
  "pick_best_in ps (Some f) xs = None \<longleftrightarrow> (\<forall>q s qi. (q, s) \<in> set xs \<longrightarrow> ps q = Some qi \<longrightarrow> \<not> f q qi)"
  by (induction xs) (auto split: option.splits if_splits)

lemma mark_reserved_peers:
  "peers (mark_reserved pids r) q =
     map_option (\<lambda>pi. if q \<in> set pids then pi\<lparr>is_reserved := True\<rparr> else pi) (peers r q)"
proof (induction pids r rule: mark_reserved.induct)
  case (1 r)
  then show ?case by (cases "peers r q") auto
next
  case (2 pid pids r)
  then show ?case
    by (cases "peers r q"; cases "peers r pid")
      (auto simp: peer_cases set_reserved_def modify_info_def Let_def)
qed

lemma add_reserved_fold:
  fixes r :: "('pid::linorder, 'addr) peer_repo"
  assumes "distinct pids" "\<And>p. p \<in> set pids \<Longrightarrow> peers r p = None"
  defines "r' \<equiv> foldl (\<lambda>st p. fst (try_add_peer p True False st)) r (map PeerId pids)"
  shows "reserved_peers (peer_index r') = reserved_peers (peer_index r) \<union> set pids \<and>
    (\<forall>p. peers r' p = (if p \<in> set pids then Some (new_peer_info None True False) else peers r p))"
  using assms(1,2) unfolding r'_def
proof (induction pids arbitrary: r)
  case (Cons p pids)
  let ?r = "fst (try_add_peer (PeerId p) True False r)"
  have r: "peers ?r = (peers r)(p \<mapsto> new_peer_info None True False)"
    "reserved_peers (peer_index ?r) = insert p (reserved_peers (peer_index r))"
    using Cons.prems(2) [of p] by (simp_all add: try_add_peer_def reserve_peer_def)
  have "peers ?r q = None" if "q \<in> set pids" for q
    using Cons.prems that by (auto simp: r)
  from Cons.IH [OF _ this] Cons.prems(1) show ?case by (auto simp: r)
qed simp

lemma mailbox_frame [simp]:
  "mailbox (push_out out pm) = mailbox pm" "mailbox (connect now pm pid) = mailbox pm"
  "mailbox (disconnect pm pid b) = mailbox pm"
  by (auto simp: push_out_def connect_def disconnect_def Let_def
      split: option.splits peer_in_state.splits)

lemma mailbox_add_all [simp]: "mailbox (add_all a b ps pm) = mailbox pm"
  by (simp add: add_all_def)

lemma mailbox_foldl:
  "(\<And>pm x. mailbox (f pm x) = mailbox pm) \<Longrightarrow> mailbox (foldl f pm xs) = mailbox pm"
  by (induction xs arbitrary: pm) auto

lemma mailbox_prepare:
  assumes "prepare_allocate_connections order pm = Inr (pm', mode)"
  shows "mailbox pm' = mailbox pm"
proof -
  obtain ns where "networking_state (state pm) = Inr ns"
    using assms by (auto simp: prepare_allocate_connections_def res_simps)
  then show ?thesis
    using assms by (cases ns) (auto simp: prepare_allocate_connections_def mailbox_foldl split: if_splits)
qed

lemma mailbox_allocate_protocol: "allocate_protocol pm entry = Inr pm' \<Longrightarrow> mailbox pm' = mailbox pm"
  by (auto simp: allocate_protocol_def res_simps split: option.splits if_splits prod.splits peer_in_state.splits)

lemma mailbox_poll_timers:
  assumes "poll_timers order now cr pr pm = Inr pm'"
  shows "mailbox pm' = mailbox pm"
proof -
  obtain pm1 where pm1: "(if cr then allocate_connections order now pm else Inr pm) = Inr pm1"
    using assms by (auto simp: poll_timers_def res_bind_eq_Inr)
  have "mailbox pm1 = mailbox pm"
  proof (cases cr)
    case True
    then obtain pm0 mode where p: "prepare_allocate_connections order (connect_reserved order now pm) = Inr (pm0, mode)"
      using pm1 by (auto simp: allocate_connections_def res_bind_eq_Inr)
    have "mailbox (connect_best now pm0) = mailbox pm0" by (simp add: connect_best_def split: option.split)
    then have "mailbox pm1 = mailbox pm0"
      using pm1 True p by (cases mode) (auto simp: allocate_connections_def)
    then show ?thesis using mailbox_prepare [OF p] by (simp add: connect_reserved_def mailbox_foldl)
  qed (use pm1 in simp)
  moreover have "mailbox pm2 = mailbox pm1" if "allocate_protocols pm1 = Inr pm2" for pm2
    using that unfolding allocate_protocols_def
    by (rule res_fold_invariant [where I = "\<lambda>p. mailbox p = mailbox pm1", rotated -1])
      (auto dest: mailbox_allocate_protocol)
  ultimately show ?thesis
    using assms pm1 by (cases pr) (auto simp: poll_timers_def res_bind_eq_Inr)
qed

lemma poll_loop_result:
  assumes "poll_loop order now cr pr ms pm = Inr (pm', r)"
  shows "(r = None \<longrightarrow> mailbox pm' = []) \<and>
    (\<forall>out rest. out_queue pm = out # rest \<longrightarrow> r = Some out \<and> out_queue pm' = rest \<and> mailbox pm' = ms)"
  using assms
proof (induction ms arbitrary: pm)
  case Nil
  then show ?case by (auto simp: res_simps dest: mailbox_poll_timers split: list.splits)
next
  case (Cons m ms)
  then show ?case by (cases "out_queue pm") (auto simp: res_simps)
qed

section \<open>A small manager\<close>

definition demo_pm_conf :: peer_manager_config where
  "demo_pm_conf = \<lparr>min_acceptable_reputation = - 15, min_reputation = 0, conn_reset_outbound_backoff = 100,
     conn_alloc_interval = 10, prot_alloc_interval = 10, protocols_allocation = [(1, Bounded 50)],
     peer_manager_msg_buffer_size = 8\<rparr>"

definition demo_manager :: "(nat, unit, unit) peer_manager" where
  "demo_manager = new_manager (new_repo \<lparr>min_known_peers = 0, min_outbound = 1, max_inbound = 1,
     max_outbound = 1\<rparr> []) demo_pm_conf"

definition demo_incoming :: "(nat, unit, unit) manager_event list" where
  "demo_incoming = [Send (Notification (IncomingConnection 1 0)), PollNext 0 False False]"

lemma demo_manager_run:
  "\<exists>pm. res_fold (manager_step sorted_list_of_set) demo_manager demo_incoming = Inr pm \<and>
     netw_conf (state pm) = \<lparr>min_known_peers = 0, min_outbound = 1, max_inbound = 1, max_outbound = 1\<rparr> \<and>
     peers (state pm) = [1 \<mapsto> (new_peer_info None False False)\<lparr>conn_state := Connected Inbound\<rparr>] \<and>
     out_queue pm = [] \<and> pm_conf pm = demo_pm_conf"
  by (simp add: demo_manager_def demo_incoming_def new_manager_def mailbox_send_def poll_next_def poll_timers_def
      on_incoming_connection_def peer_def try_add_peer_def Let_def try_accept_connection_def push_out_def
      new_repo_def new_index_def force_connect_def modify_info_def)

section \<open>Properties\<close>

text \<open>
  C9. In every state the manager can reach, the list of sorted peers is the sorted
  list of the known peers with their reputations, each exactly once, and the index of enabled
  connections holds exactly the peers with an outbound connection.
\<close>

theorem peer_repo_consistent:
  assumes "res_fold (manager_step order) (new_manager (new_repo nc boot) cf) es = Inr pm"
  shows "sorted (sorted_peers (state pm)) \<and> distinct (sorted_peers (state pm)) \<and>
    (\<forall>pid rep. (pid, rep) \<in> set (sorted_peers (state pm)) \<longleftrightarrow>
       map_option reputation (peers (state pm) pid) = Some rep) \<and>
    (\<forall>pid. enabled_connections (peer_index (state pm)) pid \<noteq> None \<longleftrightarrow>
       (\<exists>pi c. peers (state pm) pid = Some pi \<and> conn_state pi = Connected (Outbound c)))"
proof -
  have "pm_inv pm"
    by (rule manager.run_inv [OF _ _ assms]) (simp_all add: new_manager_def new_repo_inv)
  then show ?thesis unfolding repo_inv_def by blast
qed

theorem peer_repo_consistent_witness:
  "\<exists>pm. res_fold (manager_step sorted_list_of_set) demo_manager demo_incoming = Inr pm \<and>
     (1, 0) \<in> set (sorted_peers (state pm)) \<and> enabled_connections (peer_index (state pm)) 1 = None"
proof -
  obtain pm where r: "res_fold (manager_step sorted_list_of_set) demo_manager demo_incoming = Inr pm"
    and p: "peers (state pm) = [1 \<mapsto> (new_peer_info None False False)\<lparr>conn_state := Connected Inbound\<rparr>]"
    using demo_manager_run by blast
  note c = peer_repo_consistent [OF r [unfolded demo_manager_def]]
  have "(1, 0) \<in> set (sorted_peers (state pm))"
    using c p by (simp add: new_peer_info_def initial_reputation_def)
  moreover have "\<not> (enabled_connections (peer_index (state pm)) 1 \<noteq> None)"
    using c p by (simp del: not_None_eq)
  ultimately show ?thesis using r by auto
qed

text \<open>
  The limits on connections do not take effect: the counters of inbound and
  outbound connections stay zero in every reachable state, so an unknown peer is accepted
  whenever the limit of inbound connections is not zero, and the networking state depends on
  the number of known peers alone.
\<close>

theorem connection_limits_without_effect:
  assumes "res_fold (manager_step order) (new_manager (new_repo nc boot) cf) es = Inr pm"
  shows "networking_state (state pm) =
      Inr (if card (dom (peers (state pm))) < min_known_peers (netw_conf (state pm))
           then NotBootstrapped (repo_boot_peers (state pm))
           else if 0 < min_outbound (netw_conf (state pm)) then BootInProgress
           else if 0 < max_outbound (netw_conf (state pm)) then Bootstrapped else Saturated) \<and>
    (\<forall>pid c. peers (state pm) pid = None \<longrightarrow>
       out_queue (on_incoming_connection pid c pm) = out_queue pm @
         [if 0 < max_inbound (netw_conf (state pm)) then AcceptIncomingConnection pid c else Reject pid c])"
proof -
  have inv: "pm_inv pm"
    by (rule manager.run_inv [OF _ _ assms]) (simp_all add: new_manager_def new_repo_inv)
  note D = repo_invD(6-8) [OF inv]
  have "networking_state (state pm) =
      Inr (if card (dom (peers (state pm))) < min_known_peers (netw_conf (state pm))
           then NotBootstrapped (repo_boot_peers (state pm))
           else if 0 < min_outbound (netw_conf (state pm)) then BootInProgress
           else if 0 < max_outbound (netw_conf (state pm)) then Bootstrapped else Saturated)"
    by (simp add: networking_state_def D checked_sub_def)
  moreover have "out_queue (on_incoming_connection pid c pm) = out_queue pm @
      [if 0 < max_inbound (netw_conf (state pm)) then AcceptIncomingConnection pid c else Reject pid c]"
    if "peers (state pm) pid = None" for pid c
    using that D(1) by (simp add: on_incoming_connection_def peer_def try_add_peer_def Let_def
        try_accept_connection_def push_out_def)
  ultimately show ?thesis by simp
qed

theorem connection_limits_without_effect_witness:
  "\<exists>pm. res_fold (manager_step sorted_list_of_set) demo_manager demo_incoming = Inr pm \<and>
     networking_state (state pm) = Inr BootInProgress \<and>
     out_queue (on_incoming_connection 2 0 pm) = [AcceptIncomingConnection 2 0]"
proof -
  obtain pm where r: "res_fold (manager_step sorted_list_of_set) demo_manager demo_incoming = Inr pm"
    and pm: "peers (state pm) = [1 \<mapsto> (new_peer_info None False False)\<lparr>conn_state := Connected Inbound\<rparr>]"
      "netw_conf (state pm) = \<lparr>min_known_peers = 0, min_outbound = 1, max_inbound = 1, max_outbound = 1\<rparr>"
      "out_queue pm = []"
    using demo_manager_run by blast
  from connection_limits_without_effect [OF r [unfolded demo_manager_def]] pm r show ?thesis by simp
qed

text \<open>
  \<open>pick_best\<close> returns, among the known peers that pass the filter, the one with
  the least identifier, and nothing exactly if no peer passes; the reputations play no role.
\<close>

theorem pick_best_least_identifier:
  assumes "repo_inv r"
  shows "(pick_best (Some f) r = None \<longleftrightarrow> (\<forall>pid pi. peers r pid = Some pi \<longrightarrow> \<not> f pid pi)) \<and>
    (\<forall>pid. pick_best (Some f) r = Some pid \<longrightarrow>
       (\<exists>pi. peers r pid = Some pi \<and> f pid pi) \<and>
       (\<forall>q qi. peers r q = Some qi \<longrightarrow> f q qi \<longrightarrow> pid \<le> q))"
proof -
  note D = repo_invD [OF assms]
  have mem: "(q, reputation qi) \<in> set (sorted_peers r)" if "peers r q = Some qi" for q qi
    using D(4) [of q "reputation qi"] that by simp
  have "pick_best (Some f) r = None \<longleftrightarrow> (\<forall>pid pi. peers r pid = Some pi \<longrightarrow> \<not> f pid pi)"
    unfolding pick_best_def pick_best_in_None using mem by blast
  moreover have "(\<exists>pi. peers r pid = Some pi \<and> f pid pi) \<and> (\<forall>q qi. peers r q = Some qi \<longrightarrow> f q qi \<longrightarrow> pid \<le> q)"
    if "pick_best (Some f) r = Some pid" for pid
    using pick_best_in_Some [OF that [unfolded pick_best_def]] D(2) mem by blast
  ultimately show ?thesis by blast
qed

theorem pick_best_least_identifier_witness:
  "\<exists>r :: (nat, unit) peer_repo. repo_inv r \<and> pick_best (Some (\<lambda>_ _. True)) r = Some 1 \<and>
     map_option reputation (peers r 1) = Some (- 10) \<and> map_option reputation (peers r 2) = Some 0"
proof -
  let ?i = "\<lambda>rep. (new_peer_info None False False :: unit peer_info)\<lparr>reputation := rep\<rparr>"
  let ?r = "(new_repo \<lparr>min_known_peers = 0, min_outbound = 0, max_inbound = 0, max_outbound = 0\<rparr> [])
    \<lparr>peers := [1 \<mapsto> ?i (- 10), 2 \<mapsto> ?i 0], sorted_peers := [(1, - 10), (2, 0)]\<rparr> :: (nat, unit) peer_repo"
  have inv: "repo_inv ?r"
    by (auto simp: repo_inv_def new_repo_def new_index_def new_peer_info_def)
  have p: "pick_best (Some (\<lambda>_ _. True)) ?r \<noteq> None"
    using pick_best_least_identifier [OF inv, of "\<lambda>_ _. True"] by auto
  then obtain pid where pid: "pick_best (Some (\<lambda>_ _. True)) ?r = Some pid" by blast
  then have "pid \<le> 1" "pid \<in> {1, 2}"
    using pick_best_least_identifier [OF inv, of "\<lambda>_ _. True"] by (auto split: if_splits)
  then have "pid = 1" by auto
  with pid inv show ?thesis by (intro exI [of _ ?r]) simp
qed

text \<open>
  C10. A report lowers the reputation of a known peer by ten and announces the
  punishment. If the peer is connected and falls below the acceptable reputation its connection
  is dropped and the peer is forgotten; a peer that is not connected is kept.
\<close>

theorem report_peer_effect:
  assumes "peers (state pm) pid = Some pi" "i32_min + 10 \<le> reputation pi" "reputation pi \<le> i32_max"
  shows "\<exists>pm'. on_report_peer pid change pm = Inr pm' \<and>
    (if reputation pi - 10 < min_acceptable_reputation (pm_conf pm) \<and> is_connected (conn_state pi)
     then peers (state pm') pid = None \<and> out_queue pm' = out_queue pm @ [NotifyPeerPunished pid change, Drop pid]
     else peers (state pm') pid = Some (pi\<lparr>reputation := reputation pi - 10\<rparr>) \<and>
       out_queue pm' = out_queue pm @ [NotifyPeerPunished pid change])"
proof -
  have ch: "i32_from_change change = - 10" "is_downgrade change" by (cases change; simp)+
  obtain st where st: "adjust_reputation change pid (state pm) = Inr st"
    "peers st pid = Some (pi\<lparr>reputation := reputation pi - 10\<rparr>)"
    using assms by (simp add: adjust_reputation_def apply_change_def checked_i32_def ch modify_info_def)
  obtain p where p: "peer (state pm) pid = Some p" using assms(1) by (cases "peer (state pm) pid") (auto simp: peer_cases)
  have dis: "is_connected (conn_state pi) \<Longrightarrow> peer st pid = Some (ConnectedPeer pid)"
    "\<not> is_connected (conn_state pi) \<Longrightarrow> peer st pid = Some (NotConnectedPeer pid)"
    using st(2) by (cases "conn_state pi"; simp add: peer_def)+
  have gone: "peers (forget pid (disconnect_peer pid st)) pid = None"
    using st(2) by (simp add: forget_def disconnect_peer_def modify_info_def Let_def)
  show ?thesis
    using p st dis gone
    by (auto simp: on_report_peer_def ch Let_def is_reputation_acceptable_def disconnect_def push_out_def)
qed

theorem report_peer_effect_witness:
  "\<exists>pm pm'. res_fold (manager_step sorted_list_of_set) demo_manager demo_incoming = Inr pm \<and>
     on_report_peer 1 TooSlow (pm\<lparr>pm_conf := demo_pm_conf\<lparr>min_acceptable_reputation := 0\<rparr>\<rparr>) = Inr pm' \<and>
     peers (state pm') 1 = None \<and> out_queue pm' = [NotifyPeerPunished 1 TooSlow, Drop 1]"
proof -
  obtain pm where r: "res_fold (manager_step sorted_list_of_set) demo_manager demo_incoming = Inr pm"
    and pm: "peers (state pm) = [1 \<mapsto> (new_peer_info None False False)\<lparr>conn_state := Connected Inbound\<rparr>]"
      "out_queue pm = []"
    using demo_manager_run by blast
  let ?pm = "pm\<lparr>pm_conf := demo_pm_conf\<lparr>min_acceptable_reputation := 0\<rparr>\<rparr>"
  have "peers (state ?pm) 1 = Some ((new_peer_info None False False)\<lparr>conn_state := Connected Inbound\<rparr>)"
    using pm by simp
  from report_peer_effect [OF this, of TooSlow] pm r show ?thesis
    by (auto simp: new_peer_info_def initial_reputation_def i32_min_def i32_max_def)
qed

text \<open>
  After \<open>on_set_reserved_peers\<close> the reserved peers are exactly the given ones, the
  unknown ones among them having been added, if the iteration order of a set lists its elements once.
\<close>

theorem set_reserved_peers_exact:
  assumes "\<And>A. finite A \<Longrightarrow> set (order A) = A \<and> distinct (order A)" "finite ps"
  shows "get_reserved_peers None (state (on_set_reserved_peers order ps pm)) = ps"
proof -
  let ?r = "state pm"
  define known where "known = {p \<in> ps. peers ?r p \<noteq> None}"
  obtain st unk where sr: "set_reserved_peers order ps ?r = (st, unk)" by fastforce
  have unk: "unk = ps - known" using sr by (auto simp: set_reserved_peers_def Let_def known_def)
  have st: "peers st q = map_option (\<lambda>pi. if q \<in> ps then pi\<lparr>is_reserved := True\<rparr> else pi) (peers ?r q)"
    "reserved_peers (peer_index st) = known" for q
    using sr assms by (auto simp: set_reserved_peers_def Let_def mark_reserved_peers known_def update_reserved_set_def)
  have order: "distinct (order unk)" "set (order unk) = unk" using assms unk by auto
  have none: "peers st p = None" if "p \<in> set (order unk)" for p
    using that unfolding order(2) by (simp add: unk known_def st(1))
  define r' where "r' = foldl (\<lambda>st p. fst (try_add_peer p True False st)) st (map PeerId (order unk))"
  have "reserved_peers (peer_index r') = known \<union> unk \<and>
      (\<forall>p. peers r' p = (if p \<in> unk then Some (new_peer_info None True False) else peers st p))"
    using add_reserved_fold [OF order(1) none] unfolding r'_def order(2) st(2) by simp
  moreover have "known \<union> unk = ps" using unk by (auto simp: known_def)
  moreover have "p \<notin> unk \<Longrightarrow> p \<in> ps \<Longrightarrow> peers ?r p \<noteq> None" for p using unk by (auto simp: known_def)
  ultimately have "get_reserved_peers None r' = ps"
    by (fastforce simp: get_reserved_peers_def st(1) new_peer_info_def split: option.splits)
  then show ?thesis by (simp add: on_set_reserved_peers_def sr add_all_def r'_def)
qed

theorem set_reserved_peers_exact_witness:
  "get_reserved_peers None (state (on_set_reserved_peers sorted_list_of_set {1, 2} demo_manager)) = {1, 2}"
  by (rule set_reserved_peers_exact) simp_all

text \<open>
  A poll returns the queued commands in order, before it looks at the mailbox, and
  it only reports that it is pending after it has emptied the mailbox.
\<close>

theorem poll_next_queue_order:
  assumes "poll_next order now conn_ready prot_ready pm = Inr (pm', r)"
  shows "(r = None \<longrightarrow> mailbox pm' = []) \<and>
    (\<forall>out rest. out_queue pm = out # rest \<longrightarrow>
       r = Some out \<and> out_queue pm' = rest \<and> mailbox pm' = mailbox pm)"
  using poll_loop_result assms unfolding poll_next_def by blast

theorem poll_next_queue_order_witness:
  "\<exists>pm' r. poll_next sorted_list_of_set 0 False False
       (demo_manager\<lparr>out_queue := [Drop 1, Drop 2], mailbox := [Request (AddPeers [])]\<rparr>) = Inr (pm', r) \<and>
     r = Some (Drop 1) \<and> out_queue pm' = [Drop 2] \<and> mailbox pm' = [Request (AddPeers [])]"
proof -
  let ?pm = "demo_manager\<lparr>out_queue := [Drop 1, Drop 2], mailbox := [Request (AddPeers [])]\<rparr>"
  obtain pm' r where "poll_next sorted_list_of_set 0 False False ?pm = Inr (pm', r)"
    by (simp add: poll_next_def)
  from poll_next_queue_order [OF this] this show ?thesis by simp
qed

text \<open>
  After a connection was reset by a peer that is not reserved, the manager does not
  connect to the peer until the backoff has passed.
\<close>

theorem reset_backoff_respected:
  assumes "peers (state pm) pid = Some pi" "is_connected (conn_state pi)" "\<not> is_reserved pi"
    and "on_connection_lost t0 pid ResetByPeer pm = Inr pm'"
    and "t < t0 + conn_reset_outbound_backoff (pm_conf pm)"
  shows "connect t pm' pid = pm' \<and> peer (state pm') pid = Some (NotConnectedPeer pid)"
proof -
  obtain d where d: "conn_state pi = Connected d" using assms(2) by (cases "conn_state pi") auto
  have st: "peers (state pm') pid = Some (pi\<lparr>conn_state := NotConnected,
      outbound_backoff_until := Some (t0 + conn_reset_outbound_backoff (pm_conf pm))\<rparr>)"
    using assms(1,3,4) d
    by (auto simp: on_connection_lost_def peer_def Let_def disconnect_peer_def modify_info_def
        set_backoff_until_def)
  then show ?thesis using assms(5) by (simp add: connect_def peer_def backoff_until_def)
qed

theorem reset_backoff_respected_witness:
  "\<exists>pm pm'. res_fold (manager_step sorted_list_of_set) demo_manager demo_incoming = Inr pm \<and>
     on_connection_lost 7 1 ResetByPeer pm = Inr pm' \<and> connect 106 pm' 1 = pm'"
proof -
  obtain pm where r: "res_fold (manager_step sorted_list_of_set) demo_manager demo_incoming = Inr pm"
    and pm: "peers (state pm) = [1 \<mapsto> (new_peer_info None False False)\<lparr>conn_state := Connected Inbound\<rparr>]"
      "pm_conf pm = demo_pm_conf"
    using demo_manager_run by blast
  have p: "peers (state pm) 1 = Some ((new_peer_info None False False)\<lparr>conn_state := Connected Inbound\<rparr>)"
    using pm by simp
  obtain pm' where l: "on_connection_lost 7 1 ResetByPeer pm = Inr pm'"
    using p by (auto simp: on_connection_lost_def peer_def Let_def)
  have "connect 106 pm' 1 = pm'"
    using reset_backoff_respected [OF p _ _ l, of 106] pm(2) by (simp add: new_peer_info_def demo_pm_conf_def)
  with r l show ?thesis by blast
qed

text \<open>
  If every protocol has a bound below one hundred per cent, no protocol is ever
  allocated: the manager is unchanged, or the evaluation divides by zero when there is no outbound
  connection.
\<close>

theorem bounded_policy_never_allocates:
  assumes "\<forall>(prot, policy) \<in> set (protocols_allocation (pm_conf pm)). \<exists>pct < 100. policy = Bounded pct"
  shows "allocate_protocols pm =
    (if num_connected_peers (state pm) = 0 \<and>
        (\<exists>(prot, policy) \<in> set (protocols_allocation (pm_conf pm)). get_enabled_peers prot (state pm) \<noteq> None)
     then Inl DivideByZero else Inr pm)"
proof -
  have step: "allocate_protocol pm (prot, Bounded pct) =
      (if num_connected_peers (state pm) = 0 \<and> get_enabled_peers prot (state pm) \<noteq> None
       then Inl DivideByZero else Inr pm)" if "pct < 100" for prot pct
    using that by (auto simp: allocate_protocol_def policy_allows_def checked_div_def split: option.splits)
  have "res_fold allocate_protocol pm xs =
    (if num_connected_peers (state pm) = 0 \<and> (\<exists>(prot, policy) \<in> set xs. get_enabled_peers prot (state pm) \<noteq> None)
     then Inl DivideByZero else Inr pm)"
    if "\<forall>(prot, policy) \<in> set xs. \<exists>pct < 100. policy = Bounded pct" for xs
    using that
  proof (induction xs)
    case (Cons x xs)
    then obtain prot pct where x: "x = (prot, Bounded pct)" "pct < 100" by (cases x) auto
    show ?case using Cons step [OF x(2), of prot] by (auto simp: x(1))
  qed simp
  from this [OF assms] show ?thesis by (simp add: allocate_protocols_def)
qed

theorem bounded_policy_never_allocates_witness:
  "allocate_protocols (demo_manager\<lparr>state := enable_protocol 1 7 (state demo_manager)\<rparr>) = Inl DivideByZero"
  by (subst bounded_policy_never_allocates)
    (simp_all add: demo_manager_def new_manager_def demo_pm_conf_def new_repo_def new_index_def
      enable_protocol_def get_enabled_peers_def num_connected_peers_def Let_def)

lemma protocol_tag_roundtrip:
  "tag_protocol_id (new_tag p v) = p" "tag_protocol_ver (new_tag p v) = v"
  "ver_from_tag (new_tag p v) = p"
  by (simp_all add: tag_protocol_id_def tag_protocol_ver_def ver_from_tag_def new_tag_def)

end
