(* ===== verification/Overlay.thy ===== *)
theory Overlay
  imports Prelude "HOL-Library.Sublist"
begin

text \<open>
  The overlay of the multicasting protocol (\<open>spectrum-mcast/src/overlay.rs\<close>) and the
  combinator \<open>EitherOrBoth\<close> of \<open>algebra-core/src/combinators.rs\<close> it uses. A binary tree is
  laid out over the list of peers; a node finds its parent and children by walking the levels.
  The peers are shuffled between two passes; the shuffle of pass \<open>i\<close>, which depends on the
  seed alone, is a parameter.
\<close>

section \<open>EitherOrBoth\<close>

datatype ('a, 'b) either_or_both = EitherLeft 'a | EitherRight 'b | Both 'a 'b

fun swap_either :: "('a, 'b) either_or_both \<Rightarrow> ('b, 'a) either_or_both" where
  "swap_either (EitherLeft a) = EitherRight a"
| "swap_either (EitherRight b) = EitherLeft b"
| "swap_either (Both a b) = Both b a"

fun either_left :: "('a, 'b) either_or_both \<Rightarrow> 'a option" where
  "either_left (EitherLeft a) = Some a"
| "either_left (Both a b) = Some a"
| "either_left (EitherRight b) = None"

fun either_right :: "('a, 'b) either_or_both \<Rightarrow> 'b option" where
  "either_right (EitherRight b) = Some b"
| "either_right (Both a b) = Some b"
| "either_right (EitherLeft a) = None"

fun either_both :: "('a, 'b) either_or_both \<Rightarrow> ('a \<times> 'b) option" where
  "either_both (Both a b) = Some (a, b)"
| "either_both (EitherLeft a) = None"
| "either_both (EitherRight b) = None"

text \<open>\<open>collect\<close>, with the conversion between the two sides as an argument.\<close>

fun collect_either :: "('a \<Rightarrow> 'b) \<Rightarrow> ('a, 'b) either_or_both \<Rightarrow> 'b list" where
  "collect_either conv (EitherLeft a) = [conv a]"
| "collect_either conv (EitherRight b) = [b]"
| "collect_either conv (Both a b) = [conv a, b]"

text \<open>\<open>TryFrom\<close> a pair of options; the error carries no data.\<close>

fun either_try_from :: "'a option \<times> 'b option \<Rightarrow> ('a, 'b) either_or_both option" where
  "either_try_from (Some l, Some r) = Some (Both l r)"
| "either_try_from (Some l, None) = Some (EitherLeft l)"
| "either_try_from (None, Some r) = Some (EitherRight r)"
| "either_try_from (None, None) = None"

section \<open>Links of one tree\<close>

type_synonym ('pid, 'addr) peer_addr = "'pid \<times> 'addr option"

record ('pid, 'addr) dag_overlay =
  parent_nodes :: "'pid set"
  child_nodes :: "('pid, 'addr) peer_addr list"

definition new_dag_overlay :: "('pid, 'addr) dag_overlay" where
  "new_dag_overlay = \<lparr>parent_nodes = {}, child_nodes = []\<rparr>"

datatype ('pid, 'addr) links =
    RootLinks "('pid, 'addr) peer_addr option" "('pid, 'addr) peer_addr option"
  | NodeLinks 'pid "(('pid, 'addr) peer_addr, ('pid, 'addr) peer_addr) either_or_both"
  | LeafLinks 'pid

text \<open>What \<open>build_links\<close> returns once it has found the host at \<open>cur_ix\<close>.\<close>

definition links_at ::
  "('pid, 'addr) peer_addr list \<Rightarrow> nat \<Rightarrow> nat \<Rightarrow> nat \<Rightarrow> nat \<Rightarrow> ('pid, 'addr) links res" where
  "links_at peers lower upper prev_lower cur_ix =
     res_bind (checked_sub cur_ix lower) (\<lambda>ix_in_pt.
     let parent_ix = prev_lower + ix_in_pt div 2
     in case get peers parent_ix of
          Some (parent_pid, _) \<Rightarrow>
            if parent_ix \<noteq> cur_ix
            then
              let left_child_ix = 2 * ix_in_pt + upper;
                  right_child_ix = left_child_ix + 1
              in case either_try_from (get peers left_child_ix, get peers right_child_ix) of
                   Some children \<Rightarrow> Inr (NodeLinks parent_pid children)
                 | None \<Rightarrow> Inr (LeafLinks parent_pid)
            else Inr (RootLinks (get peers 1) (get peers 2))
        | None \<Rightarrow> Inr (RootLinks (get peers 1) (get peers 2)))"

text \<open>
  The loop of \<open>build_links\<close>: the current level is the interval from \<open>lower\<close> to \<open>upper\<close>, and
  the panic for a host that is not in the list is \<open>AssertFailed\<close>.
\<close>

function build_links_loop ::
  "'pid \<Rightarrow> ('pid, 'addr) peer_addr list \<Rightarrow> nat \<Rightarrow> nat \<Rightarrow> nat \<Rightarrow> nat \<Rightarrow> nat \<Rightarrow> ('pid, 'addr) links res" where
  "build_links_loop host peers lower upper prev_lower pt_ix cur_ix =
     (case get peers cur_ix of
        None \<Rightarrow> Inl AssertFailed
      | Some (pid, _) \<Rightarrow>
          let (lower', upper', prev_lower', pt_ix') =
            (if upper \<le> cur_ix then (upper, upper + 2 ^ Suc pt_ix, lower, Suc pt_ix)
             else (lower, upper, prev_lower, pt_ix))
          in if pid = host then links_at peers lower' upper' prev_lower' cur_ix
             else build_links_loop host peers lower' upper' prev_lower' pt_ix' (cur_ix + 1))"
  by pat_completeness auto
termination
  by (relation "measure (\<lambda>(host, peers, lower, upper, prev, pt, cur_ix). length peers - cur_ix)")
    (auto simp: get_eq_Some)

declare build_links_loop.simps [simp del]

definition build_links :: "'pid \<Rightarrow> ('pid, 'addr) peer_addr list \<Rightarrow> ('pid, 'addr) links res" where
  "build_links host peers = build_links_loop host peers 0 1 0 0 0"

section \<open>Building the overlay\<close>

definition add_links :: "('pid, 'addr) links \<Rightarrow> ('pid, 'addr) dag_overlay \<Rightarrow> ('pid, 'addr) dag_overlay" where
  "add_links l acc =
     (case l of
        RootLinks cl cr \<Rightarrow>
          acc\<lparr>child_nodes := child_nodes acc @ (case cl of Some c \<Rightarrow> [c] | None \<Rightarrow> [])
                 @ (case cr of Some c \<Rightarrow> [c] | None \<Rightarrow> [])\<rparr>
      | NodeLinks parent children \<Rightarrow>
          acc\<lparr>child_nodes := child_nodes acc @ collect_either (\<lambda>c. c) children,
              parent_nodes := insert parent (parent_nodes acc)\<rparr>
      | LeafLinks parent \<Rightarrow> acc\<lparr>parent_nodes := insert parent (parent_nodes acc)\<rparr>)"

text \<open>The passes: build the links on the current list, then shuffle it.\<close>

fun overlay_passes ::
  "(nat \<Rightarrow> ('pid, 'addr) peer_addr list \<Rightarrow> ('pid, 'addr) peer_addr list) \<Rightarrow> 'pid \<Rightarrow> nat list
   \<Rightarrow> ('pid, 'addr) peer_addr list \<Rightarrow> ('pid, 'addr) dag_overlay \<Rightarrow> ('pid, 'addr) dag_overlay res" where
  "overlay_passes shuffle host [] peers acc = Inr acc"
| "overlay_passes shuffle host (i # is) peers acc =
     res_bind (build_links host peers) (\<lambda>l.
       overlay_passes shuffle host is (shuffle i peers) (add_links l acc))"

text \<open>A fixed root is moved to the front of the sorted list.\<close>

definition order_peers ::
  "'pid option \<Rightarrow> ('pid::linorder, 'addr) peer_addr list \<Rightarrow> ('pid, 'addr) peer_addr list res" where
  "order_peers fixed_root peers =
     (let ps = sort_key fst peers
      in case fixed_root of
           None \<Rightarrow> Inr ps
         | Some root \<Rightarrow>
             res_bind (unwrap (position (\<lambda>(pid, _). pid = root) ps)) (\<lambda>ix.
               Inr (ps ! ix # take ix ps @ drop (Suc ix) ps)))"

definition make_overlay ::
  "(nat \<Rightarrow> ('pid::linorder, 'addr) peer_addr list \<Rightarrow> ('pid, 'addr) peer_addr list) \<Rightarrow> nat
   \<Rightarrow> 'pid option \<Rightarrow> 'pid \<Rightarrow> ('pid, 'addr) peer_addr list \<Rightarrow> ('pid, 'addr) dag_overlay res" where
  "make_overlay shuffle redundancy_factor fixed_root host peers =
     res_bind (order_peers fixed_root peers) (\<lambda>ps.
       overlay_passes shuffle host [0 ..< redundancy_factor] ps new_dag_overlay)"

section \<open>The tree as a heap\<close>

text \<open>The reference: node \<open>i\<close> has the parent \<open>(i - 1) div 2\<close> and the children \<open>2 i + 1\<close>, \<open>2 i + 2\<close>.\<close>

definition heap_links :: "('pid, 'addr) peer_addr list \<Rightarrow> nat \<Rightarrow> ('pid, 'addr) links" where
  "heap_links peers i =
     (if i = 0 then RootLinks (get peers 1) (get peers 2)
      else
        let parent = fst (peers ! ((i - 1) div 2))
        in case either_try_from (get peers (2 * i + 1), get peers (2 * i + 2)) of
             Some children \<Rightarrow> NodeLinks parent children
           | None \<Rightarrow> LeafLinks parent)"

lemma links_at_level:
  assumes "lower = 2 ^ k - 1" "upper = 2 ^ Suc k - 1" "prev = (if k = 0 then 0 else 2 ^ (k - 1) - 1)"
    and "lower \<le> i" "i < upper" "i < length peers"
  shows "links_at peers lower upper prev i = Inr (heap_links peers i)"
proof (cases "i = 0")
  case True
  have "k = 0"
  proof (rule ccontr)
    assume "k \<noteq> 0"
    then have "(2::nat) ^ 1 \<le> 2 ^ k" by (intro power_increasing) auto
    then show False using assms(1,4) True by simp
  qed
  then show ?thesis
    using True assms by (auto simp: links_at_def checked_sub_def get_def heap_links_def split: prod.splits)
next
  case False
  then have k: "0 < k" using assms(2,5) by (cases k) auto
  then obtain j where j: "k = Suc j" by (cases k) auto
  define q where "q = (2::nat) ^ j"
  have q: "1 \<le> q" by (simp add: q_def)
  have bounds: "lower = 2 * q - 1" "upper = 4 * q - 1" "prev = q - 1"
    using assms(1-3) j by (simp_all add: q_def)
  have parent: "prev + (i - lower) div 2 = (i - 1) div 2"
    using assms(4) bounds q by linarith
  have child: "2 * (i - lower) + upper = 2 * i + 1"
    using assms(4) bounds q by linarith
  have lt: "(i - 1) div 2 < length peers" "(i - 1) div 2 \<noteq> i" using assms(6) False by linarith+
  have g: "get peers ((i - 1) div 2) = Some (fst (peers ! ((i - 1) div 2)), snd (peers ! ((i - 1) div 2)))"
    using lt(1) by (simp add: get_def)
  show ?thesis
    using lt(2) False assms(4)
    by (simp add: links_at_def checked_sub_def parent child g heap_links_def Let_def case_prod_beta del: One_nat_def
        split: option.split)
qed

text \<open>The loop keeps \<open>lower\<close>, \<open>upper\<close> and \<open>prev_lower\<close> at the bounds of the levels.\<close>

lemma build_links_loop_heap:
  assumes "distinct (map fst peers)" "i < length peers" "fst (peers ! i) = host" "cur \<le> i"
    and "lower = 2 ^ k - 1" "upper = 2 ^ Suc k - 1" "prev = (if k = 0 then 0 else 2 ^ (k - 1) - 1)"
    and "lower \<le> cur" "cur \<le> upper"
  shows "build_links_loop host peers lower upper prev k cur = Inr (heap_links peers i)"
  using assms(4-9)
proof (induction "i - cur" arbitrary: cur lower upper prev k rule: less_induct)
  case less
  define k' where "k' = (if upper \<le> cur then Suc k else k)"
  have q: "1 \<le> (2::nat) ^ k" by simp
  have step: "(if upper \<le> cur then (upper, upper + 2 ^ Suc k, lower, Suc k) else (lower, upper, prev, k))
      = (2 ^ k' - 1, 2 ^ Suc k' - 1, (if k' = 0 then 0 else 2 ^ (k' - 1) - 1), k')"
    using less.prems(2-4) q by (auto simp: k'_def)
  have rng: "2 ^ k' - 1 \<le> cur" "cur < 2 ^ Suc k' - 1"
    using less.prems(2,3,5,6) q by (cases "upper \<le> cur"; simp add: k'_def; linarith)+
  have g: "get peers cur = Some (fst (peers ! cur), snd (peers ! cur))"
    using less.prems(1) assms(2) by (simp add: get_def)
  have unfold: "build_links_loop host peers lower upper prev k cur =
      (if fst (peers ! cur) = host
       then links_at peers (2 ^ k' - 1) (2 ^ Suc k' - 1) (if k' = 0 then 0 else 2 ^ (k' - 1) - 1) cur
       else build_links_loop host peers (2 ^ k' - 1) (2 ^ Suc k' - 1)
         (if k' = 0 then 0 else 2 ^ (k' - 1) - 1) k' (cur + 1))"
    by (subst build_links_loop.simps) (simp only: g step option.case prod.case Let_def)
  show ?case
  proof (cases "cur = i")
    case True
    then show ?thesis
      using assms(2,3) links_at_level [OF refl refl refl rng, of peers] unfold by simp
  next
    case False
    then have "fst (peers ! cur) \<noteq> host"
      using assms(1-3) less.prems(1) nth_eq_iff_index_eq [of "map fst peers" cur i] by auto
    moreover have "build_links_loop host peers (2 ^ k' - 1) (2 ^ Suc k' - 1)
        (if k' = 0 then 0 else 2 ^ (k' - 1) - 1) k' (cur + 1) = Inr (heap_links peers i)"
      using False less.prems(1) rng by (intro less.hyps) auto
    ultimately show ?thesis using unfold by simp
  qed
qed

lemma build_links_heap:
  assumes "distinct (map fst peers)" "i < length peers" "fst (peers ! i) = host"
  shows "build_links host peers = Inr (heap_links peers i)"
  unfolding build_links_def
  by (rule build_links_loop_heap [OF assms, where k = 0]) simp_all

section \<open>Edges\<close>

text \<open>Peer \<open>a\<close> is the parent of peer \<open>b\<close> in the tree laid out over \<open>ps\<close>.\<close>

definition tree_edge :: "('pid, 'addr) peer_addr list \<Rightarrow> 'pid \<Rightarrow> 'pid \<Rightarrow> bool" where
  "tree_edge ps a b \<longleftrightarrow>
     (\<exists>j < length ps. 0 < j \<and> fst (ps ! ((j - 1) div 2)) = a \<and> fst (ps ! j) = b)"

lemma tree_edgeE:
  assumes "tree_edge ps a b"
  obtains j where "j < length ps" "0 < j" "fst (ps ! ((j - 1) div 2)) = a" "fst (ps ! j) = b"
  using assms unfolding tree_edge_def by blast

fun links_children :: "('pid, 'addr) links \<Rightarrow> ('pid, 'addr) peer_addr list" where
  "links_children (RootLinks cl cr) =
     (case cl of Some c \<Rightarrow> [c] | None \<Rightarrow> []) @ (case cr of Some c \<Rightarrow> [c] | None \<Rightarrow> [])"
| "links_children (NodeLinks p cs) = collect_either (\<lambda>c. c) cs"
| "links_children (LeafLinks p) = []"

fun links_parent :: "('pid, 'addr) links \<Rightarrow> 'pid set" where
  "links_parent (RootLinks cl cr) = {}"
| "links_parent (NodeLinks p cs) = {p}"
| "links_parent (LeafLinks p) = {p}"

lemma add_links_fields:
  "child_nodes (add_links l acc) = child_nodes acc @ links_children l"
  "parent_nodes (add_links l acc) = parent_nodes acc \<union> links_parent l"
  by (cases l; simp add: add_links_def)+

lemma heap_links_children:
  "set (links_children (heap_links ps i)) = {ps ! j | j. j < length ps \<and> (j = 2 * i + 1 \<or> j = 2 * i + 2)}"
  by (auto simp: heap_links_def get_def Let_def numeral_2_eq_2 split: option.splits)

lemma heap_links_parent:
  "links_parent (heap_links ps i) = (if i = 0 then {} else {fst (ps ! ((i - 1) div 2))})"
  by (auto simp: heap_links_def Let_def split: option.splits)

lemma child_index: "0 < j \<Longrightarrow> (j - 1) div 2 = i \<longleftrightarrow> j = 2 * i + 1 \<or> j = 2 * i + 2" for i j :: nat
  by linarith

lemma heap_links_edges:
  assumes "distinct (map fst ps)" "i < length ps"
  shows "b \<in> fst ` set (links_children (heap_links ps i)) \<longleftrightarrow> tree_edge ps (fst (ps ! i)) b"
    and "a \<in> links_parent (heap_links ps i) \<longleftrightarrow> tree_edge ps a (fst (ps ! i))"
proof -
  have inj: "fst (ps ! x) = fst (ps ! y) \<longleftrightarrow> x = y" if "x < length ps" "y < length ps" for x y
    using nth_eq_iff_index_eq [OF assms(1), of x y] that by (simp only: length_map nth_map)
  have bound: "(j - 1) div 2 < length ps" if "j < length ps" for j
    using that div_le_dividend [of "j - 1" 2] by linarith
  show "b \<in> fst ` set (links_children (heap_links ps i)) \<longleftrightarrow> tree_edge ps (fst (ps ! i)) b"
  proof
    assume "b \<in> fst ` set (links_children (heap_links ps i))"
    then obtain j where j: "j < length ps" "j = 2 * i + 1 \<or> j = 2 * i + 2" "b = fst (ps ! j)"
      unfolding heap_links_children by blast
    then have pos: "0 < j" by linarith
    have "(j - 1) div 2 = i" unfolding child_index [OF pos] by (rule j(2))
    then show "tree_edge ps (fst (ps ! i)) b"
      unfolding tree_edge_def using j(1,3) pos by (intro exI [of _ j]) simp
  next
    assume "tree_edge ps (fst (ps ! i)) b"
    then obtain j where j: "j < length ps" "0 < j" "fst (ps ! ((j - 1) div 2)) = fst (ps ! i)"
      "fst (ps ! j) = b" by (rule tree_edgeE)
    then have "j = 2 * i + 1 \<or> j = 2 * i + 2"
      using inj [OF bound [OF j(1)] assms(2)] child_index [OF j(2)] by blast
    then show "b \<in> fst ` set (links_children (heap_links ps i))"
      unfolding heap_links_children using j(1,4) by blast
  qed
  show "a \<in> links_parent (heap_links ps i) \<longleftrightarrow> tree_edge ps a (fst (ps ! i))"
  proof
    assume "a \<in> links_parent (heap_links ps i)"
    then show "tree_edge ps a (fst (ps ! i))"
      unfolding heap_links_parent tree_edge_def using assms(2)
      by (intro exI [of _ i]) (simp split: if_splits)
  next
    assume "tree_edge ps a (fst (ps ! i))"
    then obtain j where j: "j < length ps" "0 < j" "fst (ps ! ((j - 1) div 2)) = a"
      "fst (ps ! j) = fst (ps ! i)" by (rule tree_edgeE)
    then have "j = i" using inj [OF j(1) assms(2)] by blast
    then show "a \<in> links_parent (heap_links ps i)" using j by (simp add: heap_links_parent)
  qed
qed

section \<open>Passes\<close>

fun pass_lists :: "(nat \<Rightarrow> 'a list \<Rightarrow> 'a list) \<Rightarrow> nat list \<Rightarrow> 'a list \<Rightarrow> 'a list list" where
  "pass_lists shuffle [] ps = []"
| "pass_lists shuffle (i # is) ps = ps # pass_lists shuffle is (shuffle i ps)"

text \<open>What is relied on of the shuffle: it permutes the list.\<close>

definition permutes_lists :: "(nat \<Rightarrow> 'a list \<Rightarrow> 'a list) \<Rightarrow> bool" where
  "permutes_lists shuffle \<longleftrightarrow> (\<forall>i xs. mset (shuffle i xs) = mset xs)"

lemma pass_lists_mset:
  "permutes_lists shuffle \<Longrightarrow> qs \<in> set (pass_lists shuffle is ps) \<Longrightarrow> mset qs = mset ps"
  by (induction shuffle "is" ps rule: pass_lists.induct) (auto simp: permutes_lists_def)

lemma mset_map_fst: "mset qs = mset ps \<Longrightarrow> distinct (map fst ps) \<Longrightarrow>
    distinct (map fst qs) \<and> set qs = set ps \<and> length qs = length ps"
  by (metis mset_eq_imp_distinct_iff mset_eq_length mset_eq_setD mset_map)

lemma overlay_passes_edges:
  assumes "permutes_lists shuffle" "distinct (map fst ps)" "host \<in> fst ` set ps"
  shows "\<exists>ov. overlay_passes shuffle host is ps acc = Inr ov \<and>
    fst ` set (child_nodes ov) = fst ` set (child_nodes acc) \<union>
      {b. \<exists>qs \<in> set (pass_lists shuffle is ps). tree_edge qs host b} \<and>
    parent_nodes ov = parent_nodes acc \<union> {a. \<exists>qs \<in> set (pass_lists shuffle is ps). tree_edge qs a host}"
  using assms(2,3)
proof (induction "is" arbitrary: ps acc)
  case (Cons i "is")
  obtain k where k: "k < length ps" "fst (ps ! k) = host"
    using Cons.prems(2) by (auto simp: in_set_conv_nth)
  note bl = build_links_heap [OF Cons.prems(1) k]
  have sh: "mset (shuffle i ps) = mset ps" using assms(1) by (simp add: permutes_lists_def)
  then have "distinct (map fst (shuffle i ps))" "host \<in> fst ` set (shuffle i ps)"
    using mset_map_fst [OF sh Cons.prems(1)] Cons.prems(2) by auto
  note IH = Cons.IH [OF this, of "add_links (heap_links ps k) acc"]
  have "fst ` set (links_children (heap_links ps k)) = {b. tree_edge ps host b}"
    "links_parent (heap_links ps k) = {a. tree_edge ps a host}"
    using heap_links_edges [OF Cons.prems(1) k(1)] k(2) by (simp_all add: set_eq_iff)
  with IH show ?case by (auto simp: bl add_links_fields image_Un)
qed simp

lemma order_peers_perm:
  assumes "order_peers root ps = Inr qs"
  shows "mset qs = mset ps" and "\<And>r. root = Some r \<Longrightarrow> fst (hd qs) = r"
proof -
  have "mset qs = mset ps \<and> (\<forall>r. root = Some r \<longrightarrow> fst (hd qs) = r)"
  proof (cases root)
    case None
    then show ?thesis using assms by (auto simp: order_peers_def)
  next
    case (Some r)
    let ?s = "sort_key fst ps"
    obtain k where k: "position (\<lambda>(pid, _). pid = r) ?s = Some k"
      and qs: "qs = ?s ! k # take k ?s @ drop (Suc k) ?s"
      using assms Some by (cases "position (\<lambda>(pid, _). pid = r) ?s") (auto simp: order_peers_def Let_def)
    have lt: "k < length ?s" "fst (?s ! k) = r" using k by (auto simp: position_Some_iff)
    have "mset qs = mset (take k ?s @ ?s ! k # drop (Suc k) ?s)" by (simp add: qs)
    also have "\<dots> = mset ?s" using lt(1) by (simp only: id_take_nth_drop [symmetric])
    finally show ?thesis using lt(2) Some by (simp add: qs)
  qed
  then show "mset qs = mset ps" "\<And>r. root = Some r \<Longrightarrow> fst (hd qs) = r" by auto
qed

lemma order_peers_determined:
  assumes "mset ps = mset ps'" "distinct (map fst ps)"
  shows "order_peers root ps = order_peers root ps'"
proof -
  have "sort_key fst ps = sort_key fst ps'"
    by (rule sort_key_inj_key_eq) (use assms in \<open>auto simp: distinct_map\<close>)
  then show ?thesis by (simp add: order_peers_def)
qed

lemma order_peers_total:
  assumes "pred_option (\<lambda>r. r \<in> fst ` set ps) root"
  shows "\<exists>qs. order_peers root ps = Inr qs"
proof (cases root)
  case (Some r)
  then obtain x where "x \<in> set (sort_key fst ps)" "(\<lambda>(pid, _). pid = r) x"
    using assms by fastforce
  then obtain k where "position (\<lambda>(pid, _). pid = r) (sort_key fst ps) = Some k"
    by (metis position_ex)
  then show ?thesis using Some by (simp add: order_peers_def Let_def)
qed (simp add: order_peers_def)

text \<open>The overlay of a host, described by the trees of all passes.\<close>

lemma make_overlay_edges:
  assumes "permutes_lists shuffle" "distinct (map fst ps)" "host \<in> fst ` set ps"
    and "order_peers root ps = Inr qs"
  obtains ov where "make_overlay shuffle n root host ps = Inr ov"
    and "fst ` set (child_nodes ov) = {b. \<exists>t \<in> set (pass_lists shuffle [0 ..< n] qs). tree_edge t host b}"
    and "parent_nodes ov = {a. \<exists>t \<in> set (pass_lists shuffle [0 ..< n] qs). tree_edge t a host}"
proof -
  have "distinct (map fst qs)" "host \<in> fst ` set qs"
    using mset_map_fst [OF order_peers_perm(1) [OF assms(4)] assms(2)] assms(3) by simp_all
  from overlay_passes_edges [OF assms(1) this, of "[0 ..< n]" new_dag_overlay] assms(4) that
  show thesis by (auto simp: make_overlay_def new_dag_overlay_def)
qed

lemma tree_edge_reaches:
  assumes "ps \<noteq> []" "i < length ps"
  shows "(tree_edge ps)\<^sup>*\<^sup>* (fst (hd ps)) (fst (ps ! i))"
  using assms(2)
proof (induction i rule: less_induct)
  case (less i)
  show ?case
  proof (cases "i = 0")
    case True
    then show ?thesis using assms(1) by (simp add: hd_conv_nth)
  next
    case False
    then have "(i - 1) div 2 < i" by linarith
    then have "(tree_edge ps)\<^sup>*\<^sup>* (fst (hd ps)) (fst (ps ! ((i - 1) div 2)))"
      using less.prems by (intro less.IH) linarith+
    moreover have "tree_edge ps (fst (ps ! ((i - 1) div 2))) (fst (ps ! i))"
      unfolding tree_edge_def using less.prems False by (intro exI [of _ i]) simp
    ultimately show ?thesis by (rule rtranclp.rtrancl_into_rtrancl)
  qed
qed

text \<open>Participant \<open>a\<close> forwards to \<open>b\<close>, by the overlay that \<open>a\<close> builds for itself.\<close>

definition forwards ::
  "(nat \<Rightarrow> ('pid::linorder, 'addr) peer_addr list \<Rightarrow> ('pid, 'addr) peer_addr list) \<Rightarrow> nat
   \<Rightarrow> 'pid option \<Rightarrow> ('pid, 'addr) peer_addr list \<Rightarrow> 'pid \<Rightarrow> 'pid \<Rightarrow> bool" where
  "forwards shuffle n root ps a b \<longleftrightarrow>
     (case make_overlay shuffle n root a ps of
        Inr ov \<Rightarrow> b \<in> fst ` set (child_nodes ov)
      | Inl _ \<Rightarrow> False)"

text \<open>An instance: five peers, and the reversal as shuffle.\<close>

definition demo_shuffle :: "nat \<Rightarrow> 'a list \<Rightarrow> 'a list" where
  "demo_shuffle i xs = rev xs"

definition demo_peers :: "(nat, nat) peer_addr list" where
  "demo_peers = [(3, Some 30), (1, None), (4, Some 40), (0, None), (2, Some 20)]"

lemma demo_shuffle_permutes: "permutes_lists demo_shuffle"
  by (simp add: permutes_lists_def demo_shuffle_def)

section \<open>Properties\<close>

text \<open>
  C11. The level walk of \<open>build_links\<close> computes heap links: the peer at position \<open>k\<close> of a list
  of distinct peers has the peer at \<open>(k - 1) div 2\<close> as parent and those at \<open>2 k + 1\<close> and
  \<open>2 k + 2\<close> as children.
\<close>

theorem build_links_is_heap:
  assumes "distinct (map fst peers)" "k < length peers" "fst (peers ! k) = host"
  shows "build_links host peers = Inr (heap_links peers k)"
  by (rule build_links_heap [OF assms])

theorem build_links_is_heap_witness:
  "build_links 1 demo_peers =
     Inr (NodeLinks 3 (Both (0, None) (2, Some 20)))"
  using build_links_is_heap [of demo_peers 1 1]
  by (simp add: demo_peers_def heap_links_def get_def)

text \<open>
  Overlays built by two participants are coherent: whatever the order in which they hold the
  peers, \<open>b\<close> is a child of \<open>a\<close> in the overlay \<open>a\<close> builds exactly when \<open>a\<close> is a parent of
  \<open>b\<close> in the overlay \<open>b\<close> builds.
\<close>

theorem overlay_edges_coherent:
  assumes "permutes_lists shuffle" "distinct (map fst ps)" "mset ps = mset ps'"
    and "a \<in> fst ` set ps" "b \<in> fst ` set ps" "pred_option (\<lambda>r. r \<in> fst ` set ps) root"
  shows "\<exists>ov_a ov_b. make_overlay shuffle n root a ps = Inr ov_a \<and>
    make_overlay shuffle n root b ps' = Inr ov_b \<and>
    (b \<in> fst ` set (child_nodes ov_a) \<longleftrightarrow> a \<in> parent_nodes ov_b)"
proof -
  note same = mset_map_fst [OF assms(3) [symmetric] assms(2)]
  obtain qs where qs: "order_peers root ps = Inr qs"
    using order_peers_total [OF assms(6)] by blast
  then have qs': "order_peers root ps' = Inr qs"
    using order_peers_determined [OF assms(3,2), of root] by simp
  obtain ov_a where a: "make_overlay shuffle n root a ps = Inr ov_a"
    "fst ` set (child_nodes ov_a) = {b. \<exists>t \<in> set (pass_lists shuffle [0 ..< n] qs). tree_edge t a b}"
    by (rule make_overlay_edges [OF assms(1,2,4) qs])
  have "distinct (map fst ps')" "b \<in> fst ` set ps'" using same assms(5) by simp_all
  then obtain ov_b where b: "make_overlay shuffle n root b ps' = Inr ov_b"
    "parent_nodes ov_b = {a. \<exists>t \<in> set (pass_lists shuffle [0 ..< n] qs). tree_edge t a b}"
    by (rule make_overlay_edges [OF assms(1) _ _ qs'])
  from a(1) b(1) show ?thesis by (intro exI conjI) (assumption, assumption, simp only: a(2) b(2) mem_Collect_eq)
qed

theorem overlay_edges_coherent_witness:
  "\<exists>ov_a ov_b. make_overlay demo_shuffle 2 (Some 3) 3 demo_peers = Inr ov_a \<and>
    make_overlay demo_shuffle 2 (Some 3) 1 (rev demo_peers) = Inr ov_b \<and>
    (1 \<in> fst ` set (child_nodes ov_a) \<longleftrightarrow> 3 \<in> parent_nodes ov_b)"
  by (rule overlay_edges_coherent [OF demo_shuffle_permutes]) (simp_all add: demo_peers_def)

text \<open>
  C12. With a redundancy factor of at least one, every participant is reached from the root along
  the child links that the participants compute, each for itself: the root is the fixed root when
  one is given.
\<close>

theorem overlay_reaches_every_peer:
  assumes "permutes_lists shuffle" "distinct (map fst ps)" "r \<in> fst ` set ps" "0 < n"
    and "b \<in> fst ` set ps"
  shows "(forwards shuffle n (Some r) ps)\<^sup>*\<^sup>* r b"
proof -
  obtain qs where qs: "order_peers (Some r) ps = Inr qs"
    using order_peers_total [of ps "Some r"] assms(3) by auto
  note perm = mset_map_fst [OF order_peers_perm(1) [OF qs] assms(2)]
  have "b \<in> fst ` set qs" using assms(5) perm by simp
  then obtain k where k: "k < length qs" "fst (qs ! k) = b"
    by (auto simp: in_set_conv_nth)
  have head: "fst (hd qs) = r" "qs \<noteq> []"
    using order_peers_perm(2) [OF qs] k(1) by auto
  have first: "qs \<in> set (pass_lists shuffle [0 ..< n] qs)"
    unfolding upt_conv_Cons [OF assms(4)] by simp
  have forwards: "forwards shuffle n (Some r) ps x y" if "tree_edge qs x y" for x y
  proof -
    from that obtain j where "j < length qs" "fst (qs ! ((j - 1) div 2)) = x" by (rule tree_edgeE)
    moreover from this(1) have "(j - 1) div 2 < length qs"
      using div_le_dividend [of "j - 1" 2] by linarith
    ultimately have "x \<in> fst ` set ps" using perm nth_mem [of "(j - 1) div 2" qs] by auto
    then obtain ov where "make_overlay shuffle n (Some r) x ps = Inr ov"
      "fst ` set (child_nodes ov) = {b. \<exists>t \<in> set (pass_lists shuffle [0 ..< n] qs). tree_edge t x b}"
      by (rule make_overlay_edges [OF assms(1,2) _ qs])
    then show ?thesis unfolding forwards_def using first that by auto
  qed
  have "(tree_edge qs)\<^sup>*\<^sup>* r b" using tree_edge_reaches [OF head(2) k(1)] head(1) k(2) by simp
  then show ?thesis by (rule mono_rtranclp [rule_format, rotated]) (rule forwards)
qed

theorem overlay_reaches_every_peer_witness:
  "(forwards demo_shuffle 1 (Some 3) demo_peers)\<^sup>*\<^sup>* 3 4"
  by (rule overlay_reaches_every_peer [OF demo_shuffle_permutes]) (simp_all add: demo_peers_def)

text \<open>
  The fixed root is the root of the first pass only. With a redundancy factor of two it can
  receive a parent, and two participants can be each other's parent, so that the overlay is not
  acyclic.
\<close>

theorem fixed_root_lost_after_first_pass:
  "map_sum id parent_nodes (make_overlay demo_shuffle 2 (Some 3) 3 demo_peers) = Inr {2} \<and>
   forwards demo_shuffle 2 (Some 3) demo_peers 0 2 \<and> forwards demo_shuffle 2 (Some 3) demo_peers 2 0"
  by code_simp

end
