(* ===== verification/Behaviour.thy ===== *)
theory Behaviour
  imports Peers
begin

text \<open>
  Protocols on top of the network: what a protocol behaviour asks of the network, the events it
  receives (\<open>protocol_api.rs\<close>), the sink of a peer (\<open>peer_conn_handler/message_sink.rs\<close>), the
  handshakes of several versions (\<open>protocol_upgrade/handshake.rs\<close>) and the layer between a behaviour
  and the network (\<open>protocol_handler.rs\<close>), all of \<open>spectrum-network/src\<close>. A behaviour is a trait in
  the code: here it is the record of its operations. The CBOR codec is a parameter; an \<open>'i\<close> is what
  a poll of the behaviour gets from outside (clock, timers, progress of tasks).
\<close>

section \<open>Outputs of a behaviour\<close>

type_synonym raw_message = "8 word list"

datatype ('pid, 'addr, 'hs, 'msg) network_action =
    EnablePeer 'pid "(protocol_ver \<times> 'hs option) list"
  | UpdatePeerProtocols 'pid "protocol_id list"
  | SendOneShotMessage 'pid "'addr option" protocol_ver 'msg
  | BanPeer 'pid

datatype ('pid, 'addr, 'hs, 'msg) behaviour_out =
    Send 'pid 'msg
  | NetworkAction "('pid, 'addr, 'hs, 'msg) network_action"

fun bimap_out ::
  "('hs \<Rightarrow> 'hs2) \<Rightarrow> ('msg \<Rightarrow> 'msg2) \<Rightarrow> ('pid, 'addr, 'hs, 'msg) behaviour_out
   \<Rightarrow> ('pid, 'addr, 'hs2, 'msg2) behaviour_out" where
  "bimap_out left right (Send p m) = Send p (right m)"
| "bimap_out left right (NetworkAction (EnablePeer p hss)) =
     NetworkAction (EnablePeer p (map (\<lambda>(v, h). (v, map_option left h)) hss))"
| "bimap_out left right (NetworkAction (UpdatePeerProtocols p ps)) = NetworkAction (UpdatePeerProtocols p ps)"
| "bimap_out left right (NetworkAction (SendOneShotMessage p a v m)) =
     NetworkAction (SendOneShotMessage p a v (right m))"
| "bimap_out left right (NetworkAction (BanPeer p)) = NetworkAction (BanPeer p)"

section \<open>Sinks\<close>

datatype stream_notification = StreamMessage raw_message | ForceClose

text \<open>
  The synchronous side of a sink: the messages queued for the connection, the place the sender has
  in the buffer, whether the receiver is gone, and whether the sink still has its sender.
\<close>

record sink_state =
  sink_queue :: "stream_notification list"
  sink_capacity :: nat
  sink_disconnected :: bool
  sink_sender :: bool

definition try_send :: "sink_state \<Rightarrow> raw_message \<Rightarrow> sink_state option" where
  "try_send s msg =
     (if sink_disconnected s \<or> sink_capacity s \<le> length (sink_queue s) then None
      else Some (s\<lparr>sink_queue := sink_queue s @ [StreamMessage msg]\<rparr>))"

text \<open>
  \<open>send_message\<close>. On failure the code closes the channel from within a \<open>debug_assert!\<close>, which is
  compiled in when \<open>debug_assertions\<close> is set only; a clone of the sender has a place of its own.
\<close>

definition send_message :: "bool \<Rightarrow> sink_state \<Rightarrow> raw_message \<Rightarrow> sink_state \<times> bool" where
  "send_message debug_assertions s msg =
     (if sink_sender s then
        case try_send s msg of
          Some s' \<Rightarrow> (s', True)
        | None \<Rightarrow>
            let s' = (if debug_assertions \<and> \<not> sink_disconnected s
                      then s\<lparr>sink_queue := sink_queue s @ [ForceClose]\<rparr> else s)
            in (s'\<lparr>sink_sender := False\<rparr>, False)
      else (s, False))"

section \<open>Handshakes\<close>

text \<open>\<open>PolyVerHandshakeSpec\<close>: a map over versions, newest version first when listed.\<close>

type_synonym poly_ver_handshake_spec = "protocol_ver \<rightharpoonup> raw_message option"

definition handshake_for :: "poly_ver_handshake_spec \<Rightarrow> protocol_ver \<Rightarrow> raw_message option" where
  "handshake_for spec ver = (case spec ver of Some (Some h) \<Rightarrow> Some h | _ \<Rightarrow> None)"

definition spec_of_list :: "(protocol_ver \<times> raw_message option) list \<Rightarrow> poly_ver_handshake_spec" where
  "spec_of_list xs = map_of (rev xs)"

section \<open>Events and network calls\<close>

type_synonym sink_id = nat

datatype 'pid protocol_event =
    EvConnected 'pid
  | EvMessage 'pid protocol_ver raw_message
  | EvRequested 'pid protocol_ver "raw_message option"
  | EvRequestedLocal 'pid
  | EvEnabled 'pid protocol_ver sink_id "raw_message option"
  | EvDisabled 'pid

text \<open>The requests of the trait \<open>NetworkAPI\<close>, as \<open>NetworkControllerIn\<close> has them.\<close>

datatype ('pid, 'addr) network_controller_in =
    EnableProtocol protocol_id 'pid poly_ver_handshake_spec
  | SetPeerProtocols 'pid "protocol_id list"
  | SendOneShot 'pid "'addr option" protocol_tag raw_message
  | BanPeerReq 'pid

section \<open>Behaviours\<close>

datatype 'o poll_option = PollPending | PollReady 'o | PollEnd

text \<open>The trait \<open>ProtocolBehaviour\<close>.\<close>

record ('b, 'pid, 'addr, 'hs, 'msg, 'i) behaviour_ops =
  beh_peer_connected :: "'b \<Rightarrow> 'pid \<Rightarrow> 'b res"
  beh_message :: "'b \<Rightarrow> 'pid \<Rightarrow> 'msg \<Rightarrow> 'b res"
  beh_requested :: "'b \<Rightarrow> 'pid \<Rightarrow> 'hs option \<Rightarrow> 'b res"
  beh_requested_locally :: "'b \<Rightarrow> 'pid \<Rightarrow> 'b res"
  beh_enabled :: "'b \<Rightarrow> 'pid \<Rightarrow> 'hs option \<Rightarrow> 'b res"
  beh_disabled :: "'b \<Rightarrow> 'pid \<Rightarrow> 'b res"
  beh_poll :: "'i \<Rightarrow> 'b \<Rightarrow> ('b \<times> ('pid, 'addr, 'hs, 'msg) behaviour_out poll_option) res"

text \<open>\<open>codec::encode\<close>, \<open>codec::decode\<close> and \<open>Versioned::version\<close> for messages and handshakes.\<close>

record ('hs, 'msg) codec =
  enc_msg :: "'msg \<Rightarrow> raw_message"
  dec_msg :: "raw_message \<Rightarrow> 'msg option"
  msg_version :: "'msg \<Rightarrow> protocol_ver"
  enc_hs :: "'hs \<Rightarrow> raw_message"
  dec_hs :: "raw_message \<Rightarrow> 'hs option"
  hs_version :: "'hs \<Rightarrow> protocol_ver"

section \<open>The protocol handler\<close>

text \<open>
  Sinks are shared with the connections, so that the handler keeps their numbers and \<open>ph_sinks\<close> is
  the store. \<open>ph_network\<close> are the requests made to the network, oldest first.
\<close>

record ('b, 'pid, 'addr) protocol_handler =
  ph_peers :: "'pid \<rightharpoonup> sink_id"
  ph_inbox :: "'pid protocol_event list"
  ph_protocol :: protocol_id
  ph_behaviour :: 'b
  ph_network :: "('pid, 'addr) network_controller_in list"
  ph_sinks :: "sink_id \<Rightarrow> sink_state"

definition new_protocol_handler ::
  "'b \<Rightarrow> protocol_id \<Rightarrow> (sink_id \<Rightarrow> sink_state) \<Rightarrow> ('b, 'pid, 'addr) protocol_handler" where
  "new_protocol_handler behaviour protocol sinks =
     \<lparr>ph_peers = Map.empty, ph_inbox = [], ph_protocol = protocol, ph_behaviour = behaviour,
      ph_network = [], ph_sinks = sinks\<rparr>"

definition call_network ::
  "('pid, 'addr) network_controller_in \<Rightarrow> ('b, 'pid, 'addr) protocol_handler
   \<Rightarrow> ('b, 'pid, 'addr) protocol_handler" where
  "call_network c h = h\<lparr>ph_network := ph_network h @ [c]\<rparr>"

fun handle_out ::
  "bool \<Rightarrow> ('hs, 'msg) codec \<Rightarrow> ('pid, 'addr, 'hs, 'msg) behaviour_out \<Rightarrow> ('b, 'pid, 'addr) protocol_handler
   \<Rightarrow> ('b, 'pid, 'addr) protocol_handler" where
  "handle_out dbg cdc (Send peer_id message) h =
     (case ph_peers h peer_id of
        Some sink \<Rightarrow>
          h\<lparr>ph_sinks := (ph_sinks h)(sink := fst (send_message dbg (ph_sinks h sink) (enc_msg cdc message)))\<rparr>
      | None \<Rightarrow> h)"
| "handle_out dbg cdc (NetworkAction (EnablePeer pid handshakes)) h =
     call_network (EnableProtocol (ph_protocol h) pid
       (spec_of_list (map (\<lambda>(v, m). (v, map_option (enc_hs cdc) m)) handshakes))) h"
| "handle_out dbg cdc (NetworkAction (UpdatePeerProtocols pid prots)) h =
     call_network (SetPeerProtocols pid prots) h"
| "handle_out dbg cdc (NetworkAction (SendOneShotMessage pid addr_hint use_version message)) h =
     call_network (SendOneShot pid addr_hint (new_tag (ph_protocol h) use_version) (enc_msg cdc message)) h"
| "handle_out dbg cdc (NetworkAction (BanPeer pid)) h = call_network (BanPeerReq pid) h"

definition with_behaviour ::
  "('b, 'pid, 'addr) protocol_handler \<Rightarrow> 'b res \<Rightarrow> ('b, 'pid, 'addr) protocol_handler res" where
  "with_behaviour h r = res_bind r (\<lambda>b. Inr (h\<lparr>ph_behaviour := b\<rparr>))"

text \<open>A handshake is injected when it decodes and has the negotiated version; the peer is banned otherwise.\<close>

definition inject_handshake ::
  "('hs, 'msg) codec \<Rightarrow> ('b \<Rightarrow> 'pid \<Rightarrow> 'hs option \<Rightarrow> 'b res) \<Rightarrow> 'pid \<Rightarrow> protocol_ver \<Rightarrow> raw_message option
   \<Rightarrow> ('b, 'pid, 'addr) protocol_handler \<Rightarrow> ('b, 'pid, 'addr) protocol_handler res" where
  "inject_handshake cdc inject peer_id negotiated_ver handshake h =
     (case handshake of
        None \<Rightarrow> with_behaviour h (inject (ph_behaviour h) peer_id None)
      | Some raw \<Rightarrow>
          (case dec_hs cdc raw of
             Some hs \<Rightarrow>
               if hs_version cdc hs = negotiated_ver
               then with_behaviour h (inject (ph_behaviour h) peer_id (Some hs))
               else Inr (call_network (BanPeerReq peer_id) h)
           | None \<Rightarrow> Inr (call_network (BanPeerReq peer_id) h)))"

fun handle_event ::
  "('b, 'pid, 'addr, 'hs, 'msg, 'i) behaviour_ops \<Rightarrow> ('hs, 'msg) codec \<Rightarrow> 'pid protocol_event
   \<Rightarrow> ('b, 'pid, 'addr) protocol_handler \<Rightarrow> ('b, 'pid, 'addr) protocol_handler res" where
  "handle_event ops cdc (EvConnected peer_id) h =
     with_behaviour h (beh_peer_connected ops (ph_behaviour h) peer_id)"
| "handle_event ops cdc (EvMessage peer_id negotiated_ver content) h =
     (case dec_msg cdc content of
        Some msg \<Rightarrow>
          if msg_version cdc msg = negotiated_ver
          then with_behaviour h (beh_message ops (ph_behaviour h) peer_id msg)
          else Inr (call_network (BanPeerReq peer_id) h)
      | None \<Rightarrow> Inr (call_network (BanPeerReq peer_id) h))"
| "handle_event ops cdc (EvRequested peer_id negotiated_ver handshake) h =
     inject_handshake cdc (beh_requested ops) peer_id negotiated_ver handshake h"
| "handle_event ops cdc (EvRequestedLocal peer_id) h =
     with_behaviour h (beh_requested_locally ops (ph_behaviour h) peer_id)"
| "handle_event ops cdc (EvEnabled peer_id negotiated_ver sink handshake) h =
     inject_handshake cdc (beh_enabled ops) peer_id negotiated_ver handshake
       (h\<lparr>ph_peers := (ph_peers h)(peer_id \<mapsto> sink)\<rparr>)"
| "handle_event ops cdc (EvDisabled peer_id) h =
     with_behaviour h (beh_disabled ops (ph_behaviour h) peer_id)"

text \<open>
  The loop of \<open>poll_next\<close>. Every iteration takes one input for the poll of the behaviour; the result
  is \<open>None\<close> when the inputs run out before the loop returns.
\<close>

fun handler_poll_next ::
  "bool \<Rightarrow> ('b, 'pid, 'addr, 'hs, 'msg, 'i) behaviour_ops \<Rightarrow> ('hs, 'msg) codec \<Rightarrow> 'i list
   \<Rightarrow> ('b, 'pid, 'addr) protocol_handler \<Rightarrow> (('b, 'pid, 'addr) protocol_handler \<times> unit poll_option option) res" where
  "handler_poll_next dbg ops cdc [] h = Inr (h, None)"
| "handler_poll_next dbg ops cdc (i # is) h =
     res_bind (beh_poll ops i (ph_behaviour h)) (\<lambda>(b, r).
       let h = h\<lparr>ph_behaviour := b\<rparr>
       in case r of
            PollReady out \<Rightarrow> handler_poll_next dbg ops cdc is (handle_out dbg cdc out h)
          | PollEnd \<Rightarrow> Inr (h, Some PollEnd)
          | PollPending \<Rightarrow>
              (case ph_inbox h of
                 notif # rest \<Rightarrow>
                   res_bind (handle_event ops cdc notif (h\<lparr>ph_inbox := rest\<rparr>))
                     (handler_poll_next dbg ops cdc is)
               | [] \<Rightarrow> Inr (h, Some PollPending)))"

text \<open>A run: between two polls the network delivers events to the mailbox.\<close>

fun handler_run ::
  "bool \<Rightarrow> ('b, 'pid, 'addr, 'hs, 'msg, 'i) behaviour_ops \<Rightarrow> ('hs, 'msg) codec
   \<Rightarrow> ('pid protocol_event list \<times> 'i list) list \<Rightarrow> ('b, 'pid, 'addr) protocol_handler
   \<Rightarrow> ('b, 'pid, 'addr) protocol_handler res" where
  "handler_run dbg ops cdc [] h = Inr h"
| "handler_run dbg ops cdc ((evs, is) # rounds) h =
     res_bind (handler_poll_next dbg ops cdc is (h\<lparr>ph_inbox := ph_inbox h @ evs\<rparr>)) (\<lambda>(h, r).
       handler_run dbg ops cdc rounds h)"

section \<open>The contract of a behaviour\<close>

text \<open>
  What the handler relies on: as long as messages and handshakes are acceptable and the environment is
  fair, a behaviour keeps its invariant, does not panic, and bans faulty peers only.
\<close>

locale protocol_behaviour =
  fixes ops :: "('b, 'pid, 'addr, 'hs, 'msg, 'i) behaviour_ops"
    and binv :: "'b \<Rightarrow> bool"
    and ok_msg :: "'pid \<Rightarrow> 'msg \<Rightarrow> bool"
    and fair :: "'i \<Rightarrow> bool"
    and faulty :: "'pid set"
  assumes connected_ok: "binv b \<Longrightarrow> \<exists>b'. beh_peer_connected ops b p = Inr b' \<and> binv b'"
    and message_ok: "binv b \<Longrightarrow> ok_msg p m \<Longrightarrow> \<exists>b'. beh_message ops b p m = Inr b' \<and> binv b'"
    and requested_ok: "binv b \<Longrightarrow> \<exists>b'. beh_requested ops b p hs = Inr b' \<and> binv b'"
    and requested_locally_ok: "binv b \<Longrightarrow> \<exists>b'. beh_requested_locally ops b p = Inr b' \<and> binv b'"
    and enabled_ok: "binv b \<Longrightarrow> \<exists>b'. beh_enabled ops b p hs = Inr b' \<and> binv b'"
    and disabled_ok: "binv b \<Longrightarrow> \<exists>b'. beh_disabled ops b p = Inr b' \<and> binv b'"
    and poll_ok: "binv b \<Longrightarrow> fair i \<Longrightarrow> \<exists>b' r. beh_poll ops i b = Inr (b', r) \<and> binv b' \<and>
      (\<forall>p. r = PollReady (NetworkAction (BanPeer p)) \<longrightarrow> p \<in> faulty)"

text \<open>
  Events of the network as the contract allows them: what an honest peer sends decodes, has the
  negotiated version and is acceptable; what decodes from a faulty peer is acceptable too.
\<close>

definition ok_handshake :: "('hs, 'msg) codec \<Rightarrow> 'pid set \<Rightarrow> 'pid \<Rightarrow> protocol_ver \<Rightarrow> raw_message option \<Rightarrow> bool" where
  "ok_handshake cdc faulty p ver hs \<longleftrightarrow>
     p \<in> faulty \<or> (\<forall>raw. hs = Some raw \<longrightarrow> (\<exists>h. dec_hs cdc raw = Some h \<and> hs_version cdc h = ver))"

fun ok_event :: "('hs, 'msg) codec \<Rightarrow> ('pid \<Rightarrow> 'msg \<Rightarrow> bool) \<Rightarrow> 'pid set \<Rightarrow> 'pid protocol_event \<Rightarrow> bool" where
  "ok_event cdc ok_msg faulty (EvMessage p ver content) \<longleftrightarrow>
     (case dec_msg cdc content of
        Some m \<Rightarrow> (msg_version cdc m = ver \<longrightarrow> ok_msg p m) \<and> (msg_version cdc m \<noteq> ver \<longrightarrow> p \<in> faulty)
      | None \<Rightarrow> p \<in> faulty)"
| "ok_event cdc ok_msg faulty (EvRequested p ver hs) \<longleftrightarrow> ok_handshake cdc faulty p ver hs"
| "ok_event cdc ok_msg faulty (EvEnabled p ver sink hs) \<longleftrightarrow> ok_handshake cdc faulty p ver hs"
| "ok_event cdc ok_msg faulty _ \<longleftrightarrow> True"

definition bans_only :: "'pid set \<Rightarrow> ('b, 'pid, 'addr) protocol_handler \<Rightarrow> bool" where
  "bans_only faulty h \<longleftrightarrow> (\<forall>p. BanPeerReq p \<in> set (ph_network h) \<longrightarrow> p \<in> faulty)"

lemma handle_out_frame [simp]:
  "ph_behaviour (handle_out dbg cdc out h) = ph_behaviour h"
  "ph_inbox (handle_out dbg cdc out h) = ph_inbox h"
  by (induction dbg cdc out h rule: handle_out.induct) (simp_all add: call_network_def split: option.split)

lemma handle_out_bans:
  "bans_only faulty h \<Longrightarrow> (\<And>p. out = NetworkAction (BanPeer p) \<Longrightarrow> p \<in> faulty) \<Longrightarrow>
   bans_only faulty (handle_out dbg cdc out h)"
  by (induction dbg cdc out h rule: handle_out.induct)
    (auto simp: bans_only_def call_network_def split: option.split)

context protocol_behaviour
begin

lemma inject_handshake_ok:
  assumes "binv (ph_behaviour h)" "bans_only faulty h" "ok_handshake cdc faulty p ver hs"
    and "\<And>b p hs. binv b \<Longrightarrow> \<exists>b'. inject b p hs = Inr b' \<and> binv b'"
  shows "\<exists>h'. inject_handshake cdc inject p ver hs h = Inr h' \<and> binv (ph_behaviour h') \<and> bans_only faulty h' \<and>
    ph_inbox h' = ph_inbox h"
proof -
  have "\<exists>b'. inject (ph_behaviour h) p x = Inr b' \<and> binv b'" for x using assms(1,4) by blast
  then obtain f where f: "\<And>x. inject (ph_behaviour h) p x = Inr (f x)" "\<And>x. binv (f x)" by metis
  show ?thesis
    using assms(1-3)
    by (auto simp: inject_handshake_def with_behaviour_def f ok_handshake_def bans_only_def call_network_def
        split: option.splits)
qed

lemma handle_event_ok:
  assumes "binv (ph_behaviour h)" "bans_only faulty h" "ok_event cdc ok_msg faulty ev"
  shows "\<exists>h'. handle_event ops cdc ev h = Inr h' \<and> binv (ph_behaviour h') \<and> bans_only faulty h' \<and>
    ph_inbox h' = ph_inbox h"
proof (cases ev)
  case (EvConnected p)
  then show ?thesis using connected_ok [OF assms(1), of p] assms(2)
    by (auto simp: with_behaviour_def bans_only_def)
next
  case (EvMessage p ver content)
  then show ?thesis using message_ok [OF assms(1), of p] assms
    by (fastforce simp: with_behaviour_def bans_only_def call_network_def split: option.splits)
next
  case (EvRequested p ver hs)
  then show ?thesis using inject_handshake_ok [OF assms(1,2) _ requested_ok] assms(3) by simp
next
  case (EvRequestedLocal p)
  then show ?thesis using requested_locally_ok [OF assms(1), of p] assms(2)
    by (auto simp: with_behaviour_def bans_only_def)
next
  case (EvEnabled p ver sink hs)
  have bans: "bans_only faulty (h\<lparr>ph_peers := (ph_peers h)(p \<mapsto> sink)\<rparr>)"
    using assms(2) by (simp add: bans_only_def)
  show ?thesis
    using inject_handshake_ok [OF _ bans _ enabled_ok] assms(1,3) EvEnabled by simp
next
  case (EvDisabled p)
  then show ?thesis using disabled_ok [OF assms(1), of p] assms(2)
    by (auto simp: with_behaviour_def bans_only_def)
qed

lemma handler_safe:
  assumes "binv (ph_behaviour h)" "bans_only faulty h" "list_all (ok_event cdc ok_msg faulty) (ph_inbox h)"
    and "list_all fair is"
  shows "\<exists>h' r. handler_poll_next dbg ops cdc is h = Inr (h', r) \<and> binv (ph_behaviour h') \<and> bans_only faulty h' \<and>
    list_all (ok_event cdc ok_msg faulty) (ph_inbox h')"
  using assms
proof (induction "is" arbitrary: h)
  case (Cons i "is")
  obtain b r where p: "beh_poll ops i (ph_behaviour h) = Inr (b, r)" "binv b"
    "\<And>p. r = PollReady (NetworkAction (BanPeer p)) \<Longrightarrow> p \<in> faulty"
    using poll_ok [OF Cons.prems(1)] Cons.prems(4) by (metis list.pred_inject(2))
  let ?h = "h\<lparr>ph_behaviour := b\<rparr>"
  have bans: "bans_only faulty ?h" using Cons.prems(2) by (simp add: bans_only_def)
  show ?case
  proof (cases r)
    case (PollReady out)
    have "bans_only faulty (handle_out dbg cdc out ?h)"
      using p(3) PollReady by (intro handle_out_bans bans) simp
    then show ?thesis using Cons.IH [of "handle_out dbg cdc out ?h"] Cons.prems(3,4) p(1,2) PollReady by simp
  next
    case PollEnd
    then show ?thesis using p(1,2) bans Cons.prems(3) by simp
  next
    case PollPending
    show ?thesis
    proof (cases "ph_inbox h")
      case Nil
      then show ?thesis using p(1,2) bans PollPending by simp
    next
      case inbox: (Cons ev rest)
      have "binv (ph_behaviour (?h\<lparr>ph_inbox := rest\<rparr>))" "bans_only faulty (?h\<lparr>ph_inbox := rest\<rparr>)"
        "ok_event cdc ok_msg faulty ev"
        using p(2) bans Cons.prems(3) inbox by (simp_all add: bans_only_def)
      from handle_event_ok [OF this] obtain h' where
        "handle_event ops cdc ev (?h\<lparr>ph_inbox := rest\<rparr>) = Inr h'" "binv (ph_behaviour h')" "bans_only faulty h'"
        "ph_inbox h' = rest" by auto
      then show ?thesis using Cons.IH [of h'] Cons.prems(3,4) p(1) PollPending inbox by simp
    qed
  qed
qed simp

lemma run_safe:
  assumes "binv (ph_behaviour h)" "bans_only faulty h" "list_all (ok_event cdc ok_msg faulty) (ph_inbox h)"
    and "list_all (\<lambda>(evs, is). list_all (ok_event cdc ok_msg faulty) evs \<and> list_all fair is) rounds"
  shows "\<exists>h'. handler_run dbg ops cdc rounds h = Inr h' \<and> binv (ph_behaviour h') \<and> bans_only faulty h'"
  using assms
proof (induction rounds arbitrary: h)
  case (Cons r rounds)
  obtain evs "is" where r: "r = (evs, is)" by (cases r)
  let ?h = "h\<lparr>ph_inbox := ph_inbox h @ evs\<rparr>"
  have "binv (ph_behaviour ?h)" "bans_only faulty ?h" "list_all (ok_event cdc ok_msg faulty) (ph_inbox ?h)"
    "list_all fair is"
    using Cons.prems r by (simp_all add: bans_only_def)
  from handler_safe [OF this, of dbg] obtain h' x where "handler_poll_next dbg ops cdc is ?h = Inr (h', x)"
    "binv (ph_behaviour h')" "bans_only faulty h'" "list_all (ok_event cdc ok_msg faulty) (ph_inbox h')" by blast
  then show ?case using Cons.IH [of h'] Cons.prems(4) r by simp
qed simp

end

end
