(* ===== verification/Task_Pool.thy ===== *)
theory Task_Pool
  imports Prelude
begin

text \<open>
  The pool of asynchronous tasks of a protocol behaviour
  (\<open>spectrum-network/src/protocol_handler/pool.rs\<close>). A task is the sequence of the points at which
  it waits: sending to the behaviour over the bounded channel, asking the behaviour and awaiting the
  answer on a one-shot channel, reading the history (an \<open>'h\<close>), and calling another component (an
  \<open>'e\<close>). How far the runtime gets with which task, and which task times out, is an argument of each
  poll.
\<close>

section \<open>Tasks\<close>

text \<open>Tasks talk to protocol behaviour.\<close>

datatype ('i, 'o) from_task = ToBehaviour 'i | ToHandler 'o

datatype ('m, 'r, 'e, 'h) task =
    TaskDone
  | TaskSend 'm "('m, 'r, 'e, 'h) task"
  | TaskAsk "nat \<Rightarrow> 'm" "'r \<Rightarrow> ('m, 'r, 'e, 'h) task"
  | TaskAwait "'r \<Rightarrow> ('m, 'r, 'e, 'h) task"
  | TaskRead "'h \<Rightarrow> ('m, 'r, 'e, 'h) task"
  | TaskCall 'e "('m, 'r, 'e, 'h) task"
  | TaskPanic panic

text \<open>
  A question carries the number of the task as the address of the answer. \<open>pool_replies\<close> are the
  answers not yet read, \<open>pool_calls\<close> the calls made, oldest first.
\<close>

record ('m, 'r, 'e, 'h) task_pool =
  pool_next :: nat
  pool_tasks :: "(nat \<times> ('m, 'r, 'e, 'h) task) list"
  pool_replies :: "nat \<rightharpoonup> 'r"
  pool_calls :: "'e list"

definition new_pool :: "('m, 'r, 'e, 'h) task_pool" where
  "new_pool = \<lparr>pool_next = 0, pool_tasks = [], pool_replies = Map.empty, pool_calls = []\<rparr>"

definition spawn :: "('m, 'r, 'e, 'h) task_pool \<Rightarrow> ('m, 'r, 'e, 'h) task \<Rightarrow> ('m, 'r, 'e, 'h) task_pool" where
  "spawn p task = p\<lparr>pool_next := Suc (pool_next p), pool_tasks := pool_tasks p @ [(pool_next p, task)]\<rparr>"

section \<open>Progress\<close>

text \<open>One step of task \<open>n\<close>: \<open>None\<close> when it has to wait or is done.\<close>

definition task_step ::
  "nat \<Rightarrow> 'h \<Rightarrow> nat \<Rightarrow> ('m, 'r, 'e, 'h) task \<times> 'm list \<times> ('m, 'r, 'e, 'h) task_pool
   \<Rightarrow> (('m, 'r, 'e, 'h) task \<times> 'm list \<times> ('m, 'r, 'e, 'h) task_pool) option res" where
  "task_step cap h n s =
     (case s of (t, chan, p) \<Rightarrow>
        (case t of
           TaskDone \<Rightarrow> Inr None
         | TaskSend m t' \<Rightarrow> Inr (if length chan < cap then Some (t', chan @ [m], p) else None)
         | TaskAsk mk cont \<Rightarrow> Inr (if length chan < cap then Some (TaskAwait cont, chan @ [mk n], p) else None)
         | TaskAwait cont \<Rightarrow>
             Inr (case pool_replies p n of
                    Some r \<Rightarrow> Some (cont r, chan, p\<lparr>pool_replies := (pool_replies p)(n := None)\<rparr>)
                  | None \<Rightarrow> None)
         | TaskRead cont \<Rightarrow> Inr (Some (cont h, chan, p))
         | TaskCall e t' \<Rightarrow> Inr (Some (t', chan, p\<lparr>pool_calls := pool_calls p @ [e]\<rparr>))
         | TaskPanic e \<Rightarrow> Inl e))"

text \<open>At most \<open>k\<close> steps.\<close>

fun run_task ::
  "nat \<Rightarrow> 'h \<Rightarrow> nat \<Rightarrow> nat \<Rightarrow> ('m, 'r, 'e, 'h) task \<times> 'm list \<times> ('m, 'r, 'e, 'h) task_pool
   \<Rightarrow> (('m, 'r, 'e, 'h) task \<times> 'm list \<times> ('m, 'r, 'e, 'h) task_pool) res" where
  "run_task cap h n 0 s = Inr s"
| "run_task cap h n (Suc k) s =
     res_bind (task_step cap h n s) (\<lambda>r.
       case r of None \<Rightarrow> Inr s | Some s' \<Rightarrow> run_task cap h n k s')"

definition set_task ::
  "('m, 'r, 'e, 'h) task_pool \<Rightarrow> nat \<Rightarrow> ('m, 'r, 'e, 'h) task \<Rightarrow> ('m, 'r, 'e, 'h) task_pool" where
  "set_task p n t = p\<lparr>pool_tasks := map (\<lambda>(k, u). (k, if k = n then t else u)) (pool_tasks p)\<rparr>"

text \<open>A task that is done or timed out is dropped, with its end of the one-shot channel.\<close>

definition drop_task :: "('m, 'r, 'e, 'h) task_pool \<Rightarrow> nat \<Rightarrow> ('m, 'r, 'e, 'h) task_pool" where
  "drop_task p n =
     p\<lparr>pool_tasks := filter (\<lambda>(k, _). k \<noteq> n) (pool_tasks p), pool_replies := (pool_replies p)(n := None)\<rparr>"

datatype progress = Progress nat | TimedOut

text \<open>
  \<open>poll_next\<close>: the runtime polls the tasks of \<open>ready\<close> in this order. The first task that finishes
  ends the poll; one that timed out is dropped and the loop continues.
\<close>

fun pool_poll_next ::
  "nat \<Rightarrow> 'h \<Rightarrow> (nat \<times> progress) list \<Rightarrow> ('m, 'r, 'e, 'h) task_pool \<times> 'm list
   \<Rightarrow> (('m, 'r, 'e, 'h) task_pool \<times> 'm list) res" where
  "pool_poll_next cap h [] (p, chan) = Inr (p, chan)"
| "pool_poll_next cap h ((n, TimedOut) # ready) (p, chan) =
     pool_poll_next cap h ready (drop_task p n, chan)"
| "pool_poll_next cap h ((n, Progress k) # ready) (p, chan) =
     (case map_of (pool_tasks p) n of
        None \<Rightarrow> pool_poll_next cap h ready (p, chan)
      | Some t \<Rightarrow>
          res_bind (run_task cap h n k (t, chan, p)) (\<lambda>(t', chan', p').
            if t' = TaskDone then Inr (drop_task p' n, chan')
            else pool_poll_next cap h ready (set_task p' n t', chan')))"

text \<open>
  Answering a question: \<open>send\<close> on the one-shot channel, whose result the code unwraps, fails when the
  task that asked has been dropped.
\<close>

definition answer :: "('m, 'r, 'e, 'h) task_pool \<Rightarrow> nat \<Rightarrow> 'r \<Rightarrow> ('m, 'r, 'e, 'h) task_pool res" where
  "answer p n r =
     (if n \<in> fst ` set (pool_tasks p) then Inr (p\<lparr>pool_replies := (pool_replies p)(n \<mapsto> r)\<rparr>)
      else Inl UnwrapNone)"

section \<open>What a task can do\<close>

text \<open>
  A property of everything a task does, whatever answers and histories it gets: the messages it sends
  satisfy \<open>P\<close>, its calls satisfy \<open>C\<close>, and it does not panic. Questions depend on the task's number.
\<close>

inductive task_all ::
  "('m \<Rightarrow> bool) \<Rightarrow> ('e \<Rightarrow> bool) \<Rightarrow> ('m, 'r, 'e, 'h) task \<Rightarrow> bool" for P C where
  task_all_done: "task_all P C TaskDone"
| task_all_send: "P m \<Longrightarrow> task_all P C t \<Longrightarrow> task_all P C (TaskSend m t)"
| task_all_ask: "(\<And>n. P (mk n)) \<Longrightarrow> (\<And>r. task_all P C (cont r)) \<Longrightarrow> task_all P C (TaskAsk mk cont)"
| task_all_await: "(\<And>r. task_all P C (cont r)) \<Longrightarrow> task_all P C (TaskAwait cont)"
| task_all_read: "(\<And>h. task_all P C (cont h)) \<Longrightarrow> task_all P C (TaskRead cont)"
| task_all_call: "C e \<Longrightarrow> task_all P C t \<Longrightarrow> task_all P C (TaskCall e t)"

inductive_simps task_all_simps [simp]:
  "task_all P C TaskDone"
  "task_all P C (TaskSend m t)"
  "task_all P C (TaskAsk mk cont)"
  "task_all P C (TaskAwait cont)"
  "task_all P C (TaskRead cont)"
  "task_all P C (TaskCall e t)"
  "task_all P C (TaskPanic e)"

text \<open>The invariant of a pool and its channel.\<close>

definition pool_ok ::
  "('m \<Rightarrow> bool) \<Rightarrow> ('e \<Rightarrow> bool) \<Rightarrow> nat \<Rightarrow> ('m, 'r, 'e, 'h) task_pool \<Rightarrow> 'm list \<Rightarrow> bool" where
  "pool_ok P C cap p chan \<longleftrightarrow>
     (\<forall>(n, t) \<in> set (pool_tasks p). task_all P C t) \<and> list_all P chan \<and> length chan \<le> cap \<and>
     list_all C (pool_calls p)"

lemma task_step_ok:
  assumes "task_all P C t" "list_all P chan" "length chan \<le> cap" "list_all C (pool_calls p)"
  obtains (stuck) "task_step cap h n (t, chan, p) = Inr None"
    | (step) t' chan' p' where "task_step cap h n (t, chan, p) = Inr (Some (t', chan', p'))"
      "task_all P C t'" "list_all P chan'" "length chan' \<le> cap" "list_all C (pool_calls p')"
      "pool_tasks p' = pool_tasks p"
proof (cases t)
  case (TaskSend m t')
  then show ?thesis using assms step stuck by (cases "length chan < cap") (auto simp: task_step_def)
next
  case (TaskAsk mk cont)
  then show ?thesis using assms step stuck by (cases "length chan < cap") (auto simp: task_step_def)
next
  case (TaskAwait cont)
  then show ?thesis using assms step stuck by (cases "pool_replies p n") (auto simp: task_step_def)
qed (use assms step stuck in \<open>auto simp: task_step_def\<close>)

lemma run_task_ok:
  assumes "task_all P C t" "list_all P chan" "length chan \<le> cap" "list_all C (pool_calls p)"
  obtains t' chan' p' where "run_task cap h n k (t, chan, p) = Inr (t', chan', p')"
    "task_all P C t'" "list_all P chan'" "length chan' \<le> cap" "list_all C (pool_calls p')"
    "pool_tasks p' = pool_tasks p"
proof -
  have "\<exists>t' chan' p'. run_task cap h n k (t, chan, p) = Inr (t', chan', p') \<and> task_all P C t' \<and>
    list_all P chan' \<and> length chan' \<le> cap \<and> list_all C (pool_calls p') \<and> pool_tasks p' = pool_tasks p"
    using assms
  proof (induction k arbitrary: t chan p)
    case (Suc k)
    show ?case
    proof (rule task_step_ok [OF Suc.prems, of h n])
      assume "task_step cap h n (t, chan, p) = Inr None"
      then show ?thesis using Suc.prems by simp
    next
      fix t' chan' p'
      assume "task_step cap h n (t, chan, p) = Inr (Some (t', chan', p'))"
        "task_all P C t'" "list_all P chan'" "length chan' \<le> cap" "list_all C (pool_calls p')"
        "pool_tasks p' = pool_tasks p"
      then show ?thesis using Suc.IH [of t' chan' p'] by simp
    qed
  qed auto
  then show thesis using that by blast
qed

lemma pool_poll_next_ok:
  assumes "pool_ok P C cap p chan"
  shows "\<exists>p' chan'. pool_poll_next cap h ready (p, chan) = Inr (p', chan') \<and> pool_ok P C cap p' chan'"
  using assms
proof (induction cap h ready "(p, chan)" arbitrary: p chan rule: pool_poll_next.induct)
  case (2 cap h n ready p chan)
  then have "pool_ok P C cap (drop_task p n) chan" by (auto simp: pool_ok_def drop_task_def)
  then show ?case using "2.hyps" by simp
next
  case (3 cap h n k ready p chan)
  show ?case
  proof (cases "map_of (pool_tasks p) n")
    case None
    then show ?thesis using 3 by simp
  next
    case (Some t)
    then have t: "task_all P C t" using "3.prems" by (auto simp: pool_ok_def dest!: map_of_SomeD)
    have pre: "list_all P chan" "length chan \<le> cap" "list_all C (pool_calls p)"
      using "3.prems" by (simp_all add: pool_ok_def)
    obtain t' chan' p' where r: "run_task cap h n k (t, chan, p) = Inr (t', chan', p')"
      "task_all P C t'" "list_all P chan'" "length chan' \<le> cap" "list_all C (pool_calls p')"
      "pool_tasks p' = pool_tasks p"
      by (rule run_task_ok [OF t pre])
    have ok: "pool_ok P C cap (drop_task p' n) chan'" "pool_ok P C cap (set_task p' n t') chan'"
      using r "3.prems" by (auto simp: pool_ok_def drop_task_def set_task_def)
    show ?thesis
    proof (cases "t' = TaskDone")
      case True
      then show ?thesis using Some r(1) ok(1) by simp
    next
      case False
      then show ?thesis using "3.hyps"(2) [OF Some False ok(2)] Some r(1) by simp
    qed
  qed
qed auto

lemma spawn_ok: "pool_ok P C cap p chan \<Longrightarrow> task_all P C t \<Longrightarrow> pool_ok P C cap (spawn p t) chan"
  by (auto simp: pool_ok_def spawn_def)

lemma new_pool_ok: "pool_ok P C cap new_pool []"
  by (simp add: pool_ok_def new_pool_def)

section \<open>Questions and answers\<close>

text \<open>
  \<open>asks\<close> tells which messages are questions, and whose. A task asks in its own name only.
\<close>

inductive task_asks :: "('m \<Rightarrow> nat option) \<Rightarrow> ('m, 'r, 'e, 'h) task \<Rightarrow> bool" for asks where
  task_asks_done: "task_asks asks TaskDone"
| task_asks_send: "asks m = None \<Longrightarrow> task_asks asks t \<Longrightarrow> task_asks asks (TaskSend m t)"
| task_asks_ask: "(\<And>n. asks (mk n) = Some n) \<Longrightarrow> (\<And>r. task_asks asks (cont r)) \<Longrightarrow> task_asks asks (TaskAsk mk cont)"
| task_asks_await: "(\<And>r. task_asks asks (cont r)) \<Longrightarrow> task_asks asks (TaskAwait cont)"
| task_asks_read: "(\<And>h. task_asks asks (cont h)) \<Longrightarrow> task_asks asks (TaskRead cont)"
| task_asks_call: "task_asks asks t \<Longrightarrow> task_asks asks (TaskCall e t)"
| task_asks_panic: "task_asks asks (TaskPanic e)"

inductive_simps task_asks_simps [simp]:
  "task_asks asks TaskDone"
  "task_asks asks (TaskSend m t)"
  "task_asks asks (TaskAsk mk cont)"
  "task_asks asks (TaskAwait cont)"
  "task_asks asks (TaskRead cont)"
  "task_asks asks (TaskCall e t)"
  "task_asks asks (TaskPanic e)"

fun questions :: "('m \<Rightarrow> nat option) \<Rightarrow> 'm list \<Rightarrow> nat list" where
  "questions asks [] = []"
| "questions asks (m # ms) = (case asks m of Some n \<Rightarrow> [n] | None \<Rightarrow> []) @ questions asks ms"

lemma questions_append [simp]: "questions asks (xs @ ys) = questions asks xs @ questions asks ys"
  by (induction xs) simp_all

fun is_await :: "('m, 'r, 'e, 'h) task \<Rightarrow> bool" where
  "is_await (TaskAwait cont) = True"
| "is_await _ = False"

text \<open>The tasks by number, as a map that a running task overrides.\<close>

definition waiting :: "(nat \<rightharpoonup> ('m, 'r, 'e, 'h) task) \<Rightarrow> nat \<Rightarrow> bool" where
  "waiting ts n \<longleftrightarrow> (\<exists>t. ts n = Some t \<and> is_await t)"

definition addressed ::
  "('m \<Rightarrow> nat option) \<Rightarrow> (nat \<rightharpoonup> ('m, 'r, 'e, 'h) task) \<Rightarrow> (nat \<rightharpoonup> 'r) \<Rightarrow> 'm list \<Rightarrow> bool" where
  "addressed asks ts replies chan \<longleftrightarrow>
     (\<forall>n t. ts n = Some t \<longrightarrow> task_asks asks t) \<and> distinct (questions asks chan) \<and>
     (\<forall>n \<in> set (questions asks chan). waiting ts n \<and> replies n = None) \<and>
     (\<forall>n. replies n \<noteq> None \<longrightarrow> waiting ts n)"

lemma addressed_not_waiting:
  "addressed asks ts replies chan \<Longrightarrow> \<not> waiting ts n \<Longrightarrow> n \<notin> set (questions asks chan) \<and> replies n = None"
  by (auto simp: addressed_def)

lemma addressed_update:
  assumes "addressed asks ts replies chan" "task_asks asks t" "n \<notin> set (questions asks chan)" "replies n = None"
  shows "addressed asks (ts(n \<mapsto> t)) replies chan"
  using assms by (auto simp: addressed_def waiting_def)

lemma addressed_reply:
  assumes "addressed asks ts replies chan" "task_asks asks t" "n \<notin> set (questions asks chan)"
  shows "addressed asks (ts(n \<mapsto> t)) (replies(n := None)) chan"
  using assms by (auto simp: addressed_def waiting_def)

lemma addressed_quiet:
  "asks m = None \<Longrightarrow> addressed asks ts replies (chan @ [m]) \<longleftrightarrow> addressed asks ts replies chan"
  by (simp add: addressed_def)

lemma task_step_addressed:
  assumes inv: "addressed asks (ts(n \<mapsto> t)) (pool_replies p) chan"
    and step: "task_step cap h n (t, chan, p) = Inr (Some (t', chan', p'))"
  shows "addressed asks (ts(n \<mapsto> t')) (pool_replies p') chan'"
proof -
  have t: "task_asks asks t" using inv unfolding addressed_def by (metis fun_upd_same)
  have quiet: "n \<notin> set (questions asks chan)" "pool_replies p n = None" if "\<not> is_await t"
    using addressed_not_waiting [OF inv, of n] that by (auto simp: waiting_def)
  note upd = addressed_update [OF inv, of _ n, simplified]
  show ?thesis
  proof (cases t)
    case (TaskSend m u)
    then have "addressed asks (ts(n \<mapsto> u)) (pool_replies p) chan" "asks m = None"
      using t upd quiet by auto
    then show ?thesis using step TaskSend
      by (auto simp: task_step_def addressed_quiet simp del: fun_upd_apply split: if_splits)
  next
    case (TaskAsk mk cont)
    then have "addressed asks (ts(n \<mapsto> TaskAwait cont)) (pool_replies p) chan" "asks (mk n) = Some n"
      using t upd quiet by auto
    then show ?thesis using step TaskAsk quiet
      by (auto simp: task_step_def addressed_def waiting_def split: if_splits)
  next
    case (TaskAwait cont)
    then obtain r where r: "pool_replies p n = Some r" "t' = cont r" "chan' = chan"
      "p' = p\<lparr>pool_replies := (pool_replies p)(n := None)\<rparr>"
      using step by (auto simp: task_step_def split: option.splits)
    have "n \<notin> set (questions asks chan)" using inv r(1) by (auto simp: addressed_def)
    from addressed_reply [OF inv _ this, of "cont r"] show ?thesis using t TaskAwait r by simp
  qed (use step t upd quiet in \<open>auto simp: task_step_def\<close>)
qed

lemma run_task_addressed:
  "addressed asks (ts(n \<mapsto> t)) (pool_replies p) chan \<Longrightarrow>
   run_task cap h n k (t, chan, p) = Inr (t', chan', p') \<Longrightarrow>
   addressed asks (ts(n \<mapsto> t')) (pool_replies p') chan'"
proof (induction k arbitrary: t chan p)
  case (Suc k)
  then obtain r where r: "task_step cap h n (t, chan, p) = Inr r" by (auto simp: res_simps)
  show ?case
  proof (cases r)
    case None
    then show ?thesis using Suc.prems r by auto
  next
    case (Some s)
    obtain t1 chan1 p1 where s: "s = (t1, chan1, p1)" by (cases s) auto
    then have "addressed asks (ts(n \<mapsto> t1)) (pool_replies p1) chan1"
      using task_step_addressed [OF Suc.prems(1)] r Some by blast
    from Suc.IH [OF this] show ?thesis using Suc.prems(2) r Some s by (simp del: fun_upd_apply)
  qed
qed simp

text \<open>The pool: numbers are unique and below the next one.\<close>

definition pool_addressed :: "('m \<Rightarrow> nat option) \<Rightarrow> ('m, 'r, 'e, 'h) task_pool \<Rightarrow> 'm list \<Rightarrow> bool" where
  "pool_addressed asks p chan \<longleftrightarrow>
     (\<forall>n \<in> fst ` set (pool_tasks p). n < pool_next p) \<and>
     addressed asks (map_of (pool_tasks p)) (pool_replies p) chan"

lemma run_task_frame:
  "run_task cap h n k (t, chan, p) = Inr (t', chan', p') \<Longrightarrow>
   pool_tasks p' = pool_tasks p \<and> pool_next p' = pool_next p"
proof (induction k arbitrary: t chan p)
  case (Suc k)
  then show ?case
    by (auto simp: res_simps task_step_def split: option.splits task.splits if_splits)
qed simp

lemma map_of_set_task:
  "n \<in> fst ` set ts \<Longrightarrow> map_of (map (\<lambda>(k, u). (k, if k = n then t else u)) ts) = (map_of ts)(n \<mapsto> t)"
proof (induction ts)
  case (Cons a ts)
  show ?case
  proof (cases "n \<in> fst ` set ts")
    case True
    then show ?thesis using Cons.IH by (cases a) (auto simp: fun_eq_iff)
  next
    case False
    then have "map (\<lambda>(k, u). (k, if k = n then t else u)) ts = ts" by (intro map_idI) force
    then show ?thesis using Cons.prems False by (cases a) auto
  qed
qed simp

lemma map_of_drop_task: "map_of (filter (\<lambda>(k, _). k \<noteq> n) ts) = (map_of ts)(n := None)"
  by (induction ts) (auto simp: fun_eq_iff)

lemma pool_poll_next_addressed:
  "pool_addressed asks p chan \<Longrightarrow> \<forall>(n, g) \<in> set ready. g \<noteq> TimedOut \<Longrightarrow>
   pool_poll_next cap h ready (p, chan) = Inr (p', chan') \<Longrightarrow> pool_addressed asks p' chan'"
proof (induction cap h ready "(p, chan)" arbitrary: p chan rule: pool_poll_next.induct)
  case (3 cap h n k ready p chan)
  show ?case
  proof (cases "map_of (pool_tasks p) n")
    case None
    then show ?thesis using 3 by simp
  next
    case (Some t)
    then have n: "n \<in> fst ` set (pool_tasks p)" by (metis domI dom_map_of_conv_image_fst)
    have "addressed asks ((map_of (pool_tasks p))(n \<mapsto> t)) (pool_replies p) chan"
      using "3.prems"(1) Some by (simp add: pool_addressed_def map_upd_triv)
    moreover obtain t' chan1 p1 where r: "run_task cap h n k (t, chan, p) = Inr (t', chan1, p1)"
      using "3.prems"(3) Some by (auto simp: res_simps)
    ultimately have a: "addressed asks ((map_of (pool_tasks p))(n \<mapsto> t')) (pool_replies p1) chan1"
      by (rule run_task_addressed)
    note frame = run_task_frame [OF r]
    show ?thesis
    proof (cases "t' = TaskDone")
      case True
      then have "n \<notin> set (questions asks chan1)" "pool_replies p1 n = None"
        using addressed_not_waiting [OF a, of n] by (auto simp: waiting_def)
      then have "pool_addressed asks (drop_task p1 n) chan1"
        using a "3.prems"(1) frame
        by (auto simp: pool_addressed_def drop_task_def map_of_drop_task addressed_def waiting_def)
      then show ?thesis using "3.prems"(3) Some r True by simp
    next
      case False
      have "pool_addressed asks (set_task p1 n t') chan1"
        using a "3.prems"(1) frame map_of_set_task [OF n, of t']
        by (auto simp: pool_addressed_def set_task_def)
      then show ?thesis using "3.hyps"(2) [OF Some False] "3.prems"(2,3) Some r False by simp
    qed
  qed
qed auto

lemma answer_addressed:
  assumes "pool_addressed asks p (m # chan)" "asks m = Some n"
  obtains p' where "answer p n r = Inr p'" "pool_addressed asks p' chan"
proof
  have a: "addressed asks (map_of (pool_tasks p)) (pool_replies p) (m # chan)"
    using assms(1) by (simp add: pool_addressed_def)
  then have w: "waiting (map_of (pool_tasks p)) n" "n \<notin> set (questions asks chan)"
    using assms(2) by (auto simp: addressed_def)
  then have n: "n \<in> fst ` set (pool_tasks p)" by (metis waiting_def domI dom_map_of_conv_image_fst)
  then show "answer p n r = Inr (p\<lparr>pool_replies := (pool_replies p)(n \<mapsto> r)\<rparr>)" by (simp add: answer_def)
  show "pool_addressed asks (p\<lparr>pool_replies := (pool_replies p)(n \<mapsto> r)\<rparr>) chan"
    using assms w by (auto simp: pool_addressed_def addressed_def)
qed

lemma consume_addressed: "pool_addressed asks p (m # chan) \<Longrightarrow> pool_addressed asks p chan"
  by (auto simp: pool_addressed_def addressed_def)

lemma spawn_addressed:
  assumes "pool_addressed asks p chan" "task_asks asks t"
  shows "pool_addressed asks (spawn p t) chan"
proof -
  let ?ts = "map_of (pool_tasks p)"
  have fresh: "?ts (pool_next p) = None"
    using assms(1) by (metis less_irrefl map_of_eq_None_iff pool_addressed_def)
  have "map_of (pool_tasks p @ [(pool_next p, t)]) = ?ts(pool_next p \<mapsto> t)"
    using fresh by (auto simp: fun_eq_iff map_add_def split: option.split)
  moreover have "addressed asks (?ts(pool_next p \<mapsto> t)) (pool_replies p) chan"
    using assms addressed_not_waiting [of asks ?ts _ chan "pool_next p"] fresh
    by (intro addressed_update) (auto simp: pool_addressed_def waiting_def)
  ultimately show ?thesis using assms(1) by (auto simp: pool_addressed_def spawn_def less_Suc_eq)
qed

lemma new_pool_addressed: "pool_addressed asks new_pool []"
  by (simp add: pool_addressed_def new_pool_def addressed_def)

end
