(* ===== verification/Multicast.thy ===== *)
theory Multicast
  imports Overlay Handel Behaviour Task_Pool
begin

text \<open>
  Multicasting over the overlay (\<open>spectrum-mcast/src/behaviour.rs\<close>): the stage
  \<open>DagMulticasting\<close>, which combines statements along the way, and \<open>DagMulticastingAsync\<close>, which
  verifies them in tasks of a pool. Both
  implement the trait \<open>TemporalProtocolStage\<close>; the contract the two share is the locale
  \<open>temporal_stage\<close>. A sleep is the instant it ends at, and the clock is the argument \<open>now\<close>.
  How far the runtime gets with which task is an argument of each poll.
\<close>

section \<open>Stages\<close>

text \<open>What a multicasting stage emits; it has no handshakes (\<open>VoidMessage\<close>).\<close>

type_synonym ('pid, 'addr, 's) mcast_action = "('pid, 'addr, unit, 's) behaviour_out"

datatype ('o, 's) stage_poll = StagePending | StageLeft 'o | is_StageRight: StageRight 's

datatype ('pid, 's, 'i) stage_event = InjectStage 'pid 's | PollStage 'i

text \<open>One call of a stage; what the polls return is logged.\<close>

fun stage_step ::
  "('m \<Rightarrow> 'pid \<Rightarrow> 's \<Rightarrow> 'm res) \<Rightarrow> ('m \<Rightarrow> 'i \<Rightarrow> ('m \<times> 'r) res) \<Rightarrow> 'm \<times> 'r list
   \<Rightarrow> ('pid, 's, 'i) stage_event \<Rightarrow> ('m \<times> 'r list) res" where
  "stage_step inject spoll (m, log) (InjectStage p s) = res_bind (inject m p s) (\<lambda>m'. Inr (m', log))"
| "stage_step inject spoll (m, log) (PollStage i) =
     res_bind (spoll m i) (\<lambda>(m', r). Inr (m', log @ [r]))"

definition run_stage ::
  "('m \<Rightarrow> 'pid \<Rightarrow> 's \<Rightarrow> 'm res) \<Rightarrow> ('m \<Rightarrow> 'i \<Rightarrow> ('m \<times> 'r) res) \<Rightarrow> 'm
   \<Rightarrow> ('pid, 's, 'i) stage_event list \<Rightarrow> ('m \<times> 'r list) res" where
  "run_stage inject spoll m es = res_fold (stage_step inject spoll) (m, []) es"

text \<open>The contract of a stage: calls keep the invariant and polls return good results only.\<close>

locale temporal_stage =
  fixes inject :: "'m \<Rightarrow> 'pid \<Rightarrow> 's \<Rightarrow> 'm res"
    and spoll :: "'m \<Rightarrow> 'i \<Rightarrow> ('m \<times> 'r) res"
    and inv :: "'m \<Rightarrow> bool"
    and ok :: "'pid \<Rightarrow> 's \<Rightarrow> bool"
    and good :: "'r \<Rightarrow> bool"
  assumes inject_total: "inv m \<Longrightarrow> \<exists>m'. inject m p s = Inr m'"
    and inject_inv: "inv m \<Longrightarrow> ok p s \<Longrightarrow> inject m p s = Inr m' \<Longrightarrow> inv m'"
    and poll_good: "inv m \<Longrightarrow> \<exists>m' r. spoll m i = Inr (m', r) \<and> inv m' \<and> good r"
begin

lemma stage_step_inv:
  assumes "inv m" "\<forall>r \<in> set log. good r" "\<And>p s. e = InjectStage p s \<Longrightarrow> ok p s"
  shows "\<exists>m' log'. stage_step inject spoll (m, log) e = Inr (m', log') \<and> inv m' \<and> (\<forall>r \<in> set log'. good r)"
proof (cases e)
  case (InjectStage p s)
  then show ?thesis
    using assms inject_total [OF assms(1), of p s] inject_inv [OF assms(1), of p s] by auto
next
  case (PollStage i)
  then show ?thesis
    using assms(2) poll_good [OF assms(1), of i] by auto
qed

lemma run_good:
  assumes "inv m" "\<And>p s. InjectStage p s \<in> set es \<Longrightarrow> ok p s"
  shows "\<exists>m' log. run_stage inject spoll m es = Inr (m', log) \<and> inv m' \<and> (\<forall>r \<in> set log. good r)"
proof -
  have "\<exists>m' log'. res_fold (stage_step inject spoll) (m, log) es = Inr (m', log') \<and> inv m' \<and>
      (\<forall>r \<in> set log'. good r)" if "\<forall>r \<in> set log. good r" for log
    using assms that
  proof (induction es arbitrary: m log)
    case (Cons e es)
    obtain m1 log1 where "stage_step inject spoll (m, log) e = Inr (m1, log1)" "inv m1"
      "\<forall>r \<in> set log1. good r"
      using stage_step_inv [OF Cons.prems(1,3)] Cons.prems(2) by (metis list.set_intros(1))
    then show ?case using Cons.IH [of m1 log1] Cons.prems(2) by simp
  qed simp
  then show ?thesis by (simp add: run_stage_def)
qed

end

section \<open>Multicasting with aggregation\<close>

record mcast_config =
  processing_delay :: nat
  multicasting_duration :: nat
  redundancy_factor :: nat
  seed :: nat

record ('pid, 'addr, 's) dag_multicasting =
  mc_statement :: "'s option"
  mc_overlay :: "('pid, 'addr) dag_overlay"
  mc_contacted_peers :: "'pid set"
  mc_outbox :: "('pid, 'addr, 's) mcast_action list"
  mc_partitions :: "('pid, 'addr) binomial_peer_partitions"
  mc_creation_time :: nat
  mc_processing_delay :: nat
  mc_next_processing :: "nat option"
  mc_multicasting_duration :: nat

text \<open>\<open>new\<close> looks every neighbour up in the partitions, for its trace, and unwraps the result.\<close>

definition new_multicasting ::
  "'s option \<Rightarrow> ('pid, 'addr) dag_overlay \<Rightarrow> mcast_config \<Rightarrow> ('pid, 'addr) binomial_peer_partitions
   \<Rightarrow> nat \<Rightarrow> ('pid, 'addr, 's) dag_multicasting res" where
  "new_multicasting statement overlay config partitions now =
     (if (\<forall>p \<in> parent_nodes overlay. try_index_peer partitions p \<noteq> None) \<and>
         (\<forall>(p, _) \<in> set (child_nodes overlay). try_index_peer partitions p \<noteq> None)
      then Inr \<lparr>mc_statement = statement, mc_overlay = overlay, mc_contacted_peers = {}, mc_outbox = [],
                mc_partitions = partitions, mc_creation_time = now,
                mc_processing_delay = processing_delay config,
                mc_next_processing = Some (now + processing_delay config),
                mc_multicasting_duration = multicasting_duration config\<rparr>
      else Inl UnwrapNone)"

definition mcast_inject_message ::
  "'s contrib_ops \<Rightarrow> ('pid, 'addr, 's) dag_multicasting \<Rightarrow> 'pid \<Rightarrow> 's
   \<Rightarrow> ('pid, 'addr, 's) dag_multicasting res" where
  "mcast_inject_message ops m peer_id content =
     (if peer_id \<in> parent_nodes (mc_overlay m) then
        if verify ops content then
          case mc_statement m of
            Some stmt \<Rightarrow>
              let m0 = m\<lparr>mc_statement := None\<rparr>
              in case try_combine ops stmt content of
                   Some combined \<Rightarrow>
                     if weight ops stmt < weight ops combined then
                       if \<forall>p \<in> mc_contacted_peers m. try_index_peer (mc_partitions m) p \<noteq> None
                       then Inr (m0\<lparr>mc_contacted_peers := {}, mc_statement := Some combined\<rparr>)
                       else Inl UnwrapNone
                     else Inr (m0\<lparr>mc_statement := Some combined\<rparr>)
                 | None \<Rightarrow> Inr m0
          | None \<Rightarrow> Inr (m\<lparr>mc_statement := Some content\<rparr>)
        else Inr (m\<lparr>mc_outbox := mc_outbox m @ [NetworkAction (BanPeer peer_id)]\<rparr>)
      else Inr m)"

text \<open>The loop over the children that both stages have: whom to contact, and with what.\<close>

fun contact_children ::
  "'s \<Rightarrow> ('pid, 'addr) peer_addr list \<Rightarrow> 'pid set \<times> ('pid, 'addr, 's) mcast_action list
   \<Rightarrow> 'pid set \<times> ('pid, 'addr, 's) mcast_action list" where
  "contact_children stmt [] (contacted, out) = (contacted, out)"
| "contact_children stmt ((pid, hint) # cs) (contacted, out) =
     (if pid \<notin> contacted
      then contact_children stmt cs
        (insert pid contacted, out @ [NetworkAction (SendOneShotMessage pid hint default_protocol_ver stmt)])
      else contact_children stmt cs (contacted, out))"

definition mcast_contact ::
  "('pid, 'addr, 's) dag_multicasting \<Rightarrow> ('pid, 'addr, 's) dag_multicasting" where
  "mcast_contact m =
     (case mc_statement m of
        Some stmt \<Rightarrow>
          let (contacted, out) =
            contact_children stmt (child_nodes (mc_overlay m)) (mc_contacted_peers m, mc_outbox m)
          in m\<lparr>mc_contacted_peers := contacted, mc_outbox := out\<rparr>
      | None \<Rightarrow> m)"

definition mcast_poll ::
  "('pid, 'addr, 's) dag_multicasting \<Rightarrow> nat
   \<Rightarrow> (('pid, 'addr, 's) dag_multicasting \<times> (('pid, 'addr, 's) mcast_action, 's) stage_poll) res" where
  "mcast_poll m now =
     Inr (if (case mc_next_processing m of Some t \<Rightarrow> now < t | None \<Rightarrow> False)
      then (m, StagePending)
      else
        let m0 = m\<lparr>mc_next_processing := None\<rparr>
        in if mc_multicasting_duration m < now - mc_creation_time m \<and> mc_statement m \<noteq> None
           then (m0\<lparr>mc_statement := None\<rparr>, StageRight (the (mc_statement m)))
           else
             let m1 = mcast_contact m0;
                 rearmed = m1\<lparr>mc_next_processing := Some (now + mc_processing_delay m)\<rparr>
             in case mc_outbox m1 of
                  out # rest \<Rightarrow> (rearmed\<lparr>mc_outbox := rest\<rparr>, StageLeft out)
                | [] \<Rightarrow> (rearmed, StagePending))"

section \<open>Multicasting with asynchronous verification\<close>

text \<open>A verification task sends one message; it asks, reads and calls nothing.\<close>

type_synonym ('pid, 'addr, 's) mcast_message = "('s, ('pid, 'addr, 's) mcast_action) from_task"

type_synonym ('pid, 'addr, 's) mcast_pool = "(('pid, 'addr, 's) mcast_message, unit, unit, unit) task_pool"

record ('pid, 'addr, 's) dag_multicasting_async =
  am_statement :: "'s option"
  am_overlay :: "('pid, 'addr) dag_overlay"
  am_contacted_peers :: "'pid set"
  am_outbox :: "('pid, 'addr, 's) mcast_action list"
  am_from_tasks :: "('pid, 'addr, 's) mcast_message list"
  am_tasks :: "('pid, 'addr, 's) mcast_pool"

definition FROM_TASK_BUFFER_SIZE :: nat where
  "FROM_TASK_BUFFER_SIZE = 1000"

definition new_multicasting_async ::
  "'s option \<Rightarrow> ('pid, 'addr) dag_overlay \<Rightarrow> ('pid, 'addr, 's) dag_multicasting_async" where
  "new_multicasting_async statement overlay =
     \<lparr>am_statement = statement, am_overlay = overlay, am_contacted_peers = {}, am_outbox = [],
      am_from_tasks = [], am_tasks = new_pool\<rparr>"

definition on_apply_statement ::
  "('pid, 'addr, 's) dag_multicasting_async \<Rightarrow> 's \<Rightarrow> ('pid, 'addr, 's) dag_multicasting_async" where
  "on_apply_statement m stmt =
     (if am_statement m = None then m\<lparr>am_statement := Some stmt\<rparr> else m)"

text \<open>The spawned task: verification, and what it sends to the behaviour.\<close>

definition verification_task ::
  "('s \<Rightarrow> bool) \<Rightarrow> 'pid \<Rightarrow> 's \<Rightarrow> (('pid, 'addr, 's) mcast_message, unit, unit, unit) task" where
  "verification_task ver peer_id content =
     TaskSend (if ver content then ToBehaviour content else ToHandler (NetworkAction (BanPeer peer_id))) TaskDone"

definition async_inject_message ::
  "('s \<Rightarrow> bool) \<Rightarrow> ('pid, 'addr, 's) dag_multicasting_async \<Rightarrow> 'pid \<Rightarrow> 's
   \<Rightarrow> ('pid, 'addr, 's) dag_multicasting_async res" where
  "async_inject_message ver m peer_id content =
     Inr (if peer_id \<in> parent_nodes (am_overlay m)
          then m\<lparr>am_tasks := spawn (am_tasks m) (verification_task ver peer_id content)\<rparr> else m)"

definition async_process_output ::
  "('pid, 'addr, 's) dag_multicasting_async \<Rightarrow> ('pid, 'addr, 's) dag_multicasting_async" where
  "async_process_output m =
     (case am_from_tasks m of
        [] \<Rightarrow> m
      | ToBehaviour input # rest \<Rightarrow> on_apply_statement (m\<lparr>am_from_tasks := rest\<rparr>) input
      | ToHandler out # rest \<Rightarrow> m\<lparr>am_from_tasks := rest, am_outbox := am_outbox m @ [out]\<rparr>)"

definition async_contact ::
  "('pid, 'addr, 's) dag_multicasting_async \<Rightarrow> ('pid, 'addr, 's) dag_multicasting_async" where
  "async_contact m =
     (case am_statement m of
        Some stmt \<Rightarrow>
          let (contacted, out) =
            contact_children stmt (child_nodes (am_overlay m)) (am_contacted_peers m, am_outbox m)
          in m\<lparr>am_contacted_peers := contacted, am_outbox := out\<rparr>
      | None \<Rightarrow> m)"

definition async_poll ::
  "('pid, 'addr, 's) dag_multicasting_async \<Rightarrow> (nat \<times> progress) list
   \<Rightarrow> (('pid, 'addr, 's) dag_multicasting_async \<times> (('pid, 'addr, 's) mcast_action, 's) stage_poll) res" where
  "async_poll m ready =
     res_bind (pool_poll_next FROM_TASK_BUFFER_SIZE () ready (am_tasks m, am_from_tasks m)) (\<lambda>(pool, chan).
     let m1 = async_contact (async_process_output (m\<lparr>am_tasks := pool, am_from_tasks := chan\<rparr>))
     in Inr (case am_outbox m1 of
               out # rest \<Rightarrow> (m1\<lparr>am_outbox := rest\<rparr>, StageLeft out)
             | [] \<Rightarrow>
                 (case am_statement m1 of
                    Some stmt \<Rightarrow> (m1\<lparr>am_statement := None\<rparr>, StageRight stmt)
                  | None \<Rightarrow> (m1, StagePending))))"

end
