(* ===== verification/Multicast_Correct.thy ===== *)
theory Multicast_Correct
  imports Multicast Handel_Safety
begin

text \<open>
  Correctness of multicasting: both stages are instances of the contract of a stage, for the
  invariant that statements and queued messages are valid and that bans hit only parents that
  sent an invalid statement; the behaviour of the contact loop; and the loss of a statement.
\<close>

section \<open>The contact loop\<close>

text \<open>The reference: the first entry of every child that is not contacted yet.\<close>

fun fresh_children :: "'pid set \<Rightarrow> ('pid, 'addr) peer_addr list \<Rightarrow> ('pid, 'addr) peer_addr list" where
  "fresh_children contacted [] = []"
| "fresh_children contacted ((p, a) # cs) =
     (if p \<in> contacted then fresh_children contacted cs
      else (p, a) # fresh_children (insert p contacted) cs)"

lemma contact_children_eq:
  "contact_children stmt cs (contacted, out) =
     (contacted \<union> fst ` set cs,
      out @ map (\<lambda>(p, a). NetworkAction (SendOneShotMessage p a default_protocol_ver stmt)) (fresh_children contacted cs))"
  by (induction contacted cs arbitrary: out rule: fresh_children.induct) auto

lemma fresh_children_set: "fst ` set (fresh_children contacted cs) = fst ` set cs - contacted"
  by (induction contacted cs rule: fresh_children.induct) auto

lemma fresh_children_distinct: "distinct (map fst (fresh_children contacted cs))"
  by (induction contacted cs rule: fresh_children.induct) (auto simp: fresh_children_set)

lemma fresh_children_subset: "set (fresh_children contacted cs) \<subseteq> set cs"
  by (induction contacted cs rule: fresh_children.induct) auto

section \<open>Invariants\<close>

fun good_action :: "('s \<Rightarrow> bool) \<Rightarrow> 'pid set \<Rightarrow> ('pid, 'addr) dag_overlay \<Rightarrow> ('pid, 'addr, 's) mcast_action \<Rightarrow> bool" where
  "good_action ver faulty ov (NetworkAction (BanPeer p)) \<longleftrightarrow> p \<in> faulty \<and> p \<in> parent_nodes ov"
| "good_action ver faulty ov (NetworkAction (SendOneShotMessage p a v s)) \<longleftrightarrow>
     ver s \<and> (p, a) \<in> set (child_nodes ov)"
| "good_action ver faulty ov out \<longleftrightarrow> False"

fun good_poll ::
  "('s \<Rightarrow> bool) \<Rightarrow> 'pid set \<Rightarrow> ('pid, 'addr) dag_overlay
   \<Rightarrow> (('pid, 'addr, 's) mcast_action, 's) stage_poll \<Rightarrow> bool" where
  "good_poll ver faulty ov StagePending \<longleftrightarrow> True"
| "good_poll ver faulty ov (StageLeft out) \<longleftrightarrow> good_action ver faulty ov out"
| "good_poll ver faulty ov (StageRight s) \<longleftrightarrow> ver s"

text \<open>The parents that may send an invalid statement are \<open>faulty\<close>.\<close>

definition statement_ok :: "('s \<Rightarrow> bool) \<Rightarrow> 'pid set \<Rightarrow> 'pid \<Rightarrow> 's \<Rightarrow> bool" where
  "statement_ok ver faulty p s \<longleftrightarrow> ver s \<or> p \<in> faulty"

definition mcast_inv ::
  "'s contrib_ops \<Rightarrow> 'pid set \<Rightarrow> ('pid, 'addr) dag_overlay \<Rightarrow> ('pid, 'addr, 's) dag_multicasting \<Rightarrow> bool" where
  "mcast_inv ops faulty ov m \<longleftrightarrow>
     combine_sound ops \<and> mc_overlay m = ov \<and> pred_option (verify ops) (mc_statement m) \<and>
     list_all (good_action (verify ops) faulty ov) (mc_outbox m) \<and>
     mc_contacted_peers m \<subseteq> fst ` set (child_nodes ov) \<and>
     (\<forall>p \<in> fst ` set (child_nodes ov). try_index_peer (mc_partitions m) p \<noteq> None)"

lemma contact_good:
  assumes "ver s" "list_all (good_action ver faulty ov) out"
    and "contact_children s (child_nodes ov) (c, out) = (c', out')"
  shows "list_all (good_action ver faulty ov) out'"
proof -
  have "good_action ver faulty ov (NetworkAction (SendOneShotMessage p a v s))"
    if "(p, a) \<in> set (fresh_children c (child_nodes ov))" for p a v
    using that assms(1) fresh_children_subset [of c "child_nodes ov"] by auto
  then show ?thesis using assms(2,3) by (auto simp: contact_children_eq list_all_iff simp del: good_action.simps)
qed

lemma mcast_contact_inv:
  assumes "mcast_inv ops faulty ov m"
  shows "mcast_inv ops faulty ov (mcast_contact m)"
proof (cases "mc_statement m")
  case (Some s)
  obtain c out where c: "contact_children s (child_nodes ov) (mc_contacted_peers m, mc_outbox m) = (c, out)"
    by fastforce
  then have "c \<subseteq> fst ` set (child_nodes ov)"
    using assms by (auto simp: contact_children_eq mcast_inv_def)
  then show ?thesis
    using assms c Some contact_good [OF _ _ c]
    by (auto simp: mcast_inv_def mcast_contact_def)
qed (use assms in \<open>simp add: mcast_contact_def\<close>)

lemma mcast_poll_good:
  assumes "mcast_inv ops faulty ov m"
  shows "\<exists>m' r. mcast_poll m now = Inr (m', r) \<and> mcast_inv ops faulty ov m' \<and> good_poll (verify ops) faulty ov r"
proof -
  let ?m0 = "m\<lparr>mc_next_processing := None\<rparr>"
  have "mcast_inv ops faulty ov ?m0" using assms(1) by (simp add: mcast_inv_def)
  note m1 = mcast_contact_inv [OF this]
  obtain m' r where r: "mcast_poll m now = Inr (m', r)" by (simp add: mcast_poll_def) (metis prod.exhaust)
  then have "mcast_inv ops faulty ov m' \<and> good_poll (verify ops) faulty ov r"
    using assms m1 unfolding mcast_poll_def
    by (auto simp: Let_def mcast_inv_def split: if_splits list.splits option.splits)
  with r show ?thesis by blast
qed

lemma mcast_inject_total:
  assumes "mcast_inv ops faulty ov m"
  shows "\<exists>m'. mcast_inject_message ops m p s = Inr m'"
proof -
  have "\<forall>p \<in> mc_contacted_peers m. try_index_peer (mc_partitions m) p \<noteq> None"
    using assms unfolding mcast_inv_def by blast
  then show ?thesis by (simp add: mcast_inject_message_def Let_def split: option.split)
qed

lemma mcast_inject_inv:
  assumes "mcast_inv ops faulty ov m" "statement_ok (verify ops) faulty p s"
    and "mcast_inject_message ops m p s = Inr m'"
  shows "mcast_inv ops faulty ov m'"
proof -
  have sound: "verify ops c" if "mc_statement m = Some a" "verify ops s" "try_combine ops a s = Some c" for a c
    using combine_soundD [of ops a s c] assms(1) that by (simp add: mcast_inv_def)
  show ?thesis
    using assms sound
    by (auto simp: mcast_inv_def mcast_inject_message_def statement_ok_def Let_def
        split: if_splits option.splits)
qed

interpretation dag: temporal_stage "mcast_inject_message ops" mcast_poll "mcast_inv ops faulty ov"
  "statement_ok (verify ops) faulty" "good_poll (verify ops) faulty ov"
  by unfold_locales (blast intro: mcast_inject_total mcast_inject_inv mcast_poll_good)+

section \<open>The asynchronous stage\<close>

fun good_from_task ::
  "('s \<Rightarrow> bool) \<Rightarrow> 'pid set \<Rightarrow> ('pid, 'addr) dag_overlay
   \<Rightarrow> ('s, ('pid, 'addr, 's) mcast_action) from_task \<Rightarrow> bool" where
  "good_from_task ver faulty ov (ToBehaviour s) \<longleftrightarrow> ver s"
| "good_from_task ver faulty ov (ToHandler out) \<longleftrightarrow> good_action ver faulty ov out"

definition async_inv ::
  "('s \<Rightarrow> bool) \<Rightarrow> 'pid set \<Rightarrow> ('pid, 'addr) dag_overlay \<Rightarrow> ('pid, 'addr, 's) dag_multicasting_async \<Rightarrow> bool" where
  "async_inv ver faulty ov m \<longleftrightarrow>
     am_overlay m = ov \<and> pred_option ver (am_statement m) \<and>
     list_all (good_action ver faulty ov) (am_outbox m) \<and>
     pool_ok (good_from_task ver faulty ov) (\<lambda>_. True) FROM_TASK_BUFFER_SIZE (am_tasks m) (am_from_tasks m)"

lemma async_process_inv: "async_inv ver faulty ov m \<Longrightarrow> async_inv ver faulty ov (async_process_output m)"
  by (auto simp: async_process_output_def on_apply_statement_def async_inv_def pool_ok_def
      split: list.splits from_task.splits)

lemma async_contact_inv:
  assumes "async_inv ver faulty ov m"
  shows "async_inv ver faulty ov (async_contact m)"
proof (cases "am_statement m")
  case (Some s)
  obtain c out where c: "contact_children s (child_nodes ov) (am_contacted_peers m, am_outbox m) = (c, out)"
    by fastforce
  then show ?thesis
    using assms Some contact_good [OF _ _ c] by (auto simp: async_inv_def async_contact_def)
qed (use assms in \<open>simp add: async_contact_def\<close>)

lemma async_poll_good:
  assumes "async_inv ver faulty ov m"
  shows "\<exists>m' r. async_poll m ready = Inr (m', r) \<and> async_inv ver faulty ov m' \<and> good_poll ver faulty ov r"
proof -
  obtain pool chan where pc: "pool_poll_next FROM_TASK_BUFFER_SIZE () ready (am_tasks m, am_from_tasks m) = Inr (pool, chan)"
    and ok: "pool_ok (good_from_task ver faulty ov) (\<lambda>_. True) FROM_TASK_BUFFER_SIZE pool chan"
    using pool_poll_next_ok [of "good_from_task ver faulty ov" "\<lambda>_. True" FROM_TASK_BUFFER_SIZE
        "am_tasks m" "am_from_tasks m" "()" ready] assms by (auto simp: async_inv_def)
  define m1 where "m1 = async_contact (async_process_output (m\<lparr>am_tasks := pool, am_from_tasks := chan\<rparr>))"
  have m1: "async_inv ver faulty ov m1"
    unfolding m1_def using assms ok
    by (intro async_contact_inv async_process_inv) (simp add: async_inv_def)
  have "async_poll m ready = Inr (case am_outbox m1 of out # rest \<Rightarrow> (m1\<lparr>am_outbox := rest\<rparr>, StageLeft out)
      | [] \<Rightarrow> (case am_statement m1 of Some stmt \<Rightarrow> (m1\<lparr>am_statement := None\<rparr>, StageRight stmt)
        | None \<Rightarrow> (m1, StagePending)))"
    unfolding async_poll_def pc Let_def prod.case res_bind.simps m1_def ..
  then show ?thesis using m1 by (auto simp: async_inv_def split: list.splits option.splits)
qed

lemma async_inject_inv:
  "async_inv ver faulty ov m \<Longrightarrow> statement_ok ver faulty p s \<Longrightarrow>
   async_inject_message ver m p s = Inr m' \<Longrightarrow> async_inv ver faulty ov m'"
  by (auto simp: async_inject_message_def async_inv_def verification_task_def statement_ok_def
      intro!: spawn_ok split: if_splits)

interpretation dag_async: temporal_stage "async_inject_message ver" async_poll "async_inv ver faulty ov"
  "statement_ok ver faulty" "good_poll ver faulty ov"
proof unfold_locales
  show "\<exists>m'. async_inject_message ver m p s = Inr m'" for m p s
    by (simp add: async_inject_message_def)
qed (blast intro: async_inject_inv async_poll_good)+

lemma new_multicasting_inv:
  assumes "new_multicasting st ov config pp now = Inr m" "combine_sound ops" "pred_option (verify ops) st"
  shows "mcast_inv ops faulty ov m"
  using assms by (auto simp: new_multicasting_def mcast_inv_def split: if_splits)

lemma new_multicasting_async_inv:
  "pred_option ver st \<Longrightarrow> async_inv ver faulty ov (new_multicasting_async st ov)"
  by (simp add: new_multicasting_async_def async_inv_def new_pool_ok)

section \<open>Polling\<close>

definition sends :: "'s \<Rightarrow> ('pid, 'addr) peer_addr list \<Rightarrow> ('pid, 'addr, 's) mcast_action list" where
  "sends stmt cs = map (\<lambda>(p, a). NetworkAction (SendOneShotMessage p a default_protocol_ver stmt)) cs"

text \<open>The messages a stage that holds \<open>stmt\<close> still has to send.\<close>

definition to_send :: "'s \<Rightarrow> ('pid, 'addr, 's) dag_multicasting \<Rightarrow> ('pid, 'addr, 's) mcast_action list" where
  "to_send stmt m =
     mc_outbox m @ sends stmt (fresh_children (mc_contacted_peers m) (child_nodes (mc_overlay m)))"

text \<open>At \<open>now\<close> the processing delay is over and the multicasting is not.\<close>

definition processing_at :: "('pid, 'addr, 's) dag_multicasting \<Rightarrow> nat \<Rightarrow> bool" where
  "processing_at m now \<longleftrightarrow> pred_option (\<lambda>t. t \<le> now) (mc_next_processing m) \<and>
     now - mc_creation_time m \<le> mc_multicasting_duration m"

lemma fresh_children_none: "fst ` set cs \<subseteq> contacted \<Longrightarrow> fresh_children contacted cs = []"
  using fresh_children_set [of contacted cs] by (metis Diff_eq_empty_iff image_is_empty set_empty)

lemma mcast_contact_sends:
  "mc_statement m = Some stmt \<Longrightarrow> mcast_contact m =
     m\<lparr>mc_contacted_peers := mc_contacted_peers m \<union> fst ` set (child_nodes (mc_overlay m)),
       mc_outbox := to_send stmt m\<rparr>"
  by (simp add: mcast_contact_def contact_children_eq to_send_def sends_def)

lemma mcast_poll_sends:
  assumes "mc_statement m = Some stmt" "processing_at m now" "to_send stmt m = out # rest"
  obtains m' where "mcast_poll m now = Inr (m', StageLeft out)" "to_send stmt m' = rest"
    "mc_statement m' = Some stmt" "mc_next_processing m' = Some (now + mc_processing_delay m)"
    "mc_creation_time m' = mc_creation_time m" "mc_multicasting_duration m' = mc_multicasting_duration m"
    "mc_processing_delay m' = mc_processing_delay m"
proof
  let ?m1 = "mcast_contact (m\<lparr>mc_next_processing := None\<rparr>)"
  let ?m' = "?m1\<lparr>mc_next_processing := Some (now + mc_processing_delay m), mc_outbox := rest\<rparr>"
  have m1: "mc_outbox ?m1 = out # rest"
    using assms(1,3) by (simp add: mcast_contact_sends [of _ stmt] to_send_def)
  have early: "\<not> (case mc_next_processing m of None \<Rightarrow> False | Some t \<Rightarrow> now < t)"
    using assms(2) by (auto simp: processing_at_def split: option.split)
  have "\<not> mc_multicasting_duration m < now - mc_creation_time m"
    using assms(2) by (auto simp: processing_at_def)
  then show "mcast_poll m now = Inr (?m', StageLeft out)"
    unfolding mcast_poll_def if_not_P [OF early] by (simp add: Let_def m1)
  show "to_send stmt ?m' = rest" using assms(1)
    by (simp add: mcast_contact_sends [of _ stmt] to_send_def fresh_children_none sends_def)
qed (use assms(1) in \<open>simp_all add: mcast_contact_sends [of _ stmt]\<close>)

text \<open>Polls that are at least \<open>delay\<close> apart and within the duration.\<close>

fun spaced :: "nat \<Rightarrow> nat \<Rightarrow> nat \<Rightarrow> nat list \<Rightarrow> bool" where
  "spaced delay end_at start [] = True"
| "spaced delay end_at start (t # ts) = (start \<le> t \<and> t \<le> end_at \<and> spaced delay end_at (t + delay) ts)"

lemma polls_send:
  assumes "mc_statement m = Some stmt" "length ts \<le> length (to_send stmt m)"
    and "pred_option (\<lambda>t. t \<le> start) (mc_next_processing m)"
    and "spaced (mc_processing_delay m) (mc_creation_time m + mc_multicasting_duration m) start ts"
  shows "\<exists>m'. res_fold (stage_step inject mcast_poll) (m, log) (map PollStage ts) =
    Inr (m', log @ map StageLeft (take (length ts) (to_send stmt m)))"
  using assms
proof (induction ts arbitrary: m log start)
  case (Cons t ts)
  then obtain out rest where q: "to_send stmt m = out # rest" by (cases "to_send stmt m") auto
  have "processing_at m t"
    using Cons.prems(3,4) by (cases "mc_next_processing m") (auto simp: processing_at_def)
  with Cons.prems(1) obtain m' where "mcast_poll m t = Inr (m', StageLeft out)" "to_send stmt m' = rest"
    "mc_statement m' = Some stmt" "mc_next_processing m' = Some (t + mc_processing_delay m)"
    "mc_creation_time m' = mc_creation_time m" "mc_multicasting_duration m' = mc_multicasting_duration m"
    "mc_processing_delay m' = mc_processing_delay m"
    by (rule mcast_poll_sends [OF _ _ q])
  then show ?case
    using Cons.IH [of m' "t + mc_processing_delay m" "log @ [StageLeft out]"] Cons.prems(2,4) q by simp
qed simp

text \<open>Without a statement, polls return no statement.\<close>

lemma polls_without_statement:
  assumes "mc_statement m = None" "\<forall>r \<in> set log. \<not> is_StageRight r"
  shows "\<exists>m' log'. res_fold (stage_step inject mcast_poll) (m, log) (map PollStage ts) = Inr (m', log') \<and>
    (\<forall>r \<in> set log'. \<not> is_StageRight r)"
  using assms
proof (induction ts arbitrary: m log)
  case (Cons t ts)
  obtain m' r where p: "mcast_poll m t = Inr (m', r)" by (simp add: mcast_poll_def) (metis prod.exhaust)
  then have "mc_statement m' = None" "\<not> is_StageRight r"
    using Cons.prems(1)
    by (auto simp: mcast_poll_def mcast_contact_def Let_def split: list.splits if_splits option.splits)
  with p show ?case using Cons.IH [of m' "log @ [r]"] Cons.prems(2) by simp
qed auto

section \<open>An instance\<close>

definition mc_demo_ops :: "nat contrib_ops" where
  "mc_demo_ops = \<lparr>try_combine = (\<lambda>a b. if a = b then None else Some (a + b)), weight = (\<lambda>c. c),
     verify = (\<lambda>c. 0 < c)\<rparr>"

definition mc_demo_dag :: "(nat, unit) dag_overlay" where
  "mc_demo_dag = \<lparr>parent_nodes = {1}, child_nodes = [(0, None), (1, None), (0, Some ())]\<rparr>"

definition mc_demo_config :: mcast_config where
  "mc_demo_config = \<lparr>processing_delay = 2, multicasting_duration = 100, redundancy_factor = 1, seed = 7\<rparr>"

definition mc_demo :: "(nat, unit, nat) dag_multicasting" where
  "mc_demo = \<lparr>mc_statement = Some 3, mc_overlay = mc_demo_dag, mc_contacted_peers = {}, mc_outbox = [],
     mc_partitions = demo_overlay, mc_creation_time = 0, mc_processing_delay = 2,
     mc_next_processing = Some 2, mc_multicasting_duration = 100\<rparr>"

lemma mc_demo_sound: "combine_sound mc_demo_ops"
  by (simp add: combine_sound_def mc_demo_ops_def)

lemma mc_demo_new: "new_multicasting (Some 3) mc_demo_dag mc_demo_config demo_overlay 0 = Inr mc_demo"
  by (simp add: new_multicasting_def mc_demo_dag_def mc_demo_config_def demo_overlay_def mc_demo_def
      try_index_peer_def)

section \<open>Properties\<close>

text \<open>
  C13. From a valid statement (or none), a multicasting stage never panics, and whatever its parents
  send, every statement it forwards or completes with is valid, messages go to children of the
  overlay only, and it bans only parents that may send invalid statements.
\<close>

theorem multicast_forwards_valid:
  assumes "combine_sound ops" "pred_option (verify ops) statement"
    and "new_multicasting statement overlay config partitions now = Inr m"
    and "\<And>p s. InjectStage p s \<in> set es \<Longrightarrow> statement_ok (verify ops) faulty p s"
  shows "\<exists>m' log. run_stage (mcast_inject_message ops) mcast_poll m es = Inr (m', log) \<and>
    list_all (good_poll (verify ops) faulty overlay) log"
  using dag.run_good [OF new_multicasting_inv [OF assms(3,1,2)], of es faulty] assms(4)
  by (auto simp: list_all_iff)

theorem multicast_forwards_valid_witness:
  "\<exists>m' log. run_stage (mcast_inject_message mc_demo_ops) mcast_poll mc_demo
       [PollStage 2, InjectStage 1 0, InjectStage 1 4, PollStage 4] = Inr (m', log) \<and>
    list_all (good_poll (verify mc_demo_ops) {1} mc_demo_dag) log"
  by (rule multicast_forwards_valid [OF mc_demo_sound _ mc_demo_new])
    (auto simp: mc_demo_ops_def statement_ok_def)

text \<open>
  The same of the stage that verifies in tasks, in whatever order the tasks complete or time
  out, and its channel never holds more than its capacity.
\<close>

theorem async_multicast_forwards_valid:
  assumes "pred_option ver statement"
    and "\<And>p s. InjectStage p s \<in> set es \<Longrightarrow> statement_ok ver faulty p s"
  shows "\<exists>m log. run_stage (async_inject_message ver) async_poll (new_multicasting_async statement overlay) es
       = Inr (m, log) \<and> list_all (good_poll ver faulty overlay) log \<and>
     length (am_from_tasks m) \<le> FROM_TASK_BUFFER_SIZE"
  using dag_async.run_good [OF new_multicasting_async_inv [OF assms(1), where ov = overlay], of es faulty] assms(2)
  by (auto simp: list_all_iff async_inv_def pool_ok_def)

theorem async_multicast_forwards_valid_witness:
  "\<exists>m log. run_stage (async_inject_message (\<lambda>c. 0 < c)) async_poll (new_multicasting_async None mc_demo_dag)
       [InjectStage 1 (0::nat), InjectStage 1 5, PollStage [(1, Progress 1)], PollStage [(0, Progress 1)]]
       = Inr (m, log) \<and> list_all (good_poll (\<lambda>c. 0 < c) {1} mc_demo_dag) log \<and>
     length (am_from_tasks m) \<le> FROM_TASK_BUFFER_SIZE"
  by (rule async_multicast_forwards_valid) (auto simp: statement_ok_def)

text \<open>
  C14. A statement reaches every child: a new stage that is polled at instants at least the
  processing delay apart, within the multicasting duration, sends it to each distinct child exactly
  once, in the order of the overlay.
\<close>

theorem multicast_sends_to_every_child:
  assumes "new_multicasting (Some stmt) overlay config partitions now = Inr m"
    and "spaced (processing_delay config) (now + multicasting_duration config) (now + processing_delay config) ts"
    and "length ts = card (fst ` set (child_nodes overlay))"
  shows "\<exists>m' cs. run_stage (mcast_inject_message ops) mcast_poll m (map PollStage ts)
       = Inr (m', map StageLeft (sends stmt cs)) \<and> set cs \<subseteq> set (child_nodes overlay) \<and>
     distinct (map fst cs) \<and> fst ` set cs = fst ` set (child_nodes overlay)"
proof -
  let ?cs = "fresh_children {} (child_nodes overlay)"
  have m: "mc_statement m = Some stmt" "to_send stmt m = sends stmt ?cs"
    "mc_next_processing m = Some (now + processing_delay config)" "mc_creation_time m = now"
    "mc_processing_delay m = processing_delay config"
    "mc_multicasting_duration m = multicasting_duration config"
    using assms(1) by (auto simp: new_multicasting_def to_send_def split: if_splits)
  have "length ts = length ?cs"
    using distinct_card [OF fresh_children_distinct [of "{}" "child_nodes overlay"]] assms(3)
    by (simp add: fresh_children_set)
  then have "\<exists>m'. run_stage (mcast_inject_message ops) mcast_poll m (map PollStage ts)
      = Inr (m', map StageLeft (sends stmt ?cs))"
    using polls_send [OF m(1), where ts = ts and log = "[]" and start = "now + processing_delay config"]
      assms(2) by (simp add: m run_stage_def sends_def)
  then show ?thesis
    using fresh_children_subset fresh_children_distinct
      fresh_children_set [of "{}" "child_nodes overlay"] by (metis Diff_empty)
qed

theorem multicast_sends_to_every_child_witness:
  "\<exists>m' cs. run_stage (mcast_inject_message mc_demo_ops) mcast_poll mc_demo (map PollStage [2, 5])
       = Inr (m', map StageLeft (sends 3 cs)) \<and> set cs \<subseteq> set (child_nodes mc_demo_dag) \<and>
     distinct (map fst cs) \<and> fst ` set cs = fst ` set (child_nodes mc_demo_dag)"
  by (rule multicast_sends_to_every_child [OF mc_demo_new])
    (simp_all add: mc_demo_config_def mc_demo_dag_def insert_commute)

text \<open>
  A stage loses its statement when a valid statement of a parent cannot be combined with it: the
  statement is taken out and not put back, so that the stage does not complete, however often it is
  polled, unless another statement arrives.
\<close>

theorem multicast_incompatible_statement_lost:
  assumes "pid \<in> parent_nodes (mc_overlay m)" "verify ops content" "mc_statement m = Some stmt"
    and "try_combine ops stmt content = None"
  shows "\<exists>m' log. run_stage (mcast_inject_message ops) mcast_poll m (InjectStage pid content # map PollStage ts)
      = Inr (m', log) \<and> list_all (\<lambda>r. \<not> is_StageRight r) log"
proof -
  have "mcast_inject_message ops m pid content = Inr (m\<lparr>mc_statement := None\<rparr>)"
    using assms by (simp add: mcast_inject_message_def)
  then show ?thesis
    using polls_without_statement [of "m\<lparr>mc_statement := None\<rparr>" "[]"]
    by (simp add: run_stage_def list_all_iff)
qed

theorem multicast_incompatible_statement_lost_witness:
  "\<exists>m' log. run_stage (mcast_inject_message mc_demo_ops) mcast_poll mc_demo
       (InjectStage 1 3 # map PollStage [2, 4, 200]) = Inr (m', log) \<and> list_all (\<lambda>r. \<not> is_StageRight r) log"
  by (rule multicast_incompatible_statement_lost [of _ _ _ _ 3])
    (simp_all add: mc_demo_def mc_demo_dag_def mc_demo_ops_def)

end
