(* ===== verification/Ledger.thy ===== *)
theory Ledger
  imports Prelude "HOL-Library.Word"
begin

text \<open>
  The data of the ledger: digests (\<open>spectrum-crypto/src/digest.rs\<close>), cells, transactions,
  reports and blocks (\<open>spectrum-ledger/src\<close>). Digests are byte lists of the length the hash has.
  The hash function, the CBOR encoder and the Base16 codec are not part of the repository: they
  are the fields of the record \<open>encoders\<close>, an argument of the operations that use them. Public
  keys and signatures are their encodings.
\<close>

section \<open>Digests\<close>

datatype digest = Digest (raw: bytes)

definition digest_size :: nat where
  "digest_size = 32"

definition wf_digest :: "digest \<Rightarrow> bool" where
  "wf_digest d \<longleftrightarrow> length (raw d) = digest_size"

definition zero_digest :: digest where
  "zero_digest = Digest (replicate 32 0)"

datatype 'e digest_error = Base16DecodingError 'e | InvalidSize

text \<open>\<open>TryFrom<Vec<u8>>\<close>: \<open>GenericArray::from_exact_iter\<close> succeeds on exactly the right length.\<close>

definition try_from_bytes :: "bytes \<Rightarrow> 'e digest_error + digest" where
  "try_from_bytes value = (if length value = digest_size then Inr (Digest value) else Inl InvalidSize)"

text \<open>\<open>from_base16\<close> and \<open>TryFrom<String>\<close>, which have the same body.\<close>

definition from_base16 :: "(string \<Rightarrow> 'e + bytes) \<Rightarrow> string \<Rightarrow> 'e digest_error + digest" where
  "from_base16 decode s =
     (case decode s of
        Inl e \<Rightarrow> Inl (Base16DecodingError e)
      | Inr bs \<Rightarrow> try_from_bytes bs)"

text \<open>\<open>Display\<close> and \<open>From<Digest> for String\<close>.\<close>

definition digest_to_string :: "(bytes \<Rightarrow> string) \<Rightarrow> digest \<Rightarrow> string" where
  "digest_to_string encode_lower d = encode_lower (raw d)"

section \<open>Numbers and identifiers\<close>

type_synonym block_no = nat
type_synonym slot_no = nat
type_synonym epoch_no = nat
type_synonym chain_id = nat
type_synonym point = nat

definition SLOTS_PER_EPOCH :: nat where
  "SLOTS_PER_EPOCH = 1000"

definition epoch_num :: "slot_no \<Rightarrow> epoch_no" where
  "epoch_num s = s div SLOTS_PER_EPOCH"

text \<open>The newtypes over a digest.\<close>

datatype block_id = BlockId digest
datatype modifier_id = ModifierId digest
datatype tx_id = TxId digest
datatype cell_id = CellId digest
datatype policy_id = PolicyId digest
datatype asset_id = AssetId digest
datatype script_hash = ScriptHash digest
datatype datum_hash = DatumHash digest
datatype stake_pool_id = StakePoolId digest

definition origin_block :: block_id where
  "origin_block = BlockId zero_digest"

fun modifier_of_block :: "block_id \<Rightarrow> modifier_id" where
  "modifier_of_block (BlockId d) = ModifierId d"

fun modifier_of_tx :: "tx_id \<Rightarrow> modifier_id" where
  "modifier_of_tx (TxId d) = ModifierId d"

fun block_of_modifier :: "modifier_id \<Rightarrow> block_id" where
  "block_of_modifier (ModifierId d) = BlockId d"

section \<open>Cells\<close>

type_synonym public_key = bytes
type_synonym signature = bytes
type_synonym serialized_module = bytes
type_synonym serialized_value = bytes
type_synonym serial = nat

definition initial_serial :: serial where
  "initial_serial = 0"

datatype cell_ref = CellRef cell_id serial

datatype cell_ptr = PtrId cell_id | PtrRef cell_ref

datatype script_ref = ScriptRef cell_ref
datatype datum_ref = DatumRef cell_ref

record s_value =
  native :: nat
  assets :: "policy_id \<rightharpoonup> (asset_id \<rightharpoonup> nat)"

datatype owner = is_ProveDlog: ProveDlog public_key | OwnerScript script_hash

datatype script_witness = WitScriptRef script_ref | WitScript serialized_module
datatype datum_witness = WitDatumRef datum_ref | WitDatum serialized_value

record witness =
  scripts :: "script_witness list"
  data :: "datum_witness list"
  signatures :: "signature list"

record box_destination =
  target :: chain_id
  address :: serialized_value
  bridge_inputs :: "witness option"

record progress_point =
  pp_chain_id :: chain_id
  pp_point :: point

record active_cell =
  ac_value :: s_value
  ac_owner :: owner
  ac_datum :: "datum_hash option"
  ac_reference_script :: "serialized_module option"
  ac_reference_datum :: "serialized_value option"
  ac_tx_id :: tx_id
  ac_index :: nat
  ac_ver :: serial

record term_cell =
  tc_value :: s_value
  tc_tx_id :: tx_id
  tc_index :: nat
  tc_dst :: box_destination

datatype any_cell = MutCell active_cell | TermCell term_cell

record 'c cell_meta =
  cell :: 'c
  ancors :: "progress_point list"

section \<open>Transactions\<close>

record tx_inputs =
  head_input :: "cell_ref \<times> nat option"
  tail_inputs :: "(cell_ptr \<times> nat option) list"

text \<open>\<open>into_iter\<close> and the conversion to \<open>NonEmpty\<close>.\<close>

definition inputs_list :: "tx_inputs \<Rightarrow> (cell_ptr \<times> nat option) list" where
  "inputs_list i = (PtrRef (fst (head_input i)), snd (head_input i)) # tail_inputs i"

text \<open>
  An invocation; the type of the type arguments (\<open>TypeTag\<close> of the Move virtual machine) is a
  parameter, an \<open>Identifier\<close> is its text.
\<close>

record 't script_inv =
  si_script :: nat
  si_datum :: "nat option"
  si_function :: string
  si_args :: "serialized_value list"
  si_targs :: "'t list"

record 't linked_script_inv =
  li_script :: serialized_module
  li_datum :: "serialized_value option"
  li_function :: string
  li_args :: "serialized_value list"
  li_targs :: "'t list"

record 't transaction_body =
  tb_inputs :: tx_inputs
  tb_reference_inputs :: "cell_ptr list"
  tb_invocations :: "'t script_inv list"
  tb_evaluated_outputs :: "any_cell list"

record 't transaction =
  tx_body :: "'t transaction_body"
  tx_witness :: witness

record 't linked_transaction =
  lt_inputs :: "(active_cell cell_meta \<times> signature option) list"
  lt_reference_inputs :: "any_cell list"
  lt_invokations :: "'t linked_script_inv list"
  lt_evaluated_outputs :: "any_cell list"
  lt_hash :: digest

record evaluated_transaction =
  et_inputs :: "active_cell list"
  et_outputs :: "any_cell cell_meta list"

section \<open>Reports and blocks\<close>

datatype effect =
    Imported any_cell
  | Exported cell_id
  | Revoked cell_id
  | Progressed point

record report_body =
  rb_source :: "chain_id \<times> point"
  rb_effects :: "effect list"

text \<open>\<open>VRFProof\<close> in the raw form it is serialised in.\<close>

record vrf_proof =
  vrf_gamma :: bytes
  vrf_c :: bytes
  vrf_s :: bytes

type_synonym vrf_vkey = public_key
type_synonym kes_vkey = public_key

datatype domain_vkey = SchnorrKey public_key

datatype block_section_type = HeaderSection | BodySection

datatype modifier_type = BlockHeaderType | BlockBodyType | TransactionType

record header_body =
  hb_prev_id :: block_id
  hb_block_num :: block_no
  hb_slot_num :: slot_no
  hb_vrf_vk :: vrf_vkey
  hb_vrf_proof :: vrf_proof
  hb_block_body_root :: digest
  hb_protocol_version :: nat

record block_header =
  bh_body :: header_body
  bh_body_signature :: bytes

record ('t, 'cert) block_body =
  bb_reports :: "report_body list"
  bb_certificates :: "'cert list"
  bb_txs :: "'t transaction_body list"
  bb_witnesses :: "witness list"

datatype ('t, 'cert) modifier =
    ModBlockHeader block_header
  | ModBlockBody "('t, 'cert) block_body"
  | ModTransaction "'t transaction"

section \<open>Identifiers of modifiers and cells\<close>

text \<open>What the code calls outside the repository: Blake2b and the CBOR encoder, per type.\<close>

record 't encoders =
  blake2b256_hash :: "bytes \<Rightarrow> digest"
  enc_active_cell :: "active_cell \<Rightarrow> bytes"
  enc_term_cell :: "term_cell \<Rightarrow> bytes"
  enc_tx_body :: "'t transaction_body \<Rightarrow> bytes"
  enc_header_body :: "header_body \<Rightarrow> bytes"
  enc_point :: "public_key \<Rightarrow> bytes"

definition active_cell_id :: "'t encoders \<Rightarrow> active_cell \<Rightarrow> cell_id" where
  "active_cell_id e c = CellId (blake2b256_hash e (enc_active_cell e c))"

definition active_cell_cref :: "'t encoders \<Rightarrow> active_cell \<Rightarrow> cell_ref" where
  "active_cell_cref e c = CellRef (active_cell_id e c) (ac_ver c)"

definition term_cell_id :: "'t encoders \<Rightarrow> term_cell \<Rightarrow> cell_id" where
  "term_cell_id e c = CellId (blake2b256_hash e (enc_term_cell e c))"

fun any_cell_id :: "'t encoders \<Rightarrow> any_cell \<Rightarrow> cell_id" where
  "any_cell_id e (MutCell mc) = active_cell_id e mc"
| "any_cell_id e (TermCell tc) = term_cell_id e tc"

fun any_cell_ver :: "any_cell \<Rightarrow> serial" where
  "any_cell_ver (TermCell tc) = initial_serial"
| "any_cell_ver (MutCell mc) = ac_ver mc"

definition any_cell_cref :: "'t encoders \<Rightarrow> any_cell \<Rightarrow> cell_ref" where
  "any_cell_cref e c = CellRef (any_cell_id e c) (any_cell_ver c)"

definition script_hash_of :: "'t encoders \<Rightarrow> serialized_module \<Rightarrow> script_hash" where
  "script_hash_of e sm = ScriptHash (blake2b256_hash e sm)"

definition tx_digest :: "'t encoders \<Rightarrow> 't transaction \<Rightarrow> digest" where
  "tx_digest e tx = blake2b256_hash e (enc_tx_body e (tx_body tx))"

definition tx_id_of :: "'t encoders \<Rightarrow> 't transaction \<Rightarrow> tx_id" where
  "tx_id_of e tx = TxId (tx_digest e tx)"

definition header_digest :: "'t encoders \<Rightarrow> header_body \<Rightarrow> digest" where
  "header_digest e b = blake2b256_hash e (enc_header_body e b)"

definition header_id :: "'t encoders \<Rightarrow> block_header \<Rightarrow> modifier_id" where
  "header_id e h = ModifierId (header_digest e (bh_body h))"

text \<open>\<open>Modifier::id\<close>; the digest of a block body is a \<open>todo!\<close>.\<close>

fun mod_id :: "'t encoders \<Rightarrow> ('t, 'cert) modifier \<Rightarrow> modifier_id res" where
  "mod_id e (ModBlockHeader bh) = Inr (ModifierId (header_digest e (bh_body bh)))"
| "mod_id e (ModBlockBody bb) = Inl NotImplemented"
| "mod_id e (ModTransaction tx) = Inr (modifier_of_tx (tx_id_of e tx))"

definition pool_id_of :: "'t encoders \<Rightarrow> vrf_vkey \<Rightarrow> stake_pool_id" where
  "pool_id_of e vk = StakePoolId (blake2b256_hash e (enc_point e vk))"

section \<open>Digests round trip\<close>

lemma try_from_bytes_wf: "try_from_bytes bs = Inr d \<longleftrightarrow> wf_digest d \<and> raw d = bs"
  by (cases d) (auto simp: try_from_bytes_def wf_digest_def)

lemma from_base16_wf: "from_base16 decode s = Inr d \<Longrightarrow> wf_digest d"
  by (auto simp: from_base16_def try_from_bytes_wf split: sum.splits)

lemma block_modifier_inverse [simp]:
  "block_of_modifier (modifier_of_block b) = b" "modifier_of_block (block_of_modifier m) = m"
  by (cases b; cases m; simp)+

end
