(* ===== verification/Ledger_State.thy ===== *)
theory Ledger_State
  imports Ledger
begin

text \<open>
  From a transaction to its effect on the ledger state: linking
  (\<open>spectrum-view/src/state/linking.rs\<close>) and evaluation (\<open>spectrum-view/src/state/eval.rs\<close>).
  The pool of cells is a trait without an implementation in the repository; it is the record
  \<open>cells\<close>, an argument. So are the conversion of a public key to a Schnorr verifying key, which
  can fail, the verification of a signature, and the iteration order of a hash map.
\<close>

section \<open>Sequences of fallible steps\<close>

fun try_mapM :: "('a \<Rightarrow> 'e + 'b) \<Rightarrow> 'a list \<Rightarrow> 'e + 'b list" where
  "try_mapM f [] = Inr []"
| "try_mapM f (x # xs) =
     (case f x of
        Inl e \<Rightarrow> Inl e
      | Inr y \<Rightarrow> (case try_mapM f xs of Inl e \<Rightarrow> Inl e | Inr ys \<Rightarrow> Inr (y # ys)))"

lemma try_mapM_Inr: "try_mapM f xs = Inr ys \<longleftrightarrow> list_all2 (\<lambda>x y. f x = Inr y) xs ys"
proof (induction xs arbitrary: ys)
  case (Cons x xs)
  have "try_mapM f (x # xs) = Inr ys \<longleftrightarrow> (\<exists>y zs. f x = Inr y \<and> try_mapM f xs = Inr zs \<and> ys = y # zs)"
    by (auto split: sum.splits)
  then show ?case unfolding Cons.IH by (auto simp: list_all2_Cons1)
qed auto

lemma try_mapM_Inl:
  "try_mapM f xs = Inl e \<longleftrightarrow> (\<exists>i < length xs. f (xs ! i) = Inl e \<and> (\<forall>j < i. \<exists>y. f (xs ! j) = Inr y))"
proof (induction xs)
  case (Cons x xs)
  have "try_mapM f (x # xs) = Inl e \<longleftrightarrow> f x = Inl e \<or> ((\<exists>y. f x = Inr y) \<and> try_mapM f xs = Inl e)"
    by (auto split: sum.splits)
  then show ?case
    unfolding Cons.IH by (auto simp: Ex_less_Suc2 All_less_Suc2)
qed simp

section \<open>Linking\<close>

text \<open>The trait \<open>Cells\<close>.\<close>

record cells =
  get_cell :: "cell_ptr \<Rightarrow> any_cell cell_meta option"
  progress_of :: "chain_id \<Rightarrow> point"
  get_ref_script :: "script_ref \<Rightarrow> serialized_module option"
  get_ref_datum :: "datum_ref \<Rightarrow> serialized_value option"

datatype linking_error =
    MissingInput cell_ptr
  | NonConsumableInput cell_ptr
  | MissingRefInput cell_ptr
  | MissingScript
  | MissingDatum datum_ref
  | MissingSignature nat
  | MalformedInput nat
  | UnresolvedScriptRef script_ref

fun link_input ::
  "cells \<Rightarrow> witness \<Rightarrow> nat \<times> cell_ptr \<times> nat option
   \<Rightarrow> linking_error + (active_cell cell_meta \<times> signature option)" where
  "link_input pool wit (ix, pt, maybe_sig_ix) =
     (case get_cell pool pt of
        Some m \<Rightarrow>
          (case cell m of
             MutCell active_cell \<Rightarrow>
               (case (ac_owner active_cell, maybe_sig_ix) of
                  (ProveDlog _, Some sig_ix) \<Rightarrow>
                    (case get (signatures wit) sig_ix of
                       Some sig \<Rightarrow> Inr (\<lparr>cell = active_cell, ancors = ancors m\<rparr>, Some sig)
                     | None \<Rightarrow> Inl (MissingSignature ix))
                | (OwnerScript _, None) \<Rightarrow> Inr (\<lparr>cell = active_cell, ancors = ancors m\<rparr>, None)
                | _ \<Rightarrow> Inl (MalformedInput ix))
           | TermCell _ \<Rightarrow> Inl (NonConsumableInput pt))
      | None \<Rightarrow> Inl (MissingInput pt))"

definition link_ref_input :: "cells \<Rightarrow> cell_ptr \<Rightarrow> linking_error + any_cell" where
  "link_ref_input pool pt =
     (case get_cell pool pt of
        Some m \<Rightarrow> Inr (cell m)
      | None \<Rightarrow> Inl (MissingRefInput pt))"

text \<open>The datum of an invocation: an inline datum of the witness is matched and dropped.\<close>

definition link_datum :: "cells \<Rightarrow> witness \<Rightarrow> nat option \<Rightarrow> serialized_value option" where
  "link_datum pool wit maybe_datum_ix =
     (case maybe_datum_ix of
        Some datum_ix \<Rightarrow>
          (case get (data wit) datum_ix of
             Some (WitDatumRef datum_ref) \<Rightarrow> get_ref_datum pool datum_ref
           | Some (WitDatum datum) \<Rightarrow> None
           | None \<Rightarrow> None)
      | None \<Rightarrow> None)"

definition link_invokation ::
  "cells \<Rightarrow> witness \<Rightarrow> 't script_inv \<Rightarrow> linking_error + 't linked_script_inv" where
  "link_invokation pool wit si =
     (let linked = (\<lambda>script. \<lparr>li_script = script, li_datum = link_datum pool wit (si_datum si),
        li_function = si_function si, li_args = si_args si, li_targs = si_targs si\<rparr>)
      in case get (scripts wit) (si_script si) of
           Some (WitScriptRef sc_ref) \<Rightarrow>
             (case get_ref_script pool sc_ref of
                Some script \<Rightarrow> Inr (linked script)
              | None \<Rightarrow> Inl (UnresolvedScriptRef sc_ref))
         | Some (WitScript script) \<Rightarrow> Inr (linked script)
         | None \<Rightarrow> Inl MissingScript)"

definition link_transaction ::
  "'t encoders \<Rightarrow> cells \<Rightarrow> 't transaction \<Rightarrow> linking_error + 't linked_transaction" where
  "link_transaction e pool tx =
     (let wit = tx_witness tx; body = tx_body tx
      in case try_mapM (link_input pool wit) (enumerate 0 (inputs_list (tb_inputs body))) of
           Inl err \<Rightarrow> Inl err
         | Inr linked_inputs \<Rightarrow>
             (case try_mapM (link_ref_input pool) (tb_reference_inputs body) of
                Inl err \<Rightarrow> Inl err
              | Inr linked_ref_inputs \<Rightarrow>
                  (case try_mapM (link_invokation pool wit) (tb_invocations body) of
                     Inl err \<Rightarrow> Inl err
                   | Inr linked_invokations \<Rightarrow>
                       Inr \<lparr>lt_inputs = linked_inputs, lt_reference_inputs = linked_ref_inputs,
                            lt_invokations = linked_invokations,
                            lt_evaluated_outputs = tb_evaluated_outputs body, lt_hash = tx_digest e tx\<rparr>)))"

section \<open>Evaluation\<close>

record evaluation_error =
  at_input :: nat
  gas_consumed :: nat

record invokation_scope =
  is_script :: serialized_module
  owned_inputs :: "active_cell list"

definition new_invokation_scope :: "serialized_module \<Rightarrow> invokation_scope" where
  "new_invokation_scope s = \<lparr>is_script = s, owned_inputs = []\<rparr>"

definition add_owned_input :: "invokation_scope \<Rightarrow> active_cell \<Rightarrow> invokation_scope" where
  "add_owned_input sc c = sc\<lparr>owned_inputs := owned_inputs sc @ [c]\<rparr>"

text \<open>The anchors of one input are merged into the greatest point per chain.\<close>

fun converge_ancors :: "progress_point list \<Rightarrow> (chain_id \<rightharpoonup> point) \<Rightarrow> (chain_id \<rightharpoonup> point)" where
  "converge_ancors [] m = m"
| "converge_ancors (p # ps) m =
     converge_ancors ps
       (case m (pp_chain_id p) of
          Some max_point \<Rightarrow> if pp_point p \<le> max_point then m else m(pp_chain_id p \<mapsto> pp_point p)
        | None \<Rightarrow> m(pp_chain_id p \<mapsto> pp_point p))"

record eval_state =
  verified_inputs :: "active_cell list"
  invokation_scopes :: "script_hash \<rightharpoonup> invokation_scope"
  converged_ancors :: "chain_id \<rightharpoonup> point"

text \<open>Schnorr signatures: a verifying key from a public key, and the verification.\<close>

record 'vk schnorr =
  vk_try_from :: "public_key \<Rightarrow> 'vk option"
  vk_verify :: "'vk \<Rightarrow> bytes \<Rightarrow> signature \<Rightarrow> bool"

fun eval_inputs ::
  "'vk schnorr \<Rightarrow> digest \<Rightarrow> nat \<Rightarrow> (active_cell cell_meta \<times> signature option) list \<Rightarrow> eval_state
   \<Rightarrow> (evaluation_error + eval_state) res" where
  "eval_inputs sch hash ix [] st = Inr (Inr st)"
| "eval_inputs sch hash ix ((m, maybe_sig) # rest) st =
     (let st = st\<lparr>converged_ancors := converge_ancors (ancors m) (converged_ancors st)\<rparr>; i = cell m
      in case maybe_sig of
           None \<Rightarrow> eval_inputs sch hash (Suc ix) rest st
         | Some sig \<Rightarrow>
             (case ac_owner i of
                ProveDlog pk \<Rightarrow>
                  (case vk_try_from sch pk of
                     None \<Rightarrow> Inl UnwrapNone
                   | Some vk \<Rightarrow>
                       if vk_verify sch vk (raw hash) sig
                       then eval_inputs sch hash (Suc ix) rest
                              (st\<lparr>verified_inputs := verified_inputs st @ [i]\<rparr>)
                       else Inr (Inl \<lparr>at_input = ix, gas_consumed = 0\<rparr>))
              | OwnerScript sh \<Rightarrow>
                  (case invokation_scopes st sh of
                     Some iscope \<Rightarrow>
                       eval_inputs sch hash (Suc ix) rest
                         (st\<lparr>invokation_scopes := (invokation_scopes st)(sh \<mapsto> add_owned_input iscope i)\<rparr>)
                   | None \<Rightarrow> eval_inputs sch hash (Suc ix) rest st)))"

definition unreached_ancors ::
  "((chain_id \<times> point) set \<Rightarrow> (chain_id \<times> point) list) \<Rightarrow> cells \<Rightarrow> (chain_id \<rightharpoonup> point)
   \<Rightarrow> progress_point list" where
  "unreached_ancors order pool m =
     map (\<lambda>(c, p). \<lparr>pp_chain_id = c, pp_point = p\<rparr>)
       (filter (\<lambda>(c, p). progress_of pool c < p) (order {(c, p). m c = Some p}))"

definition evaluate_transaction ::
  "'t encoders \<Rightarrow> 'vk schnorr \<Rightarrow> ((chain_id \<times> point) set \<Rightarrow> (chain_id \<times> point) list) \<Rightarrow> cells
   \<Rightarrow> 't linked_transaction \<Rightarrow> (evaluation_error + evaluated_transaction) res" where
  "evaluate_transaction e sch order pool tx =
     (let scopes = map_of (rev (map (\<lambda>i. (script_hash_of e (li_script i), new_invokation_scope (li_script i)))
            (lt_invokations tx)))
      in res_bind (eval_inputs sch (lt_hash tx) 0 (lt_inputs tx)
             \<lparr>verified_inputs = [], invokation_scopes = scopes, converged_ancors = Map.empty\<rparr>)
           (\<lambda>r. Inr (case r of
              Inl err \<Rightarrow> Inl err
            | Inr st \<Rightarrow>
                Inr \<lparr>et_inputs = verified_inputs st,
                     et_outputs = map (\<lambda>c. \<lparr>cell = c, ancors = unreached_ancors order pool (converged_ancors st)\<rparr>)
                       (lt_evaluated_outputs tx)\<rparr>)))"

end
