(* ===== verification/Ledger_Correct.thy ===== *)
theory Ledger_Correct
  imports Ledger_State "HOL-Library.Product_Lexorder"
begin

text \<open>
  Correctness of linking and evaluation: what a linked transaction is, that evaluation returns
  exactly the key-owned inputs, each with a valid signature over the transaction, and which
  anchors the outputs carry.
\<close>

section \<open>Linking\<close>

text \<open>An input and what it is resolved to: an active cell, with the signature its owner needs.\<close>

definition resolves :: "cells \<Rightarrow> witness \<Rightarrow> cell_ptr \<times> nat option \<Rightarrow> active_cell cell_meta \<times> signature option \<Rightarrow> bool" where
  "resolves pool wit i l \<longleftrightarrow>
     get_cell pool (fst i) = Some \<lparr>cell = MutCell (cell (fst l)), ancors = ancors (fst l)\<rparr> \<and>
     (case ac_owner (cell (fst l)) of
        ProveDlog _ \<Rightarrow> (\<exists>k < length (signatures wit). snd i = Some k \<and> snd l = Some (signatures wit ! k))
      | OwnerScript _ \<Rightarrow> snd i = None \<and> snd l = None)"

lemma link_input_iff: "link_input pool wit (ix, i) = Inr l \<longleftrightarrow> resolves pool wit i l"
proof -
  obtain pt s where i: "i = (pt, s)" by fastforce
  obtain m sg where l: "l = (m, sg)" by fastforce
  have eta: "m = \<lparr>cell = cell m, ancors = ancors m\<rparr>" by simp
  show ?thesis
    unfolding i l resolves_def
    by (cases s; cases "get_cell pool pt"; simp add: get_def split: any_cell.splits owner.splits)
      (auto simp: cell_meta.splits split: any_cell.splits owner.splits if_splits)
qed

lemma list_all2_source: "list_all2 P xs ys \<Longrightarrow> y \<in> set ys \<Longrightarrow> \<exists>x \<in> set xs. P x y"
  by (induction rule: list_all2_induct) auto

definition invokes :: "cells \<Rightarrow> witness \<Rightarrow> 't script_inv \<Rightarrow> 't linked_script_inv \<Rightarrow> bool" where
  "invokes pool wit si li \<longleftrightarrow>
     (case get (scripts wit) (si_script si) of
        Some (WitScriptRef r) \<Rightarrow> get_ref_script pool r = Some (li_script li)
      | Some (WitScript s) \<Rightarrow> s = li_script li
      | None \<Rightarrow> False) \<and>
     li_function li = si_function si \<and> li_args li = si_args si \<and> li_targs li = si_targs si \<and>
     li_datum li = link_datum pool wit (si_datum si)"

lemma link_invokation_iff: "link_invokation pool wit si = Inr li \<longleftrightarrow> invokes pool wit si li"
proof -
  have "li = \<lparr>li_script = li_script li, li_datum = li_datum li, li_function = li_function li,
    li_args = li_args li, li_targs = li_targs li\<rparr>" by simp
  then show ?thesis
    by (auto simp: link_invokation_def invokes_def Let_def split: option.splits script_witness.splits)
qed

definition links_to :: "'t encoders \<Rightarrow> cells \<Rightarrow> 't transaction \<Rightarrow> 't linked_transaction \<Rightarrow> bool" where
  "links_to e pool tx lt \<longleftrightarrow>
     list_all2 (resolves pool (tx_witness tx)) (inputs_list (tb_inputs (tx_body tx))) (lt_inputs lt) \<and>
     list_all2 (\<lambda>p c. map_option cell (get_cell pool p) = Some c)
       (tb_reference_inputs (tx_body tx)) (lt_reference_inputs lt) \<and>
     list_all2 (invokes pool (tx_witness tx)) (tb_invocations (tx_body tx)) (lt_invokations lt) \<and>
     lt_evaluated_outputs lt = tb_evaluated_outputs (tx_body tx) \<and> lt_hash lt = tx_digest e tx"

lemma link_inputs_iff:
  "list_all2 (\<lambda>x y. link_input pool wit x = Inr y) (enumerate n xs) ys \<longleftrightarrow> list_all2 (resolves pool wit) xs ys"
  by (induction xs arbitrary: n ys) (simp_all add: list_all2_Cons1 link_input_iff)

lemma link_ref_input_iff: "link_ref_input pool p = Inr c \<longleftrightarrow> map_option cell (get_cell pool p) = Some c"
  by (simp add: link_ref_input_def split: option.split)

lemma link_transaction_iff: "link_transaction e pool tx = Inr lt \<longleftrightarrow> links_to e pool tx lt"
proof -
  have "link_transaction e pool tx = Inr lt \<longleftrightarrow>
    (\<exists>is rs vs. try_mapM (link_input pool (tx_witness tx)) (enumerate 0 (inputs_list (tb_inputs (tx_body tx)))) = Inr is \<and>
      try_mapM (link_ref_input pool) (tb_reference_inputs (tx_body tx)) = Inr rs \<and>
      try_mapM (link_invokation pool (tx_witness tx)) (tb_invocations (tx_body tx)) = Inr vs \<and>
      lt = \<lparr>lt_inputs = is, lt_reference_inputs = rs, lt_invokations = vs,
        lt_evaluated_outputs = tb_evaluated_outputs (tx_body tx), lt_hash = tx_digest e tx\<rparr>)"
    by (auto simp: link_transaction_def Let_def split: sum.splits)
  also have "\<dots> \<longleftrightarrow> links_to e pool tx lt"
    unfolding try_mapM_Inr link_inputs_iff link_ref_input_iff link_invokation_iff links_to_def
    by (cases lt) auto
  finally show ?thesis .
qed

section \<open>Evaluation\<close>

text \<open>The inputs evaluation checks: those that carry a signature and are owned by a key.\<close>

definition key_owned :: "active_cell cell_meta \<times> signature option \<Rightarrow> bool" where
  "key_owned l \<longleftrightarrow> snd l \<noteq> None \<and> (case ac_owner (cell (fst l)) of ProveDlog _ \<Rightarrow> True | OwnerScript _ \<Rightarrow> False)"

definition authorised :: "'vk schnorr \<Rightarrow> digest \<Rightarrow> active_cell cell_meta \<times> signature option \<Rightarrow> bool" where
  "authorised sch hash l \<longleftrightarrow>
     (case (ac_owner (cell (fst l)), snd l) of
        (ProveDlog pk, Some sig) \<Rightarrow> (\<exists>vk. vk_try_from sch pk = Some vk \<and> vk_verify sch vk (raw hash) sig)
      | _ \<Rightarrow> True)"

definition anchors_of :: "(active_cell cell_meta \<times> signature option) list \<Rightarrow> progress_point list" where
  "anchors_of ls = concat (map (\<lambda>l. ancors (fst l)) ls)"

lemma eval_inputs_authorised:
  "eval_inputs sch hash ix ls st = Inr (Inr st') \<Longrightarrow> l \<in> set ls \<Longrightarrow> authorised sch hash l"
proof (induction ls arbitrary: ix st)
  case (Cons k ls)
  then show ?case
    by (cases k) (auto simp: authorised_def Let_def split: option.splits owner.splits if_splits)
qed simp

lemma converge_ancors_append: "converge_ancors (xs @ ys) m = converge_ancors ys (converge_ancors xs m)"
  by (induction xs arbitrary: m) simp_all

lemma key_owned_simps:
  "\<not> key_owned (m, None)"
  "ac_owner (cell m) = ProveDlog pk \<Longrightarrow> key_owned (m, Some sig)"
  "ac_owner (cell m) = OwnerScript sh \<Longrightarrow> \<not> key_owned (m, s)"
  by (simp_all add: key_owned_def)

lemma eval_inputs_accepts:
  assumes "\<forall>l \<in> set ls. authorised sch hash l"
  shows "\<exists>st'. eval_inputs sch hash ix ls st = Inr (Inr st') \<and>
    verified_inputs st' = verified_inputs st @ map (\<lambda>l. cell (fst l)) (filter key_owned ls) \<and>
    converged_ancors st' = converge_ancors (anchors_of ls) (converged_ancors st)"
  using assms
proof (induction ls arbitrary: ix st)
  case (Cons k ls)
  obtain m s where k: "k = (m, s)" by fastforce
  have a: "authorised sch hash (m, s)" and rest: "\<forall>l \<in> set ls. authorised sch hash l"
    using Cons.prems k by auto
  note IH = Cons.IH [OF rest, of "Suc ix"]
  let ?st = "st\<lparr>converged_ancors := converge_ancors (ancors m) (converged_ancors st)\<rparr>"
  note eval = anchors_of_def converge_ancors_append Let_def
  show ?case
  proof (cases s)
    case None
    then show ?thesis using IH [of ?st] by (simp add: k eval key_owned_simps)
  next
    case (Some sig)
    show ?thesis
    proof (cases "ac_owner (cell m)")
      case (ProveDlog pk)
      then obtain vk where "vk_try_from sch pk = Some vk" "vk_verify sch vk (raw hash) sig"
        using a Some by (auto simp: authorised_def)
      then show ?thesis using IH [of "?st\<lparr>verified_inputs := verified_inputs st @ [cell m]\<rparr>"] ProveDlog Some
        by (simp add: k eval key_owned_simps)
    next
      case (OwnerScript sh)
      show ?thesis
      proof (cases "invokation_scopes st sh")
        case None
        then show ?thesis using IH [of ?st] OwnerScript Some by (simp add: k eval key_owned_simps)
      next
        case (Some sc)
        then show ?thesis
          using IH [of "?st\<lparr>invokation_scopes := (invokation_scopes st)(sh \<mapsto> add_owned_input sc (cell m))\<rparr>"]
            OwnerScript \<open>s = Some sig\<close> by (simp add: k eval key_owned_simps)
      qed
    qed
  qed
qed (simp add: anchors_of_def)

text \<open>Per chain the greatest point is kept.\<close>

definition points :: "chain_id \<Rightarrow> progress_point list \<Rightarrow> point set" where
  "points c ps = pp_point ` {x \<in> set ps. pp_chain_id x = c}"

lemma converge_ancors_max:
  "converge_ancors ps m c =
     (let S = points c ps \<union> set_option (m c) in if S = {} then None else Some (Max S))"
proof (induction ps arbitrary: m)
  case Nil
  then show ?case by (cases "m c") (auto simp: points_def)
next
  case (Cons p ps)
  have fin: "finite (points c ps)" by (simp add: points_def)
  have pts: "points c (p # ps) = (if pp_chain_id p = c then insert (pp_point p) (points c ps) else points c ps)"
    by (auto simp: points_def)
  have max: "Max (insert (max a b) S) = Max (insert a (insert b S))" if "finite S" for a b :: nat and S
    using that by (cases "S = {}") (auto simp: max.assoc)
  show ?case
  proof (cases "pp_chain_id p = c")
    case False
    then show ?thesis using Cons by (cases "m (pp_chain_id p)") (auto simp: pts Let_def)
  next
    case True
    show ?thesis
    proof (cases "m c")
      case None
      then show ?thesis using True Cons by (auto simp: pts Let_def)
    next
      case (Some q)
      then have "converge_ancors (p # ps) m c = Some (Max (insert (max (pp_point p) q) (points c ps)))"
        using True Cons by (auto simp: Let_def max_def insert_commute Un_insert_right)
      also have "\<dots> = Some (Max (insert (pp_point p) (insert q (points c ps))))"
        by (simp add: max [OF fin])
      finally show ?thesis using True Some by (simp add: pts Let_def insert_commute)
    qed
  qed
qed


text \<open>What is relied on of the iteration over a hash map: every entry once, in some order.\<close>

definition enumerates :: "('a set \<Rightarrow> 'a list) \<Rightarrow> bool" where
  "enumerates order \<longleftrightarrow> (\<forall>S. finite S \<longrightarrow> set (order S) = S \<and> distinct (order S))"

lemma converge_ancors_finite: "finite (dom m) \<Longrightarrow> finite (dom (converge_ancors ps m))"
  by (induction ps arbitrary: m) (simp_all split: option.split)

lemma finite_graph: "finite (dom m) \<Longrightarrow> finite {(c, p). m c = Some p}"
proof -
  assume "finite (dom m)"
  moreover have "{(c, p). m c = Some p} = (\<lambda>c. (c, the (m c))) ` dom m" by force
  ultimately show ?thesis by simp
qed

lemma unreached_ancors_set:
  assumes "enumerates order" "finite (dom m)"
  shows "\<lparr>pp_chain_id = c, pp_point = p\<rparr> \<in> set (unreached_ancors order pool m) \<longleftrightarrow>
    m c = Some p \<and> progress_of pool c < p"
proof -
  have "set (order {(c, p). m c = Some p}) = {(c, p). m c = Some p}"
    using assms(1) finite_graph [OF assms(2)] by (simp add: enumerates_def)
  then show ?thesis by (force simp: unreached_ancors_def)
qed

lemma evaluate_iff:
  "(\<exists>et. evaluate_transaction e sch order pool lt = Inr (Inr et)) \<longleftrightarrow>
     (\<forall>l \<in> set (lt_inputs lt). authorised sch (lt_hash lt) l)"
  "evaluate_transaction e sch order pool lt = Inr (Inr et) \<Longrightarrow>
     et_inputs et = map (\<lambda>l. cell (fst l)) (filter key_owned (lt_inputs lt)) \<and>
     et_outputs et = map (\<lambda>c. \<lparr>cell = c, ancors = unreached_ancors order pool
       (converge_ancors (anchors_of (lt_inputs lt)) Map.empty)\<rparr>) (lt_evaluated_outputs lt)"
proof -
  let ?scopes = "map_of (rev (map (\<lambda>i. (script_hash_of e (li_script i), new_invokation_scope (li_script i)))
            (lt_invokations lt)))"
  let ?st = "\<lparr>verified_inputs = [], invokation_scopes = ?scopes, converged_ancors = Map.empty\<rparr>"
  have ok: "\<forall>l \<in> set (lt_inputs lt). authorised sch (lt_hash lt) l"
    if "evaluate_transaction e sch order pool lt = Inr (Inr et)" for et
  proof -
    from that obtain st' where "eval_inputs sch (lt_hash lt) 0 (lt_inputs lt) ?st = Inr (Inr st')"
      by (cases "eval_inputs sch (lt_hash lt) 0 (lt_inputs lt) ?st")
        (auto simp: evaluate_transaction_def Let_def split: sum.splits)
    then show ?thesis using eval_inputs_authorised by blast
  qed
  have run: "\<exists>et. evaluate_transaction e sch order pool lt = Inr (Inr et) \<and>
      et_inputs et = map (\<lambda>l. cell (fst l)) (filter key_owned (lt_inputs lt)) \<and>
     et_outputs et = map (\<lambda>c. \<lparr>cell = c, ancors = unreached_ancors order pool
       (converge_ancors (anchors_of (lt_inputs lt)) Map.empty)\<rparr>) (lt_evaluated_outputs lt)"
    if "\<forall>l \<in> set (lt_inputs lt). authorised sch (lt_hash lt) l"
    using eval_inputs_accepts [OF that, of 0 ?st] by (auto simp: evaluate_transaction_def Let_def)
  show "(\<exists>et. evaluate_transaction e sch order pool lt = Inr (Inr et)) \<longleftrightarrow>
     (\<forall>l \<in> set (lt_inputs lt). authorised sch (lt_hash lt) l)" using ok run by blast
  assume "evaluate_transaction e sch order pool lt = Inr (Inr et)"
  with ok run show "et_inputs et = map (\<lambda>l. cell (fst l)) (filter key_owned (lt_inputs lt)) \<and>
     et_outputs et = map (\<lambda>c. \<lparr>cell = c, ancors = unreached_ancors order pool
       (converge_ancors (anchors_of (lt_inputs lt)) Map.empty)\<rparr>) (lt_evaluated_outputs lt)"
    by fastforce
qed

section \<open>An instance\<close>

definition demo_cell :: "owner \<Rightarrow> active_cell" where
  "demo_cell o' = \<lparr>ac_value = \<lparr>native = 5, assets = Map.empty\<rparr>, ac_owner = o', ac_datum = None,
     ac_reference_script = None, ac_reference_datum = None, ac_tx_id = TxId zero_digest, ac_index = 0, ac_ver = 0\<rparr>"

definition demo_key_ref :: cell_ref where
  "demo_key_ref = CellRef (CellId zero_digest) 0"

definition demo_script_ptr :: cell_ptr where
  "demo_script_ptr = PtrRef (CellRef (CellId zero_digest) 1)"

definition demo_pool :: cells where
  "demo_pool = \<lparr>get_cell = (\<lambda>p.
       if p = PtrRef demo_key_ref then Some \<lparr>cell = MutCell (demo_cell (ProveDlog [1])), ancors = [\<lparr>pp_chain_id = 0, pp_point = 7\<rparr>]\<rparr>
       else if p = demo_script_ptr
       then Some \<lparr>cell = MutCell (demo_cell (OwnerScript (ScriptHash zero_digest))), ancors = [\<lparr>pp_chain_id = 0, pp_point = 9\<rparr>]\<rparr>
       else None),
     progress_of = (\<lambda>_. 8), get_ref_script = (\<lambda>_. None), get_ref_datum = (\<lambda>_. None)\<rparr>"

definition demo_tx :: "unit transaction" where
  "demo_tx = \<lparr>tx_body = \<lparr>tb_inputs = \<lparr>head_input = (demo_key_ref, Some 0), tail_inputs = [(demo_script_ptr, None)]\<rparr>,
       tb_reference_inputs = [], tb_invocations = [], tb_evaluated_outputs = [MutCell (demo_cell (ProveDlog [2]))]\<rparr>,
     tx_witness = \<lparr>scripts = [], data = [], signatures = [[3]]\<rparr>\<rparr>"

definition demo_encoders :: "unit encoders" where
  "demo_encoders = \<lparr>blake2b256_hash = (\<lambda>_. zero_digest), enc_active_cell = (\<lambda>_. []), enc_term_cell = (\<lambda>_. []),
     enc_tx_body = (\<lambda>_. []), enc_header_body = (\<lambda>_. []), enc_point = (\<lambda>p. p)\<rparr>"

definition demo_schnorr :: "public_key schnorr" where
  "demo_schnorr = \<lparr>vk_try_from = Some, vk_verify = (\<lambda>vk h s. s = [3])\<rparr>"

definition demo_linked :: "unit linked_transaction" where
  "demo_linked = \<lparr>lt_inputs = [(\<lparr>cell = demo_cell (ProveDlog [1]), ancors = [\<lparr>pp_chain_id = 0, pp_point = 7\<rparr>]\<rparr>, Some [3]),
       (\<lparr>cell = demo_cell (OwnerScript (ScriptHash zero_digest)), ancors = [\<lparr>pp_chain_id = 0, pp_point = 9\<rparr>]\<rparr>, None)],
     lt_reference_inputs = [], lt_invokations = [],
     lt_evaluated_outputs = [MutCell (demo_cell (ProveDlog [2]))], lt_hash = zero_digest\<rparr>"

definition demo_order :: "(nat \<times> nat) set \<Rightarrow> (nat \<times> nat) list" where
  "demo_order S = sorted_list_of_set S"

lemma demo_order_enumerates: "enumerates demo_order"
  by (simp add: enumerates_def demo_order_def)

lemmas demo_tx_defs = demo_pool_def demo_tx_def demo_encoders_def demo_schnorr_def demo_linked_def
  demo_cell_def demo_key_ref_def demo_script_ptr_def

lemma demo_links: "link_transaction demo_encoders demo_pool demo_tx = Inr demo_linked"
  by (simp add: demo_tx_defs link_transaction_def inputs_list_def get_def tx_digest_def)

lemma demo_evaluates:
  "\<exists>et. evaluate_transaction demo_encoders demo_schnorr demo_order demo_pool demo_linked = Inr (Inr et) \<and>
     length (et_inputs et) = 1 \<and> length (et_outputs et) = 1"
  by (simp add: demo_tx_defs evaluate_transaction_def)

section \<open>Properties\<close>


text \<open>
  C16. The inputs that evaluation returns for a linked transaction are its inputs owned by a key, in
  order, and each one is signed: the signature its input points at verifies, for its owner, over the
  digest of the transaction. Inputs owned by a script are not returned. The outputs are the given ones.
\<close>

theorem evaluated_inputs_signed:
  assumes "link_transaction e pool tx = Inr lt"
    and "evaluate_transaction e sch order pool lt = Inr (Inr et)"
  shows "et_inputs et = filter (\<lambda>c. is_ProveDlog (ac_owner c)) (map (\<lambda>l. cell (fst l)) (lt_inputs lt)) \<and>
    list_all (\<lambda>c. \<exists>pt k pk vk as. (pt, Some k) \<in> set (inputs_list (tb_inputs (tx_body tx))) \<and>
      get_cell pool pt = Some \<lparr>cell = MutCell c, ancors = as\<rparr> \<and> ac_owner c = ProveDlog pk \<and>
      vk_try_from sch pk = Some vk \<and> k < length (signatures (tx_witness tx)) \<and>
      vk_verify sch vk (raw (tx_digest e tx)) (signatures (tx_witness tx) ! k)) (et_inputs et) \<and>
    map cell (et_outputs et) = tb_evaluated_outputs (tx_body tx)"
proof -
  note lt = assms(1) [unfolded link_transaction_iff links_to_def]
  note et = evaluate_iff(2) [OF assms(2)]
  have auth: "authorised sch (tx_digest e tx) l" if "l \<in> set (lt_inputs lt)" for l
    using evaluate_iff(1) [of e sch order pool lt] assms(2) lt that by auto
  have res: "\<exists>i \<in> set (inputs_list (tb_inputs (tx_body tx))). resolves pool (tx_witness tx) i l"
    if "l \<in> set (lt_inputs lt)" for l
    using list_all2_source [OF conjunct1 [OF lt] that] .
  have key: "key_owned l \<longleftrightarrow> is_ProveDlog (ac_owner (cell (fst l)))" if "l \<in> set (lt_inputs lt)" for l
    using res [OF that] by (auto simp: resolves_def key_owned_def split: owner.splits)
  have "filter key_owned (lt_inputs lt) = filter (\<lambda>l. is_ProveDlog (ac_owner (cell (fst l)))) (lt_inputs lt)"
    using key by (intro filter_cong) auto
  then have ins: "et_inputs et = filter (\<lambda>c. is_ProveDlog (ac_owner c)) (map (\<lambda>l. cell (fst l)) (lt_inputs lt))"
    using et by (simp add: filter_map comp_def)
  have "\<exists>pt k pk vk as. (pt, Some k) \<in> set (inputs_list (tb_inputs (tx_body tx))) \<and>
      get_cell pool pt = Some \<lparr>cell = MutCell c, ancors = as\<rparr> \<and> ac_owner c = ProveDlog pk \<and>
      vk_try_from sch pk = Some vk \<and> k < length (signatures (tx_witness tx)) \<and>
      vk_verify sch vk (raw (tx_digest e tx)) (signatures (tx_witness tx) ! k)"
    if c: "c \<in> set (et_inputs et)" for c
  proof -
    obtain l where l: "l \<in> set (lt_inputs lt)" "c = cell (fst l)" "is_ProveDlog (ac_owner c)"
      using c ins by auto
    obtain i where i: "i \<in> set (inputs_list (tb_inputs (tx_body tx)))" "resolves pool (tx_witness tx) i l"
      using res [OF l(1)] by blast
    show ?thesis
      using auth [OF l(1)] i l(2,3)
      by (cases i) (fastforce simp: resolves_def authorised_def split: owner.splits)
  qed
  then show ?thesis using ins et lt by (simp add: list_all_iff comp_def)
qed

theorem evaluated_inputs_signed_witness:
  "\<exists>lt et. link_transaction demo_encoders demo_pool demo_tx = Inr lt \<and>
     evaluate_transaction demo_encoders demo_schnorr demo_order demo_pool lt = Inr (Inr et) \<and>
     et_inputs et = filter (\<lambda>c. is_ProveDlog (ac_owner c)) (map (\<lambda>l. cell (fst l)) (lt_inputs lt)) \<and>
     length (lt_inputs lt) = 2 \<and> length (et_inputs et) = 1"
proof -
  obtain et where "evaluate_transaction demo_encoders demo_schnorr demo_order demo_pool demo_linked = Inr (Inr et)"
    "length (et_inputs et) = 1" using demo_evaluates by blast
  moreover have "length (lt_inputs demo_linked) = 2" by (simp add: demo_linked_def)
  ultimately show ?thesis using evaluated_inputs_signed [OF demo_links] demo_links by blast
qed

text \<open>
  Every output of an evaluated transaction is anchored, per external chain, at the greatest point
  any input is anchored at, unless the chain has already reached that point.
\<close>

theorem output_anchors_converge:
  assumes "enumerates order" "evaluate_transaction e sch order pool lt = Inr (Inr et)"
    and "out \<in> set (et_outputs et)"
  shows "\<lparr>pp_chain_id = c, pp_point = p\<rparr> \<in> set (ancors out) \<longleftrightarrow>
    (let S = points c (anchors_of (lt_inputs lt)) in S \<noteq> {} \<and> p = Max S \<and> progress_of pool c < p)"
proof -
  have "ancors out = unreached_ancors order pool (converge_ancors (anchors_of (lt_inputs lt)) Map.empty)"
    using evaluate_iff(2) [OF assms(2)] assms(3) by auto
  then show ?thesis
    using unreached_ancors_set [OF assms(1) converge_ancors_finite [of Map.empty]]
    by (auto simp: converge_ancors_max Let_def split: if_splits)
qed

theorem output_anchors_converge_witness:
  "\<exists>et. evaluate_transaction demo_encoders demo_schnorr demo_order demo_pool demo_linked = Inr (Inr et) \<and>
     et_outputs et \<noteq> [] \<and> \<lparr>pp_chain_id = 0, pp_point = 9\<rparr> \<in> set (ancors (hd (et_outputs et)))"
proof -
  obtain et where et: "evaluate_transaction demo_encoders demo_schnorr demo_order demo_pool demo_linked = Inr (Inr et)"
    "length (et_outputs et) = 1" using demo_evaluates by blast
  then have "hd (et_outputs et) \<in> set (et_outputs et)" by (cases "et_outputs et") auto
  moreover have "points 0 (anchors_of (lt_inputs demo_linked)) = {7, 9}"
    by (force simp: demo_linked_def anchors_of_def points_def image_def)
  moreover have "progress_of demo_pool 0 = 8" by (simp add: demo_pool_def)
  ultimately show ?thesis
    using output_anchors_converge [OF demo_order_enumerates et(1), of "hd (et_outputs et)" 0 9] et
    by auto
qed

end
