(* ===== verification/Validation.thy ===== *)
theory Validation
  imports Ledger
begin

text \<open>
  The validation pipeline (\<open>spectrum-validation/src\<close>): consensus rules, the combinators of
  \<open>ValidationState\<close> and \<open>Validation\<close>, and the validation of a block header built from them
  (\<open>spectrum-consensus/src/block_header.rs\<close>). The rule table, the history, the ledger state, the
  protocol parameters and the lottery are traits or floating-point code: they are arguments.
\<close>

section \<open>Rules\<close>

type_synonym rule_id = nat

record non_term_rule_spec =
  nt_active :: bool
  nt_description :: string

record term_rule_spec =
  t_fatal :: bool
  t_description :: string

text \<open>The trait \<open>ConsensusRuleSet\<close>.\<close>

record rule_set =
  get_rule :: "rule_id \<Rightarrow> non_term_rule_spec"
  get_term_rule :: "rule_id \<Rightarrow> term_rule_spec"

text \<open>The trait \<open>Modifier\<close>: identifier and type of a modifier.\<close>

record 'a modifier_ops =
  m_id :: "'a \<Rightarrow> modifier_id"
  m_tpe :: modifier_type

record modifier_err =
  me_modifier_id :: modifier_id
  me_modifier_type :: modifier_type
  me_details :: string

record rule_violation =
  rv_rule :: rule_id
  rv_modifier_id :: modifier_id
  rv_modifier_type :: modifier_type
  rv_details :: string

record invalid_modifier =
  im_modifier_id :: modifier_id
  im_modifier_type :: modifier_type
  im_fatal :: bool
  im_violations :: "rule_violation list"

definition as_invalid :: "'a modifier_ops \<Rightarrow> 'a \<Rightarrow> string \<Rightarrow> modifier_err" where
  "as_invalid ops a details =
     \<lparr>me_modifier_id = m_id ops a, me_modifier_type = m_tpe ops, me_details = details\<rparr>"

definition into_violation :: "modifier_err \<Rightarrow> rule_id \<Rightarrow> rule_violation" where
  "into_violation e rule =
     \<lparr>rv_rule = rule, rv_modifier_id = me_modifier_id e, rv_modifier_type = me_modifier_type e,
      rv_details = me_details e\<rparr>"

section \<open>Combinators\<close>

datatype ('t, 'e) validation_state =
    VOk 't
  | NonTermError 't "rule_violation list"
  | TermError 'e bool rule_violation

fun vs_and_then ::
  "('t, 'e) validation_state \<Rightarrow> ('t \<Rightarrow> ('t1, 'e) validation_state) \<Rightarrow> ('t1, 'e) validation_state" where
  "vs_and_then (VOk t) func = func t"
| "vs_and_then (NonTermError s err_acc) func =
     (case func s of
        VOk t1 \<Rightarrow> NonTermError t1 err_acc
      | NonTermError t1 errs \<Rightarrow> NonTermError t1 (err_acc @ errs)
      | TermError e f err \<Rightarrow> TermError e f err)"
| "vs_and_then (TermError e f err) func = TermError e f err"

fun vs_map :: "('t, 'e) validation_state \<Rightarrow> ('t \<Rightarrow> 't1) \<Rightarrow> ('t1, 'e) validation_state" where
  "vs_map (VOk s) func = VOk (func s)"
| "vs_map (NonTermError s errs) func = NonTermError (func s) errs"
| "vs_map (TermError e f err) func = TermError e f err"

fun flat_tap ::
  "('t, 'e) validation_state \<Rightarrow> ('t \<Rightarrow> ('t1, 'e) validation_state) \<Rightarrow> ('t, 'e) validation_state" where
  "flat_tap (VOk t) func = vs_map (func t) (\<lambda>_. t)"
| "flat_tap (NonTermError t err_acc) func =
     (case vs_map (func t) (\<lambda>_. t) of
        VOk t1 \<Rightarrow> NonTermError t1 err_acc
      | NonTermError t1 errs \<Rightarrow> NonTermError t1 (err_acc @ errs)
      | TermError e f err \<Rightarrow> TermError e f err)"
| "flat_tap (TermError e f err) func = TermError e f err"

definition vs_discard :: "('t, 'e) validation_state \<Rightarrow> (unit, 'e) validation_state" where
  "vs_discard v = vs_map v (\<lambda>_. ())"

definition vs_new :: "'t \<Rightarrow> ('t, 'e) validation_state" where
  "vs_new payload = VOk payload"

definition vs_ok :: "(unit, 'e) validation_state" where
  "vs_ok = VOk ()"

definition vs_fail :: "rule_id \<Rightarrow> rule_set \<Rightarrow> modifier_err \<Rightarrow> ('a, unit) validation_state" where
  "vs_fail rule_id rules err =
     TermError () (t_fatal (get_term_rule rules rule_id)) (into_violation err rule_id)"

definition vs_fail_out :: "rule_id \<Rightarrow> rule_set \<Rightarrow> 'e \<Rightarrow> modifier_err \<Rightarrow> ('t, 'e) validation_state" where
  "vs_fail_out rule_id rules out err =
     TermError out (t_fatal (get_term_rule rules rule_id)) (into_violation err rule_id)"

definition assert_static ::
  "rule_id \<Rightarrow> rule_set \<Rightarrow> bool \<Rightarrow> modifier_err \<Rightarrow> (unit, unit) validation_state" where
  "assert_static rule_id rules cond err =
     (let rule = get_term_rule rules rule_id
      in if cond then VOk () else TermError () (t_fatal rule) (into_violation err rule_id))"

definition vs_unwrap ::
  "rule_id \<Rightarrow> rule_set \<Rightarrow> 'a option \<Rightarrow> modifier_err \<Rightarrow> ('a, unit) validation_state" where
  "vs_unwrap rule_id rules extracted err =
     (let rule = get_term_rule rules rule_id
      in case extracted of
           Some t1 \<Rightarrow> VOk t1
         | None \<Rightarrow> TermError () (t_fatal rule) (into_violation err rule_id))"

definition assert_defined ::
  "('a, unit) validation_state \<Rightarrow> rule_id \<Rightarrow> rule_set \<Rightarrow> ('a \<Rightarrow> 'a1 option) \<Rightarrow> ('a \<Rightarrow> modifier_err)
   \<Rightarrow> ('a1, unit) validation_state" where
  "assert_defined v rule_id rules cond err =
     (let rule = get_term_rule rules rule_id
      in vs_and_then v (\<lambda>t.
           case cond t of
             Some t1 \<Rightarrow> VOk t1
           | None \<Rightarrow> TermError () (t_fatal rule) (into_violation (err t) rule_id)))"

definition vs_assert ::
  "('a, unit) validation_state \<Rightarrow> rule_id \<Rightarrow> rule_set \<Rightarrow> ('a \<Rightarrow> bool) \<Rightarrow> ('a \<Rightarrow> modifier_err)
   \<Rightarrow> ('a, unit) validation_state" where
  "vs_assert v rule_id rules cond err =
     (let rule = get_term_rule rules rule_id
      in vs_and_then v (\<lambda>t.
           if cond t then VOk t
           else TermError () (t_fatal rule) (into_violation (err t) rule_id)))"

definition assert_non_terminal ::
  "('t, 'e) validation_state \<Rightarrow> rule_id \<Rightarrow> rule_set \<Rightarrow> ('t \<Rightarrow> bool) \<Rightarrow> ('t \<Rightarrow> modifier_err)
   \<Rightarrow> ('t, 'e) validation_state" where
  "assert_non_terminal v rule_id rules cond if_failed =
     (let rule = get_rule rules rule_id
      in vs_and_then v (\<lambda>t.
           if \<not> nt_active rule \<or> cond t then VOk t
           else NonTermError t [into_violation (if_failed t) rule_id]))"

definition asset_out ::
  "('t, 'e) validation_state \<Rightarrow> rule_id \<Rightarrow> rule_set \<Rightarrow> ('t \<Rightarrow> bool) \<Rightarrow> ('t \<Rightarrow> 'e \<times> modifier_err)
   \<Rightarrow> ('t, 'e) validation_state" where
  "asset_out v rule_id rules cond if_failed =
     (let rule = get_term_rule rules rule_id
      in vs_and_then v (\<lambda>t.
           if cond t then VOk t
           else let (out, err) = if_failed t
                in TermError out (t_fatal rule) (into_violation err rule_id)))"

section \<open>Validation of a modifier\<close>

record ('a, 't, 'e) validation =
  v_modifier :: 'a
  v_state :: "('t, 'e) validation_state"

definition new_validation :: "'a \<Rightarrow> ('a, unit, 'e) validation" where
  "new_validation modifier = \<lparr>v_modifier = modifier, v_state = VOk ()\<rparr>"

definition validation_and_then ::
  "('a, 't, 'e) validation \<Rightarrow> ('a \<Rightarrow> 't \<Rightarrow> ('t1, 'e) validation_state) \<Rightarrow> ('a, 't1, 'e) validation" where
  "validation_and_then v func =
     \<lparr>v_modifier = v_modifier v,
      v_state =
        (case v_state v of
           VOk t \<Rightarrow> func (v_modifier v) t
         | NonTermError t err_acc \<Rightarrow>
             (case func (v_modifier v) t of
                VOk t1 \<Rightarrow> NonTermError t1 err_acc
              | NonTermError t1 errs \<Rightarrow> NonTermError t1 (err_acc @ errs)
              | TermError e f err \<Rightarrow> TermError e f err)
         | TermError e f err \<Rightarrow> TermError e f err)\<rparr>"

definition validation_result ::
  "'a modifier_ops \<Rightarrow> ('a, unit, unit) validation \<Rightarrow> invalid_modifier + 'a" where
  "validation_result ops v =
     (let modifier = v_modifier v
      in case v_state v of
           VOk _ \<Rightarrow> Inr modifier
         | NonTermError _ errs \<Rightarrow>
             Inl \<lparr>im_modifier_id = m_id ops modifier, im_modifier_type = m_tpe ops, im_fatal = False,
                  im_violations = errs\<rparr>
         | TermError _ fatal err \<Rightarrow>
             Inl \<lparr>im_modifier_id = m_id ops modifier, im_modifier_type = m_tpe ops, im_fatal = fatal,
                  im_violations = [err]\<rparr>)"

section \<open>Block headers\<close>

definition HEADER_PARENT_LINK :: rule_id where "HEADER_PARENT_LINK = 0"
definition HEADER_NON_DESC_SLOT :: rule_id where "HEADER_NON_DESC_SLOT = 1"
definition HEADER_PARENT_SLOT_DELTA :: rule_id where "HEADER_PARENT_SLOT_DELTA = 2"
definition HEADER_VALIDATOR_CREDS :: rule_id where "HEADER_VALIDATOR_CREDS = 2"
definition HEADER_VALIDATOR_MEMBER :: rule_id where "HEADER_VALIDATOR_MEMBER = 2"
definition HEADER_VALIDATOR_LEADER :: rule_id where "HEADER_VALIDATOR_LEADER = 2"
definition HEADER_EPOCH_SEED :: rule_id where "HEADER_EPOCH_SEED = 3"
definition HEADER_SPO_VERIFIED :: rule_id where "HEADER_SPO_VERIFIED = 1"
definition HEADER_VRF :: rule_id where "HEADER_VRF = 2"

definition EPOCH_MEMBERSHIP_SALT :: string where
  "EPOCH_MEMBERSHIP_SALT = ''EMS''"

text \<open>
  The environment of header validation: the traits \<open>LedgerHistoryReadSync\<close>, \<open>ConsensusIndexes\<close>,
  \<open>StakeDistribution\<close>, \<open>ValidatorCredentials\<close> and \<open>ProtocolParams\<close>.
\<close>

record header_env =
  get_header :: "block_id \<Rightarrow> block_header option"
  get_pool_creds :: "stake_pool_id \<Rightarrow> (kes_vkey \<times> (chain_id \<times> domain_vkey) list) option"
  get_epoch_rand_proof :: "epoch_no \<Rightarrow> vrf_proof option"
  get_stake :: "stake_pool_id \<Rightarrow> nat"
  get_total_stake :: nat
  protocol_fk :: nat
  base_vrf_range :: nat
  consensus_selection_frac :: "nat \<times> nat"

text \<open>The lottery (floating-point arithmetic and 256-bit integers) and the formatting of numbers and identifiers.\<close>

record lottery =
  lottery_threshold :: "nat \<Rightarrow> nat \<Rightarrow> nat \<Rightarrow> nat \<times> nat \<Rightarrow> nat"
  proof_to_random_number :: "vrf_proof \<Rightarrow> string \<Rightarrow> nat \<Rightarrow> nat"
  show_number :: "nat \<Rightarrow> string"
  show_block_id :: "block_id \<Rightarrow> string"

definition header_ops :: "'t encoders \<Rightarrow> block_header modifier_ops" where
  "header_ops e = \<lparr>m_id = header_id e, m_tpe = BlockHeaderType\<rparr>"

text \<open>
  The subtraction of slots runs only where the assertion before it holds, so that it does not
  overflow; see \<open>slot_delta_not_reached\<close>.
\<close>

definition check_slot_delta ::
  "'t encoders \<Rightarrow> lottery \<Rightarrow> block_header \<Rightarrow> header_env \<Rightarrow> rule_set \<Rightarrow> block_header
   \<Rightarrow> (unit, unit) validation_state" where
  "check_slot_delta e lot parent_hdr env rules hdr =
     (let delta = hb_slot_num (bh_body hdr) - hb_slot_num (bh_body parent_hdr);
          allowed_delta = protocol_fk env
      in assert_static HEADER_PARENT_SLOT_DELTA rules (delta \<le> allowed_delta)
           (as_invalid (header_ops e) hdr
              (''Slot delta out of bounds. Max allowed delta is '' @ show_number lot allowed_delta @
               '', actual '' @ show_number lot delta)))"

definition check_membership ::
  "'t encoders \<Rightarrow> lottery \<Rightarrow> header_env \<Rightarrow> rule_set \<Rightarrow> block_header \<Rightarrow> (unit, unit) validation_state" where
  "check_membership e lot env rules hdr =
     (let epoch = epoch_num (hb_slot_num (bh_body hdr)); pool = pool_id_of e (hb_vrf_vk (bh_body hdr))
      in vs_and_then
           (vs_unwrap HEADER_EPOCH_SEED rules (get_epoch_rand_proof env epoch)
              (as_invalid (header_ops e) hdr
                 (''Randomness proof for epoch '' @ show_number lot epoch @ '' not found'')))
           (\<lambda>epoch_rand_proof.
              let vrf_range = base_vrf_range env;
                  epoch_threshold = lottery_threshold lot vrf_range (get_stake env pool)
                    (get_total_stake env) (consensus_selection_frac env);
                  epoch_seed = proof_to_random_number lot epoch_rand_proof EPOCH_MEMBERSHIP_SALT vrf_range
              in assert_static HEADER_VALIDATOR_MEMBER rules (epoch_seed < epoch_threshold)
                   (as_invalid (header_ops e) hdr ''Author not a member'')))"

definition validate_child_block_header ::
  "'t encoders \<Rightarrow> lottery \<Rightarrow> block_header \<Rightarrow> block_header \<Rightarrow> header_env \<Rightarrow> rule_set
   \<Rightarrow> (unit, unit) validation_state" where
  "validate_child_block_header e lot hdr parent_hdr env rules =
     vs_discard
       (flat_tap
         (vs_and_then
           (flat_tap
             (vs_assert (vs_new hdr) HEADER_NON_DESC_SLOT rules
               (\<lambda>hdr. hb_slot_num (bh_body parent_hdr) < hb_slot_num (bh_body hdr))
               (\<lambda>hdr. as_invalid (header_ops e) hdr
                  (''Non increasing slot number, parent slot '' @ show_number lot (hb_slot_num (bh_body parent_hdr)) @
                   '', header slot '' @ show_number lot (hb_slot_num (bh_body hdr)))))
             (check_slot_delta e lot parent_hdr env rules))
           (\<lambda>hdr. vs_map
              (vs_unwrap HEADER_VALIDATOR_CREDS rules (get_pool_creds env (pool_id_of e (hb_vrf_vk (bh_body hdr))))
                 (as_invalid (header_ops e) hdr ''Author not registered.''))
              (\<lambda>creds. (hdr, creds))))
         (\<lambda>(hdr, creds). check_membership e lot env rules hdr))"

definition validate_block_header ::
  "'t encoders \<Rightarrow> lottery \<Rightarrow> block_header \<Rightarrow> header_env \<Rightarrow> rule_set \<Rightarrow> (block_header, unit, unit) validation" where
  "validate_block_header e lot hdr env rules =
     validation_and_then (new_validation hdr) (\<lambda>hdr _.
       let prev_id = hb_prev_id (bh_body hdr)
       in case get_header env prev_id of
            Some parent_hdr \<Rightarrow> validate_child_block_header e lot hdr parent_hdr env rules
          | None \<Rightarrow>
              vs_fail HEADER_PARENT_LINK rules
                (as_invalid (header_ops e) hdr (''Parent header with ID '' @ show_block_id lot prev_id @ '' not found'')))"

end
