(* ===== verification/Validation_Correct.thy ===== *)
theory Validation_Correct
  imports Validation
begin

text \<open>
  Correctness of the validation pipeline: the laws of its combinators, the verdict of a sequence of
  checks, and what an accepted block header satisfies.
\<close>

section \<open>Sequences of checks\<close>

datatype 'a check =
    is_Terminal: Terminal (check_rule: rule_id) (check_cond: "'a \<Rightarrow> bool") (check_err: "'a \<Rightarrow> modifier_err")
  | NonTerminal (check_rule: rule_id) (check_cond: "'a \<Rightarrow> bool") (check_err: "'a \<Rightarrow> modifier_err")

fun run_check :: "rule_set \<Rightarrow> 'a check \<Rightarrow> ('a, unit) validation_state \<Rightarrow> ('a, unit) validation_state" where
  "run_check rules (Terminal r c e) v = vs_assert v r rules c e"
| "run_check rules (NonTerminal r c e) v = assert_non_terminal v r rules c e"

definition run_checks :: "rule_set \<Rightarrow> 'a \<Rightarrow> 'a check list \<Rightarrow> ('a, unit) validation_state" where
  "run_checks rules a cs = fold (run_check rules) cs (vs_new a)"

fun violated :: "rule_set \<Rightarrow> 'a \<Rightarrow> 'a check \<Rightarrow> bool" where
  "violated rules a (Terminal r c e) \<longleftrightarrow> \<not> c a"
| "violated rules a (NonTerminal r c e) \<longleftrightarrow> nt_active (get_rule rules r) \<and> \<not> c a"

definition violation :: "'a \<Rightarrow> 'a check \<Rightarrow> rule_violation" where
  "violation a c = into_violation (check_err c a) (check_rule c)"

definition caught :: "'a \<Rightarrow> rule_violation list \<Rightarrow> ('a, unit) validation_state" where
  "caught a vs = (if vs = [] then VOk a else NonTermError a vs)"

text \<open>The reference: the first violated terminal rule, or all violated non-terminal ones in order.\<close>

definition verdict :: "rule_set \<Rightarrow> 'a \<Rightarrow> 'a check list \<Rightarrow> ('a, unit) validation_state" where
  "verdict rules a cs =
     (case find (\<lambda>c. is_Terminal c \<and> violated rules a c) cs of
        Some c \<Rightarrow> TermError () (t_fatal (get_term_rule rules (check_rule c))) (violation a c)
      | None \<Rightarrow> caught a (map (violation a) (filter (violated rules a) cs)))"

lemma run_checks_term: "fold (run_check rules) cs (TermError u f err) = TermError u f err"
proof (induction cs)
  case (Cons c cs)
  then show ?case by (cases c) (simp_all add: vs_assert_def assert_non_terminal_def)
qed simp

lemma run_check_caught:
  "run_check rules c (caught a acc) =
     (if is_Terminal c \<and> violated rules a c
      then TermError () (t_fatal (get_term_rule rules (check_rule c))) (violation a c)
      else caught a (acc @ (if violated rules a c then [violation a c] else [])))"
  by (cases c) (auto simp: vs_assert_def assert_non_terminal_def caught_def violation_def Let_def)

lemma run_checks_caught:
  "fold (run_check rules) cs (caught a acc) =
     (case find (\<lambda>c. is_Terminal c \<and> violated rules a c) cs of
        Some c \<Rightarrow> TermError () (t_fatal (get_term_rule rules (check_rule c))) (violation a c)
      | None \<Rightarrow> caught a (acc @ map (violation a) (filter (violated rules a) cs)))"
proof (induction cs arbitrary: acc)
  case (Cons c cs)
  show ?case
  proof (cases "is_Terminal c \<and> violated rules a c")
    case True
    then show ?thesis by (simp add: run_check_caught run_checks_term)
  next
    case False
    then have "run_check rules c (caught a acc) =
        caught a (acc @ (if violated rules a c then [violation a c] else []))"
      by (auto simp: run_check_caught)
    then show ?thesis using False by (auto simp: Cons.IH split: option.split)
  qed
qed (simp add: caught_def)

section \<open>Accepted headers\<close>

definition accepted_header :: "'t encoders \<Rightarrow> lottery \<Rightarrow> header_env \<Rightarrow> block_header \<Rightarrow> bool" where
  "accepted_header e lot env hdr \<longleftrightarrow>
     (let body = bh_body hdr; slot = hb_slot_num body; pool = pool_id_of e (hb_vrf_vk body)
      in (\<exists>parent. get_header env (hb_prev_id body) = Some parent \<and>
            hb_slot_num (bh_body parent) < slot \<and> slot \<le> hb_slot_num (bh_body parent) + protocol_fk env) \<and>
         get_pool_creds env pool \<noteq> None \<and>
         (\<exists>prf. get_epoch_rand_proof env (epoch_num slot) = Some prf \<and>
            proof_to_random_number lot prf EPOCH_MEMBERSHIP_SALT (base_vrf_range env) <
            lottery_threshold lot (base_vrf_range env) (get_stake env pool) (get_total_stake env)
              (consensus_selection_frac env)))"

text \<open>The subtraction of slots is not reached when it would overflow.\<close>

lemma slot_delta_not_reached:
  "\<not> hb_slot_num (bh_body parent) < hb_slot_num (bh_body hdr) \<Longrightarrow>
   flat_tap (vs_assert (vs_new hdr) r rules
     (\<lambda>hdr. hb_slot_num (bh_body parent) < hb_slot_num (bh_body hdr)) err) f =
   flat_tap (vs_assert (vs_new hdr) r rules
     (\<lambda>hdr. hb_slot_num (bh_body parent) < hb_slot_num (bh_body hdr)) err) g"
  by (simp add: vs_assert_def vs_new_def)

lemma child_header_ok:
  "validate_child_block_header e lot hdr parent env rules = VOk () \<longleftrightarrow>
     hb_slot_num (bh_body parent) < hb_slot_num (bh_body hdr) \<and>
     hb_slot_num (bh_body hdr) - hb_slot_num (bh_body parent) \<le> protocol_fk env \<and>
     get_pool_creds env (pool_id_of e (hb_vrf_vk (bh_body hdr))) \<noteq> None \<and>
     check_membership e lot env rules hdr = VOk ()"
  unfolding validate_child_block_header_def
  by (cases "get_pool_creds env (pool_id_of e (hb_vrf_vk (bh_body hdr)))";
      cases "check_membership e lot env rules hdr")
    (auto simp: vs_discard_def vs_assert_def vs_new_def vs_unwrap_def check_slot_delta_def
      assert_static_def Let_def)

lemma membership_ok:
  "check_membership e lot env rules hdr = VOk () \<longleftrightarrow>
     (\<exists>prf. get_epoch_rand_proof env (epoch_num (hb_slot_num (bh_body hdr))) = Some prf \<and>
        proof_to_random_number lot prf EPOCH_MEMBERSHIP_SALT (base_vrf_range env) <
        lottery_threshold lot (base_vrf_range env) (get_stake env (pool_id_of e (hb_vrf_vk (bh_body hdr))))
          (get_total_stake env) (consensus_selection_frac env))"
  by (auto simp: check_membership_def vs_unwrap_def assert_static_def Let_def split: option.split)

lemma child_header_no_warning:
  "validate_child_block_header e lot hdr parent env rules \<noteq> NonTermError () vs"
  unfolding validate_child_block_header_def
  by (cases "get_pool_creds env (pool_id_of e (hb_vrf_vk (bh_body hdr)))")
    (auto simp: vs_discard_def vs_assert_def vs_new_def vs_unwrap_def check_slot_delta_def
      assert_static_def check_membership_def Let_def split: option.split)

lemma header_result_iff:
  "validation_result (header_ops e) (validate_block_header e lot hdr env rules) = Inr h \<longleftrightarrow>
     h = hdr \<and> accepted_header e lot env hdr"
proof (cases "get_header env (hb_prev_id (bh_body hdr))")
  case None
  then show ?thesis
    by (simp add: validation_result_def validate_block_header_def validation_and_then_def
        new_validation_def vs_fail_def accepted_header_def)
next
  case (Some parent)
  have state: "v_state (validate_block_header e lot hdr env rules) =
      validate_child_block_header e lot hdr parent env rules"
    "v_modifier (validate_block_header e lot hdr env rules) = hdr"
    using Some by (simp_all add: validate_block_header_def validation_and_then_def new_validation_def)
  have "validation_result (header_ops e) (validate_block_header e lot hdr env rules) = Inr h \<longleftrightarrow>
      h = hdr \<and> validate_child_block_header e lot hdr parent env rules = VOk ()"
    unfolding validation_result_def state Let_def
    by (cases "validate_child_block_header e lot hdr parent env rules") auto
  then show ?thesis
    using Some unfolding child_header_ok membership_ok
    by (auto simp: accepted_header_def Let_def)
qed

section \<open>Properties\<close>

text \<open>
  The combinators form one sequencing discipline: \<open>and_then\<close> is associative with \<open>Ok\<close> as unit,
  so that regrouping a pipeline changes neither the value nor the violations nor their order;
  \<open>flat_tap\<close> is \<open>and_then\<close> with the value put back; and the \<open>and_then\<close> of \<open>Validation\<close>, which the
  code writes out again, is the one of \<open>ValidationState\<close>.
\<close>

theorem combinator_laws:
  "vs_and_then (vs_and_then v f) g = vs_and_then v (\<lambda>t. vs_and_then (f t) g) \<and>
   vs_and_then v VOk = v \<and> vs_and_then (VOk t) f = f t \<and>
   flat_tap v h = vs_and_then v (\<lambda>t. vs_map (h t) (\<lambda>_. t)) \<and>
   v_state (validation_and_then va k) = vs_and_then (v_state va) (k (v_modifier va))"
proof (intro conjI)
  show "vs_and_then (vs_and_then v f) g = vs_and_then v (\<lambda>t. vs_and_then (f t) g)"
    by (cases v) (auto split: validation_state.split)
qed (cases v; cases "v_state va"; simp add: validation_and_then_def)+

text \<open>
  The verdict of a sequence of terminal and non-terminal checks is that of the reference: the
  first violated terminal rule ends it, with the fatality of the rule; otherwise the violations of
  the active non-terminal rules are collected, all of them and in order; and with none the modifier
  passes.
\<close>

theorem run_checks_verdict: "run_checks rules a cs = verdict rules a cs"
  using run_checks_caught [of rules cs a "[]"]
  by (simp add: run_checks_def verdict_def vs_new_def caught_def [of a "[]"] cong: option.case_cong)

text \<open>
  C17. A block header is accepted exactly when its parent is known, its slot follows the slot of the
  parent by at most the allowed delta, its author is registered, the seed of its epoch is known and
  the seed is below the threshold of the author's stake.
\<close>

theorem header_accepted_iff:
  "validation_result (header_ops e) (validate_block_header e lot hdr env rules) = Inr h \<longleftrightarrow>
     h = hdr \<and> accepted_header e lot env hdr"
  by (rule header_result_iff)

text \<open>
  Neither the signature of a header nor its VRF proof, block number, body root or protocol
  version is checked: a header that differs only in these is accepted or rejected alike.
\<close>

theorem header_signature_unchecked:
  "(\<exists>h. validation_result (header_ops e) (validate_block_header e lot hdr env rules) = Inr h) \<longleftrightarrow>
   (\<exists>h. validation_result (header_ops e) (validate_block_header e lot
      (hdr\<lparr>bh_body_signature := sig,
           bh_body := bh_body hdr\<lparr>hb_vrf_proof := prf, hb_block_num := n, hb_block_body_root := root,
             hb_protocol_version := ver\<rparr>\<rparr>) env rules) = Inr h)"
  unfolding header_result_iff by (simp add: accepted_header_def Let_def)

end
