(* ===== verification/Diffusion.thy ===== *)
theory Diffusion
  imports Ledger Behaviour Task_Pool
begin

text \<open>
  Synchronisation of chains (\<open>spectrum-diffusion/src\<close>): the messages, the comparison of a remote
  chain with the local one (\<open>service.rs\<close>) and the behaviour that answers peers in tasks
  (\<open>behaviour.rs\<close>). The ledger history is a trait whose only implementation is unfinished: it is the
  record \<open>history\<close>, which a task gets anew whenever it reads. The decoder of modifiers is a parameter;
  the node view that modifiers are handed to is the log of calls of the task pool.
\<close>

section \<open>Messages\<close>

record sync_status =
  ss_height :: slot_no
  ss_last_blocks :: "block_id list"

type_synonym serialized_modifier = bytes

datatype diffusion_handshake = HandshakeV1 sync_status

datatype diffusion_message =
    Inv modifier_type "modifier_id list"
  | RequestModifiers modifier_type "modifier_id list"
  | Modifiers modifier_type "serialized_modifier list"
  | SyncStatusMsg sync_status

definition diffusion_v1 :: protocol_ver where
  "diffusion_v1 = 1"

fun diffusion_message_version :: "diffusion_message \<Rightarrow> protocol_ver" where
  "diffusion_message_version m = diffusion_v1"

fun diffusion_handshake_version :: "diffusion_handshake \<Rightarrow> protocol_ver" where
  "diffusion_handshake_version h = diffusion_v1"

section \<open>Comparison of chains\<close>

datatype remote_chain_cmp =
    RcEqual
  | RcLonger "block_id list option"
  | RcShorter block_id
  | RcFork "block_id option"
  | RcNonsense

record sync_state =
  sy_height :: slot_no
  sy_cmp :: remote_chain_cmp

text \<open>The trait \<open>LedgerHistoryReadAsync\<close>; of a header only its slot is used.\<close>

record history =
  hist_member :: "block_id \<Rightarrow> bool"
  hist_contains :: "modifier_id \<Rightarrow> bool"
  hist_tip :: "modifier_id \<times> slot_no"
  hist_tail :: "nat \<Rightarrow> (modifier_id \<times> slot_no) list"
  hist_follow :: "block_id \<Rightarrow> nat \<Rightarrow> block_id list"
  hist_multi_get_raw :: "block_section_type \<Rightarrow> modifier_id list \<Rightarrow> serialized_modifier list"

definition SYNC_HEADERS :: nat where
  "SYNC_HEADERS = 256"

text \<open>\<open>local_status\<close> reads the tail of the chain twice.\<close>

definition local_status :: "history \<Rightarrow> history \<Rightarrow> sync_status" where
  "local_status h1 h2 =
     \<lparr>ss_height = snd (last (hist_tail h1 SYNC_HEADERS)),
      ss_last_blocks = rev (map (\<lambda>r. block_of_modifier (fst r)) (hist_tail h2 SYNC_HEADERS))\<rparr>"

definition make_poly_handshake :: "history \<Rightarrow> history \<Rightarrow> (protocol_ver \<times> diffusion_handshake option) list" where
  "make_poly_handshake h1 h2 = [(diffusion_v1, Some (HandshakeV1 (local_status h1 h2)))]"

text \<open>Find the point where the remote chain intersects the local one.\<close>

fun common_point :: "history \<Rightarrow> block_id list \<Rightarrow> block_id option" where
  "common_point h [] = None"
| "common_point h (blk # remote_tail) = (if hist_member h blk then Some blk else common_point h remote_tail)"

definition compare_remote :: "history \<Rightarrow> sync_status \<Rightarrow> remote_chain_cmp" where
  "compare_remote h peer_status =
     (let local_tip = block_of_modifier (fst (hist_tip h)); local_slot = snd (hist_tip h);
          peer_height = ss_height peer_status; peer_tail = ss_last_blocks peer_status
      in case peer_tail of
           [] \<Rightarrow> RcShorter origin_block
         | peer_tip # _ \<Rightarrow>
             let delta = peer_height - local_slot; num_shared_blocks = length peer_tail
             in if num_shared_blocks < delta then RcLonger None
                else
                  (case find (\<lambda>blk. blk = local_tip) peer_tail of
                     Some common_sl \<Rightarrow>
                       if local_slot \<le> peer_height
                       then if common_sl = peer_tip then RcEqual
                            else RcLonger (Some (rev (takeWhile (\<lambda>blk. blk \<noteq> common_sl) peer_tail)))
                       else RcNonsense
                   | None \<Rightarrow>
                       (case common_point h peer_tail of
                          Some common \<Rightarrow>
                            if common = peer_tip then RcShorter common else RcFork (Some common)
                        | None \<Rightarrow> RcFork None)))"

definition remote_state :: "history \<Rightarrow> sync_status \<Rightarrow> sync_state" where
  "remote_state h peer_status = \<lparr>sy_height = ss_height peer_status, sy_cmp = compare_remote h peer_status\<rparr>"

definition extension :: "history \<Rightarrow> block_id \<Rightarrow> nat \<Rightarrow> block_id list" where
  "extension h remote_tip cap = hist_follow h remote_tip cap"

text \<open>Transactions are to come from the mempool, which is a \<open>todo!\<close>.\<close>

fun get_modifiers :: "history \<Rightarrow> modifier_type \<Rightarrow> modifier_id list \<Rightarrow> serialized_modifier list res" where
  "get_modifiers h BlockHeaderType ms = Inr (hist_multi_get_raw h HeaderSection ms)"
| "get_modifiers h BlockBodyType ms = Inr (hist_multi_get_raw h BodySection ms)"
| "get_modifiers h TransactionType ms = Inl NotImplemented"

section \<open>Delivery\<close>

datatype modifier_status = Wanted | Requested nat | Received | Unknown

type_synonym delivery = "modifier_id \<rightharpoonup> modifier_status"

definition status_of :: "delivery \<Rightarrow> modifier_id \<Rightarrow> modifier_status" where
  "status_of d mid = (case d mid of Some s \<Rightarrow> s | None \<Rightarrow> Unknown)"

definition set_status :: "delivery \<Rightarrow> modifier_id \<Rightarrow> modifier_status \<Rightarrow> delivery" where
  "set_status d mid status = (if status = Unknown then d(mid := None) else d(mid \<mapsto> status))"

section \<open>Tasks\<close>

datatype 'pid diffusion_behaviour_in =
    UpdatePeer 'pid sync_state
  | UpdateModifier modifier_id modifier_status
  | GetModifierStatus modifier_id nat

type_synonym ('pid, 'addr) diffusion_out = "('pid, 'addr, diffusion_handshake, diffusion_message) behaviour_out"

type_synonym ('pid, 'addr) diffusion_task_message =
  "('pid diffusion_behaviour_in, ('pid, 'addr) diffusion_out) from_task"

type_synonym ('pid, 'addr, 't, 'cert) diffusion_task =
  "(('pid, 'addr) diffusion_task_message, modifier_status, ('t, 'cert) modifier, history) task"

definition send_to :: "'pid \<Rightarrow> diffusion_message \<Rightarrow> ('pid, 'addr) diffusion_task_message" where
  "send_to peer_id message = ToHandler (Send peer_id message)"

text \<open>The local status, read from the history when it is needed.\<close>

definition with_local_status ::
  "(sync_status \<Rightarrow> ('pid, 'addr, 't, 'cert) diffusion_task) \<Rightarrow> ('pid, 'addr, 't, 'cert) diffusion_task" where
  "with_local_status k = TaskRead (\<lambda>h1. TaskRead (\<lambda>h2. k (local_status h1 h2)))"

text \<open>\<open>EnablePeer\<close> with the handshakes of \<open>make_poly_handshake\<close>.\<close>

definition enable_peer ::
  "'pid \<Rightarrow> ('pid, 'addr, 't, 'cert) diffusion_task \<Rightarrow> ('pid, 'addr, 't, 'cert) diffusion_task" where
  "enable_peer peer_id k =
     TaskRead (\<lambda>h1. TaskRead (\<lambda>h2.
       TaskSend (ToHandler (NetworkAction (EnablePeer peer_id (make_poly_handshake h1 h2)))) k))"

text \<open>The part of \<open>on_sync\<close> that answers the peer, by the outcome of the comparison.\<close>

definition answer_sync ::
  "nat \<Rightarrow> 'pid \<Rightarrow> bool \<Rightarrow> remote_chain_cmp \<Rightarrow> ('pid, 'addr, 't, 'cert) diffusion_task" where
  "answer_sync max_inv_size peer_id initial cmp =
     (let advertise = (\<lambda>remote_tip. TaskRead (\<lambda>h.
            TaskSend (send_to peer_id (Inv BlockHeaderType
              (map modifier_of_block (extension h remote_tip max_inv_size)))) TaskDone));
          send_status =
            (if initial then TaskDone
             else with_local_status (\<lambda>s. TaskSend (send_to peer_id (SyncStatusMsg s)) TaskDone))
      in case cmp of
           RcEqual \<Rightarrow> TaskDone
         | RcNonsense \<Rightarrow> TaskDone
         | RcLonger None \<Rightarrow> send_status
         | RcFork None \<Rightarrow> send_status
         | RcLonger (Some wanted_suffix) \<Rightarrow>
             TaskSend (send_to peer_id (RequestModifiers BlockHeaderType (map modifier_of_block wanted_suffix)))
               TaskDone
         | RcShorter remote_tip \<Rightarrow> advertise remote_tip
         | RcFork (Some remote_tip) \<Rightarrow> advertise remote_tip)"

text \<open>The comparison works on one reading of the history.\<close>

definition sync_task ::
  "nat \<Rightarrow> 'pid \<Rightarrow> sync_status \<Rightarrow> bool \<Rightarrow> ('pid, 'addr, 't, 'cert) diffusion_task" where
  "sync_task max_inv_size peer_id peer_status initial =
     TaskRead (\<lambda>h.
       let peer_state = remote_state h peer_status;
           reply = answer_sync max_inv_size peer_id initial (sy_cmp peer_state)
       in TaskSend (ToBehaviour (UpdatePeer peer_id peer_state))
            (if initial then enable_peer peer_id reply else reply))"

definition modifiers_request_task ::
  "'pid \<Rightarrow> modifier_type \<Rightarrow> modifier_id list \<Rightarrow> ('pid, 'addr, 't, 'cert) diffusion_task" where
  "modifiers_request_task peer_id mtype modifiers =
     TaskRead (\<lambda>h.
       case get_modifiers h mtype modifiers of
         Inr raw_modifiers \<Rightarrow> TaskSend (send_to peer_id (Modifiers mtype raw_modifiers)) TaskDone
       | Inl e \<Rightarrow> TaskPanic e)"

text \<open>Handing the decoded modifiers to the node view, one after the other.\<close>

fun apply_modifiers :: "('t, 'cert) modifier list \<Rightarrow> ('pid, 'addr, 't, 'cert) diffusion_task" where
  "apply_modifiers [] = TaskDone"
| "apply_modifiers (md # mds) = TaskCall md (apply_modifiers mds)"

fun modifiers_task ::
  "'t encoders \<Rightarrow> (modifier_type \<Rightarrow> serialized_modifier \<Rightarrow> ('t, 'cert) modifier option) \<Rightarrow> 'pid
   \<Rightarrow> modifier_type \<Rightarrow> serialized_modifier list \<Rightarrow> ('t, 'cert) modifier list
   \<Rightarrow> ('pid, 'addr, 't, 'cert) diffusion_task" where
  "modifiers_task e dec peer_id mtype [] modifiers = apply_modifiers modifiers"
| "modifiers_task e dec peer_id mtype (m # raw_modifiers) modifiers =
     (case dec mtype m of
        Some md \<Rightarrow>
          (case mod_id e md of
             Inr mid \<Rightarrow>
               TaskSend (ToBehaviour (UpdateModifier mid Received))
                 (modifiers_task e dec peer_id mtype raw_modifiers (modifiers @ [md]))
           | Inl p \<Rightarrow> TaskPanic p)
      | None \<Rightarrow>
          TaskSend (ToHandler (NetworkAction (BanPeer peer_id))) (apply_modifiers modifiers))"

text \<open>
  \<open>select_wanted\<close>: the status of a modifier is asked for once, and again unless it is wanted; then
  the history is read.
\<close>

fun select_wanted ::
  "modifier_id list \<Rightarrow> modifier_id list \<Rightarrow> (modifier_id list \<Rightarrow> ('pid, 'addr, 't, 'cert) diffusion_task)
   \<Rightarrow> ('pid, 'addr, 't, 'cert) diffusion_task" where
  "select_wanted [] wanted k = k wanted"
| "select_wanted (mid # proposed) wanted k =
     (let ask = TaskAsk (\<lambda>n. ToBehaviour (GetModifierStatus mid n));
          skip = select_wanted proposed wanted k;
          check = TaskRead (\<lambda>h.
            if \<not> hist_contains h mid then select_wanted proposed (wanted @ [mid]) k else skip)
      in ask (\<lambda>s. if s = Wanted then check
                 else ask (\<lambda>s. if s = Unknown then check else skip)))"

definition inv_task ::
  "'pid \<Rightarrow> modifier_type \<Rightarrow> modifier_id list \<Rightarrow> ('pid, 'addr, 't, 'cert) diffusion_task" where
  "inv_task peer_id mtype modifiers =
     select_wanted modifiers [] (\<lambda>wanted.
       if wanted \<noteq> [] then TaskSend (send_to peer_id (RequestModifiers mtype wanted)) TaskDone
       else TaskDone)"

section \<open>The behaviour\<close>

record ('pid, 'addr, 't, 'cert) diffusion =
  df_max_inv_size :: nat
  df_from_tasks :: "('pid, 'addr) diffusion_task_message list"
  df_outbox :: "('pid, 'addr) diffusion_out list"
  df_tasks :: "(('pid, 'addr) diffusion_task_message, modifier_status, ('t, 'cert) modifier, history) task_pool"
  df_peers :: "'pid \<rightharpoonup> sync_state"
  df_delivery :: delivery

definition DIFFUSION_BUFFER_SIZE :: nat where
  "DIFFUSION_BUFFER_SIZE = 1000"

definition new_diffusion :: "nat \<Rightarrow> ('pid, 'addr, 't, 'cert) diffusion" where
  "new_diffusion max_inv_size =
     \<lparr>df_max_inv_size = max_inv_size, df_from_tasks = [], df_outbox = [], df_tasks = new_pool,
      df_peers = Map.empty, df_delivery = Map.empty\<rparr>"

definition spawn_task ::
  "('pid, 'addr, 't, 'cert) diffusion \<Rightarrow> ('pid, 'addr, 't, 'cert) diffusion_task
   \<Rightarrow> ('pid, 'addr, 't, 'cert) diffusion" where
  "spawn_task d t = d\<lparr>df_tasks := spawn (df_tasks d) t\<rparr>"

fun df_on_event ::
  "'pid diffusion_behaviour_in \<Rightarrow> ('pid, 'addr, 't, 'cert) diffusion \<Rightarrow> ('pid, 'addr, 't, 'cert) diffusion res" where
  "df_on_event (UpdatePeer peer_id peer_state) d = Inr (d\<lparr>df_peers := (df_peers d)(peer_id \<mapsto> peer_state)\<rparr>)"
| "df_on_event (UpdateModifier modifier status) d =
     Inr (d\<lparr>df_delivery := set_status (df_delivery d) modifier status\<rparr>)"
| "df_on_event (GetModifierStatus modifier n) d =
     res_bind (answer (df_tasks d) n (status_of (df_delivery d) modifier)) (\<lambda>p. Inr (d\<lparr>df_tasks := p\<rparr>))"

definition on_sync ::
  "('pid, 'addr, 't, 'cert) diffusion \<Rightarrow> 'pid \<Rightarrow> sync_status \<Rightarrow> bool \<Rightarrow> ('pid, 'addr, 't, 'cert) diffusion" where
  "on_sync d peer_id peer_status initial =
     spawn_task d (sync_task (df_max_inv_size d) peer_id peer_status initial)"

definition on_modifiers_request ::
  "('pid, 'addr, 't, 'cert) diffusion \<Rightarrow> 'pid \<Rightarrow> modifier_type \<Rightarrow> modifier_id list
   \<Rightarrow> ('pid, 'addr, 't, 'cert) diffusion" where
  "on_modifiers_request d peer_id mtype modifiers =
     spawn_task d (modifiers_request_task peer_id mtype modifiers)"

definition on_modifiers ::
  "'t encoders \<Rightarrow> (modifier_type \<Rightarrow> serialized_modifier \<Rightarrow> ('t, 'cert) modifier option)
   \<Rightarrow> ('pid, 'addr, 't, 'cert) diffusion \<Rightarrow> 'pid \<Rightarrow> modifier_type \<Rightarrow> serialized_modifier list
   \<Rightarrow> ('pid, 'addr, 't, 'cert) diffusion" where
  "on_modifiers e dec d peer_id mtype raw_modifiers =
     spawn_task d (modifiers_task e dec peer_id mtype raw_modifiers [])"

fun df_inject_message ::
  "'t encoders \<Rightarrow> (modifier_type \<Rightarrow> serialized_modifier \<Rightarrow> ('t, 'cert) modifier option)
   \<Rightarrow> ('pid, 'addr, 't, 'cert) diffusion \<Rightarrow> 'pid \<Rightarrow> diffusion_message \<Rightarrow> ('pid, 'addr, 't, 'cert) diffusion" where
  "df_inject_message e dec d peer_id (Inv mtype modifiers) =
     spawn_task d (inv_task peer_id mtype modifiers)"
| "df_inject_message e dec d peer_id (RequestModifiers mtype modifiers) =
     on_modifiers_request d peer_id mtype modifiers"
| "df_inject_message e dec d peer_id (Modifiers mtype modifiers) =
     on_modifiers e dec d peer_id mtype modifiers"
| "df_inject_message e dec d peer_id (SyncStatusMsg status) = on_sync d peer_id status False"

definition df_protocol_requested ::
  "('pid, 'addr, 't, 'cert) diffusion \<Rightarrow> 'pid \<Rightarrow> diffusion_handshake option \<Rightarrow> ('pid, 'addr, 't, 'cert) diffusion" where
  "df_protocol_requested d peer_id handshake =
     (case handshake of
        Some (HandshakeV1 status) \<Rightarrow> on_sync d peer_id status True
      | None \<Rightarrow> d)"

definition df_protocol_requested_locally ::
  "('pid, 'addr, 't, 'cert) diffusion \<Rightarrow> 'pid \<Rightarrow> ('pid, 'addr, 't, 'cert) diffusion" where
  "df_protocol_requested_locally d peer_id = spawn_task d (enable_peer peer_id TaskDone)"

text \<open>
  The loop of \<open>poll\<close>: let the tasks progress, then process one of their outputs, until an output for
  the handler or none is there. The progress of the tasks in each round is an input; when the inputs
  are used up the tasks make none.
\<close>

fun df_drain ::
  "('pid, 'addr) diffusion_task_message list \<Rightarrow> ('pid, 'addr, 't, 'cert) diffusion
   \<Rightarrow> ('pid, 'addr, 't, 'cert) diffusion res" where
  "df_drain [] d = Inr (d\<lparr>df_from_tasks := []\<rparr>)"
| "df_drain (ToBehaviour input # rest) d = res_bind (df_on_event input (d\<lparr>df_from_tasks := rest\<rparr>)) (df_drain rest)"
| "df_drain (ToHandler out # rest) d = Inr (d\<lparr>df_from_tasks := rest, df_outbox := df_outbox d @ [out]\<rparr>)"

fun df_loop ::
  "(history \<times> (nat \<times> progress) list) list \<Rightarrow> ('pid, 'addr, 't, 'cert) diffusion
   \<Rightarrow> ('pid, 'addr, 't, 'cert) diffusion res" where
  "df_loop [] d = df_drain (df_from_tasks d) d"
| "df_loop ((h, ready) # is) d =
     res_bind (pool_poll_next DIFFUSION_BUFFER_SIZE h ready (df_tasks d, df_from_tasks d)) (\<lambda>(p, chan).
       let d = d\<lparr>df_tasks := p, df_from_tasks := chan\<rparr>
       in case chan of
            [] \<Rightarrow> Inr d
          | ToBehaviour input # rest \<Rightarrow> res_bind (df_on_event input (d\<lparr>df_from_tasks := rest\<rparr>)) (df_loop is)
          | ToHandler out # rest \<Rightarrow> Inr (d\<lparr>df_from_tasks := rest, df_outbox := df_outbox d @ [out]\<rparr>))"

definition df_poll ::
  "(history \<times> (nat \<times> progress) list) list \<Rightarrow> ('pid, 'addr, 't, 'cert) diffusion
   \<Rightarrow> (('pid, 'addr, 't, 'cert) diffusion \<times> ('pid, 'addr) diffusion_out poll_option) res" where
  "df_poll is d =
     res_bind (df_loop is d) (\<lambda>d.
       Inr (case df_outbox d of
              out # rest \<Rightarrow> (d\<lparr>df_outbox := rest\<rparr>, PollReady out)
            | [] \<Rightarrow> (d, PollPending)))"

text \<open>The behaviour as an instance of the trait \<open>ProtocolBehaviour\<close>; the other notifications are ignored.\<close>

definition diffusion_ops ::
  "'t encoders \<Rightarrow> (modifier_type \<Rightarrow> serialized_modifier \<Rightarrow> ('t, 'cert) modifier option)
   \<Rightarrow> (('pid, 'addr, 't, 'cert) diffusion, 'pid, 'addr, diffusion_handshake, diffusion_message,
       (history \<times> (nat \<times> progress) list) list) behaviour_ops" where
  "diffusion_ops e dec =
     \<lparr>beh_peer_connected = (\<lambda>d _. Inr d),
      beh_message = (\<lambda>d p m. Inr (df_inject_message e dec d p m)),
      beh_requested = (\<lambda>d p h. Inr (df_protocol_requested d p h)),
      beh_requested_locally = (\<lambda>d p. Inr (df_protocol_requested_locally d p)),
      beh_enabled = (\<lambda>d _ _. Inr d),
      beh_disabled = (\<lambda>d _. Inr d),
      beh_poll = df_poll\<rparr>"

end
