(* ===== verification/Diffusion_Correct.thy ===== *)
theory Diffusion_Correct
  imports Diffusion Ledger_Correct
begin

text \<open>
  Correctness of chain synchronisation: the comparison of two chains that share a prefix, what a
  peer that is behind is told, that the behaviour run by the protocol handler neither panics nor bans
  honest peers as long as no task times out, and the inputs on which it does panic.
\<close>

section \<open>Chains\<close>

text \<open>A chain is a list of blocks with their slots, oldest first. The history of a node that has it.\<close>

definition chain_history :: "(block_id \<times> slot_no) list \<Rightarrow> history \<Rightarrow> bool" where
  "chain_history lc h \<longleftrightarrow>
     lc \<noteq> [] \<and> (\<forall>b. hist_member h b \<longleftrightarrow> b \<in> fst ` set lc) \<and>
     hist_tip h = (modifier_of_block (fst (last lc)), snd (last lc)) \<and>
     (\<forall>n. hist_tail h n = map (\<lambda>(b, s). (modifier_of_block b, s)) (drop (length lc - n) lc)) \<and>
     (\<forall>pre b s post cap. lc = pre @ (b, s) # post \<longrightarrow> hist_follow h b cap = map fst (take cap post))"

text \<open>The status a node with chain \<open>rc\<close> sends.\<close>

definition chain_status :: "(block_id \<times> slot_no) list \<Rightarrow> sync_status" where
  "chain_status rc =
     \<lparr>ss_height = snd (last rc), ss_last_blocks = rev (map fst (drop (length rc - SYNC_HEADERS) rc))\<rparr>"

lemma local_status_chain: "chain_history lc h \<Longrightarrow> local_status h h = chain_status lc"
proof -
  assume h: "chain_history lc h"
  have ne: "lc \<noteq> []" using h by (simp add: chain_history_def)
  then have j: "length lc - SYNC_HEADERS < length lc" by (cases lc) (auto simp: SYNC_HEADERS_def)
  then have "last (map (\<lambda>(b, s). (modifier_of_block b, s)) (drop (length lc - SYNC_HEADERS) lc)) =
      (modifier_of_block (fst (last lc)), snd (last lc))"
    using ne by (simp add: last_map last_drop case_prod_beta)
  then show ?thesis
    using h by (auto simp: local_status_def chain_status_def chain_history_def case_prod_beta rev_map comp_def)
qed

text \<open>Two chains with a common prefix and nothing else in common; blocks occur once.\<close>

definition forked :: "(block_id \<times> slot_no) list \<Rightarrow> (block_id \<times> slot_no) list \<Rightarrow> (block_id \<times> slot_no) list \<Rightarrow> bool" where
  "forked pre ls rs \<longleftrightarrow>
     pre \<noteq> [] \<and> distinct (map fst (pre @ ls @ rs)) \<and> sorted_wrt (<) (map snd (pre @ rs)) \<and>
     length rs < SYNC_HEADERS"

lemma fork_tail:
  assumes "forked pre ls rs"
  obtains us where "ss_last_blocks (chain_status (pre @ rs)) = rev (map fst rs) @ fst (last pre) # us"
    "set us \<subseteq> fst ` set pre"
proof -
  let ?j = "length pre + length rs - SYNC_HEADERS"
  have "?j < length pre" using assms by (cases pre) (auto simp: forked_def)
  then have d: "drop (length (pre @ rs) - SYNC_HEADERS) (pre @ rs) = drop ?j pre @ rs" "drop ?j pre \<noteq> []"
    by simp_all
  then obtain zs where zs: "drop ?j pre = zs @ [last pre]"
    by (metis append_butlast_last_id last_drop drop_eq_Nil linorder_not_less)
  then have "set (rev (map fst zs)) \<subseteq> fst ` set pre"
    using set_drop_subset [of ?j pre] by auto
  moreover have "ss_last_blocks (chain_status (pre @ rs)) = rev (map fst rs) @ fst (last pre) # rev (map fst zs)"
    unfolding chain_status_def d(1) zs by simp
  ultimately show thesis using that by blast
qed

lemma common_point_append:
  "common_point h (xs @ ys) = (case common_point h xs of Some b \<Rightarrow> Some b | None \<Rightarrow> common_point h ys)"
  by (induction xs) simp_all

lemma common_point_None: "common_point h xs = None \<longleftrightarrow> (\<forall>b \<in> set xs. \<not> hist_member h b)"
  by (induction xs) simp_all

lemma find_same: "find (\<lambda>x. x = a) xs = (if a \<in> set xs then Some a else None)"
  by (induction xs) auto

lemma compare_tail:
  assumes "ss_last_blocks st = T" "T \<noteq> []" "ss_height st - snd (hist_tip h) \<le> length T"
  shows "compare_remote h st =
    (if block_of_modifier (fst (hist_tip h)) \<in> set T
     then if snd (hist_tip h) \<le> ss_height st
          then if block_of_modifier (fst (hist_tip h)) = hd T then RcEqual
               else RcLonger (Some (rev (takeWhile (\<lambda>b. b \<noteq> block_of_modifier (fst (hist_tip h))) T)))
          else RcNonsense
     else (case common_point h T of
             Some c \<Rightarrow> if c = hd T then RcShorter c else RcFork (Some c)
           | None \<Rightarrow> RcFork None))"
  using assms by (cases T) (simp_all add: compare_remote_def Let_def find_same cong: option.case_cong del: find.simps)

lemma compare_forked:
  assumes "chain_history (pre @ ls) h" "forked pre ls rs"
    and "snd (last (pre @ rs)) - snd (last (pre @ ls)) \<le> length (ss_last_blocks (chain_status (pre @ rs)))"
  shows "compare_remote h (chain_status (pre @ rs)) =
    (if ls = [] then if rs = [] then RcEqual else RcLonger (Some (map fst rs))
     else if rs = [] then RcShorter (fst (last pre)) else RcFork (Some (fst (last pre))))"
proof -
  obtain us where T: "ss_last_blocks (chain_status (pre @ rs)) = rev (map fst rs) @ fst (last pre) # us"
    "set us \<subseteq> fst ` set pre" by (rule fork_tail [OF assms(2)])
  let ?T = "rev (map fst rs) @ fst (last pre) # us"
  have pre: "pre \<noteq> []" "fst (last pre) \<in> fst ` set pre" using assms(2) by (auto simp: forked_def)
  have disj: "fst ` set pre \<inter> fst ` set ls = {}" "fst ` set pre \<inter> fst ` set rs = {}" "fst ` set ls \<inter> fst ` set rs = {}"
    using assms(2) by (auto simp: forked_def)
  have tip: "block_of_modifier (fst (hist_tip h)) = fst (last (pre @ ls))" "snd (hist_tip h) = snd (last (pre @ ls))"
    using assms(1) by (simp_all add: chain_history_def)
  have mem: "hist_member h b \<longleftrightarrow> b \<in> fst ` set (pre @ ls)" for b
    using assms(1) by (simp add: chain_history_def)
  have height: "ss_height (chain_status (pre @ rs)) = snd (last (pre @ rs))" by (simp add: chain_status_def)
  note cmp = compare_tail [OF T(1), of h, unfolded tip height, simplified, OF assms(3) [unfolded T(1), simplified]]
  show ?thesis
  proof (cases "ls = []")
    case True
    have hgt: "snd (last pre) \<le> snd (last (pre @ rs))"
      using assms(2) pre(1) last_in_set [of pre] last_in_set [of rs]
      by (cases "rs = []") (auto simp: forked_def sorted_wrt_append less_imp_le)
    have "fst (last pre) \<notin> fst ` set rs" using pre(2) disj(2) by blast
    then have tw: "takeWhile (\<lambda>b. b \<noteq> fst (last pre)) ?T = rev (map fst rs)"
      by (subst takeWhile_append2) (auto simp: image_iff)
    have hd: "hd ?T = (if rs = [] then fst (last pre) else fst (last rs))"
      by (simp add: hd_append hd_rev last_map)
    have "rs \<noteq> [] \<Longrightarrow> fst (last pre) \<noteq> fst (last rs)" using pre(2) disj(2) by (metis IntI empty_iff imageI last_in_set)
    then show ?thesis using cmp True hgt tw hd by auto
  next
    case False
    have "fst (last ls) \<in> fst ` set ls" using False by simp
    then have "fst (last ls) \<notin> fst ` set pre" "fst (last ls) \<notin> fst ` set rs" using disj by blast+
    then have "fst (last ls) \<notin> set ?T" using T(2) pre(2) by (metis Un_iff list.set_map set_ConsD set_append set_rev subsetD)
    moreover have "common_point h ?T = Some (fst (last pre))"
    proof -
      have "common_point h (rev (map fst rs)) = None" using disj mem by (auto simp: common_point_None)
      then show ?thesis using pre(2) mem by (simp add: common_point_append image_Un)
    qed
    moreover have "hd ?T = (if rs = [] then fst (last pre) else fst (last rs))"
      by (simp add: hd_append hd_rev last_map)
    moreover have "rs \<noteq> [] \<Longrightarrow> fst (last pre) \<noteq> fst (last rs)" using pre(2) disj(2) by (metis IntI empty_iff imageI last_in_set)
    ultimately show ?thesis using cmp False by auto
  qed
qed

lemma follow_branch:
  assumes "chain_history (pre @ ls) h" "pre \<noteq> []"
  shows "hist_follow h (fst (last pre)) cap = map fst (take cap ls)"
proof -
  have "pre @ ls = butlast pre @ (fst (last pre), snd (last pre)) # ls"
    using assms(2) by (metis append.assoc append_Cons append_Nil append_butlast_last_id prod.collapse)
  then show ?thesis using assms(1) unfolding chain_history_def by blast
qed

text \<open>What the peer is sent in reply.\<close>

definition sync_reply :: "nat \<Rightarrow> 'pid \<Rightarrow> (block_id \<times> slot_no) list \<Rightarrow> (block_id \<times> slot_no) list
   \<Rightarrow> ('pid, 'addr) diffusion_task_message list" where
  "sync_reply max_inv_size p ls rs =
     (if ls \<noteq> [] then [send_to p (Inv BlockHeaderType (map (\<lambda>b. modifier_of_block (fst b)) (take max_inv_size ls)))]
      else if rs \<noteq> [] then [send_to p (RequestModifiers BlockHeaderType (map (\<lambda>b. modifier_of_block (fst b)) rs))]
      else [])"

lemma sync_task_reply:
  assumes "chain_history (pre @ ls) h" "forked pre ls rs"
    and "snd (last (pre @ rs)) - snd (last (pre @ ls)) \<le> length (ss_last_blocks (chain_status (pre @ rs)))"
  shows "run_task DIFFUSION_BUFFER_SIZE h n 4 (sync_task max_inv_size p (chain_status (pre @ rs)) False, [], pool) =
    Inr (TaskDone, ToBehaviour (UpdatePeer p (remote_state h (chain_status (pre @ rs)))) # sync_reply max_inv_size p ls rs, pool)"
proof -
  have "pre \<noteq> []" using assms(2) by (simp add: forked_def)
  note follow = follow_branch [OF assms(1) this]
  show ?thesis
    using compare_forked [OF assms]
    by (auto simp: eval_nat_numeral task_step_def sync_task_def Let_def remote_state_def answer_sync_def
        sync_reply_def extension_def follow DIFFUSION_BUFFER_SIZE_def comp_def)
qed

section \<open>Safety of the behaviour\<close>

fun asks_status :: "('pid, 'addr) diffusion_task_message \<Rightarrow> nat option" where
  "asks_status (ToBehaviour (GetModifierStatus mid n)) = Some n"
| "asks_status _ = None"

definition bans_faulty :: "'pid set \<Rightarrow> ('pid, 'addr) diffusion_task_message \<Rightarrow> bool" where
  "bans_faulty faulty m \<longleftrightarrow> (\<forall>p. m = ToHandler (NetworkAction (BanPeer p)) \<longrightarrow> p \<in> faulty)"

text \<open>
  Messages the behaviour can handle: requests for transactions and block bodies, whose identifier
  is not implemented, are excluded, and honest peers send modifiers that decode.
\<close>

fun ok_diffusion_message ::
  "'t encoders \<Rightarrow> (modifier_type \<Rightarrow> serialized_modifier \<Rightarrow> ('t, 'cert) modifier option) \<Rightarrow> 'pid set
   \<Rightarrow> 'pid \<Rightarrow> diffusion_message \<Rightarrow> bool" where
  "ok_diffusion_message e dec faulty p (RequestModifiers t ms) \<longleftrightarrow> t \<noteq> TransactionType"
| "ok_diffusion_message e dec faulty p (Modifiers t ms) \<longleftrightarrow>
     (\<forall>m \<in> set ms. case dec t m of Some md \<Rightarrow> (\<exists>mid. mod_id e md = Inr mid) | None \<Rightarrow> p \<in> faulty)"
| "ok_diffusion_message e dec faulty p _ \<longleftrightarrow> True"

definition diffusion_inv :: "'pid set \<Rightarrow> ('pid, 'addr, 't, 'cert) diffusion \<Rightarrow> bool" where
  "diffusion_inv faulty d \<longleftrightarrow>
     pool_ok (bans_faulty faulty) (\<lambda>_. True) DIFFUSION_BUFFER_SIZE (df_tasks d) (df_from_tasks d) \<and>
     pool_addressed asks_status (df_tasks d) (df_from_tasks d) \<and>
     list_all (\<lambda>out. bans_faulty faulty (ToHandler out)) (df_outbox d)"

definition good_task :: "'pid set \<Rightarrow> ('pid, 'addr, 't, 'cert) diffusion_task \<Rightarrow> bool" where
  "good_task faulty t \<longleftrightarrow> task_all (bans_faulty faulty) (\<lambda>_. True) t \<and> task_asks asks_status t"

lemma spawn_task_inv: "diffusion_inv faulty d \<Longrightarrow> good_task faulty t \<Longrightarrow> diffusion_inv faulty (spawn_task d t)"
  by (simp add: diffusion_inv_def spawn_task_def good_task_def spawn_ok spawn_addressed)

named_theorems good_tasks \<open>tasks that are well behaved\<close>

lemma good_task_simps [simp]:
  "good_task faulty TaskDone"
  "good_task faulty (TaskSend m t) \<longleftrightarrow> bans_faulty faulty m \<and> asks_status m = None \<and> good_task faulty t"
  "good_task faulty (TaskRead cont) \<longleftrightarrow> (\<forall>h. good_task faulty (cont h))"
  "good_task faulty (TaskCall md t) \<longleftrightarrow> good_task faulty t"
  "good_task faulty (TaskAsk (\<lambda>n. ToBehaviour (GetModifierStatus mid n)) k) \<longleftrightarrow> (\<forall>r. good_task faulty (k r))"
  by (auto simp: good_task_def bans_faulty_def)

lemma bans_faulty_simps [simp]:
  "bans_faulty faulty (ToBehaviour i)" "bans_faulty faulty (send_to p m)"
  "bans_faulty faulty (ToHandler (Send p m))"
  "bans_faulty faulty (ToHandler (NetworkAction (EnablePeer p hs)))"
  "bans_faulty faulty (ToHandler (NetworkAction (BanPeer p))) \<longleftrightarrow> p \<in> faulty"
  "asks_status (send_to p m) = None"
  by (auto simp: bans_faulty_def send_to_def)

lemma enable_peer_good [good_tasks]: "good_task faulty t \<Longrightarrow> good_task faulty (enable_peer p t)"
  by (simp add: enable_peer_def)

lemma answer_sync_good [good_tasks]: "good_task faulty (answer_sync n p initial cmp)"
  by (auto simp: answer_sync_def with_local_status_def Let_def split: remote_chain_cmp.split option.split)

lemma sync_task_good [good_tasks]: "good_task faulty (sync_task n p st initial)"
  by (simp add: sync_task_def Let_def good_tasks)

lemma modifiers_request_good [good_tasks]:
  "t \<noteq> TransactionType \<Longrightarrow> good_task faulty (modifiers_request_task p t ms)"
  by (cases t) (simp_all add: modifiers_request_task_def)

lemma apply_modifiers_good [good_tasks]: "good_task faulty (apply_modifiers mds)"
  by (induction mds) simp_all

lemma modifiers_task_good [good_tasks]:
  "ok_diffusion_message e dec faulty p (Modifiers t ms) \<Longrightarrow> good_task faulty (modifiers_task e dec p t ms mds)"
  by (induction ms arbitrary: mds) (auto simp: good_tasks split: option.splits sum.splits)

lemma select_wanted_good:
  "(\<And>ws. good_task faulty (k ws)) \<Longrightarrow> good_task faulty (select_wanted ms ws k)"
  by (induction ms arbitrary: ws) (simp_all add: Let_def)

lemma inv_task_good [good_tasks]: "good_task faulty (inv_task p t ms)"
  unfolding inv_task_def by (rule select_wanted_good) simp

lemma df_inject_message_inv:
  assumes "diffusion_inv faulty d" "ok_diffusion_message e dec faulty p m"
  shows "diffusion_inv faulty (df_inject_message e dec d p m)"
proof (cases m)
  case (RequestModifiers t ms)
  then show ?thesis using assms
    by (auto simp: on_modifiers_request_def intro!: spawn_task_inv modifiers_request_good)
next
  case (Modifiers t ms)
  then show ?thesis using assms
    by (auto simp: on_modifiers_def intro!: spawn_task_inv modifiers_task_good)
qed (use assms in \<open>auto simp: on_sync_def intro!: spawn_task_inv good_tasks\<close>)

lemma on_event_inv:
  assumes "diffusion_inv faulty (d\<lparr>df_from_tasks := ToBehaviour i # rest\<rparr>)" "df_from_tasks d = rest"
  obtains d' where "df_on_event i d = Inr d'" "diffusion_inv faulty d'" "df_from_tasks d' = rest"
proof -
  have rest: "pool_addressed asks_status (df_tasks d) rest"
    "pool_ok (bans_faulty faulty) (\<lambda>_. True) DIFFUSION_BUFFER_SIZE (df_tasks d) rest"
    using assms(1) consume_addressed by (auto simp: diffusion_inv_def pool_ok_def)
  show thesis
  proof (cases i)
    case (GetModifierStatus mid n)
    have "pool_addressed asks_status (df_tasks d) (ToBehaviour i # rest)"
      using assms(1) by (simp add: diffusion_inv_def)
    then obtain p' where p': "answer (df_tasks d) n (status_of (df_delivery d) mid) = Inr p'"
      "pool_addressed asks_status p' rest"
      by (rule answer_addressed [of _ _ _ _ n]) (simp add: GetModifierStatus)
    then have "pool_ok (bans_faulty faulty) (\<lambda>_. True) DIFFUSION_BUFFER_SIZE p' rest"
      using rest(2) by (auto simp: answer_def pool_ok_def split: if_splits)
    then show thesis
      using that [of "d\<lparr>df_tasks := p'\<rparr>"] p' assms GetModifierStatus by (simp add: diffusion_inv_def)
  qed (use that rest assms in \<open>auto simp: diffusion_inv_def\<close>)
qed

lemma consume_inv:
  "diffusion_inv faulty (d\<lparr>df_from_tasks := m # chan\<rparr>) \<Longrightarrow>
   diffusion_inv faulty (d\<lparr>df_from_tasks := chan\<rparr>) \<and> bans_faulty faulty m"
  using consume_addressed by (auto simp: diffusion_inv_def pool_ok_def)

lemma df_drain_inv:
  "diffusion_inv faulty (d\<lparr>df_from_tasks := chan\<rparr>) \<Longrightarrow> \<exists>d'. df_drain chan d = Inr d' \<and> diffusion_inv faulty d'"
proof (induction chan arbitrary: d)
  case (Cons m chan)
  show ?case
  proof (cases m)
    case (ToBehaviour i)
    then have "diffusion_inv faulty ((d\<lparr>df_from_tasks := chan\<rparr>)\<lparr>df_from_tasks := ToBehaviour i # chan\<rparr>)"
      using Cons.prems by simp
    then obtain d' where d': "df_on_event i (d\<lparr>df_from_tasks := chan\<rparr>) = Inr d'" "diffusion_inv faulty d'"
      "df_from_tasks d' = chan" by (rule on_event_inv) simp_all
    then have "d'\<lparr>df_from_tasks := chan\<rparr> = d'" by simp
    then have "diffusion_inv faulty (d'\<lparr>df_from_tasks := chan\<rparr>)" using d'(2) by metis
    then show ?thesis using Cons.IH [of d'] d'(1) ToBehaviour by simp
  next
    case (ToHandler out)
    then show ?thesis using Cons.prems consume_inv [of faulty m chan d]
      by (auto simp: diffusion_inv_def)
  qed
qed simp

text \<open>Schedules in which no task times out.\<close>

definition no_timeouts :: "(history \<times> (nat \<times> progress) list) list \<Rightarrow> bool" where
  "no_timeouts is \<longleftrightarrow> (\<forall>(h, ready) \<in> set is. \<forall>(n, g) \<in> set ready. g \<noteq> TimedOut)"

lemma df_loop_inv:
  "diffusion_inv faulty d \<Longrightarrow> no_timeouts is \<Longrightarrow> \<exists>d'. df_loop is d = Inr d' \<and> diffusion_inv faulty d'"
proof (induction "is" arbitrary: d)
  case Nil
  then show ?case using df_drain_inv [of faulty "df_from_tasks d" d] by simp
next
  case (Cons hr "is")
  obtain h ready where hr: "hr = (h, ready)" by (cases hr)
  let ?d = "\<lambda>p chan. d\<lparr>df_tasks := p, df_from_tasks := chan\<rparr>"
  have nt: "\<forall>(n, g) \<in> set ready. g \<noteq> TimedOut" "no_timeouts is"
    using Cons.prems(2) hr by (auto simp: no_timeouts_def)
  obtain p chan where p: "pool_poll_next DIFFUSION_BUFFER_SIZE h ready (df_tasks d, df_from_tasks d) = Inr (p, chan)"
    "diffusion_inv faulty (?d p chan)"
    using pool_poll_next_ok [of "bans_faulty faulty" "\<lambda>_. True" DIFFUSION_BUFFER_SIZE "df_tasks d" "df_from_tasks d" h ready]
      pool_poll_next_addressed [OF _ nt(1), of asks_status "df_tasks d" "df_from_tasks d" DIFFUSION_BUFFER_SIZE h] Cons.prems(1)
    by (auto simp: diffusion_inv_def)
  show ?case
  proof (cases chan)
    case Nil
    then show ?thesis using p hr by simp
  next
    case chan: (Cons m rest)
    have rest: "diffusion_inv faulty (?d p rest)" "bans_faulty faulty m"
      using consume_inv [of faulty m rest "d\<lparr>df_tasks := p\<rparr>"] p(2) chan by simp_all
    show ?thesis
    proof (cases m)
      case (ToBehaviour i)
      have "diffusion_inv faulty ((?d p rest)\<lparr>df_from_tasks := ToBehaviour i # rest\<rparr>)"
        using p(2) chan ToBehaviour by simp
      then obtain d' where "df_on_event i (?d p rest) = Inr d'" "diffusion_inv faulty d'"
        by (rule on_event_inv) simp_all
      then show ?thesis using Cons.IH [of d'] nt(2) p(1) hr chan ToBehaviour by simp
    next
      case (ToHandler out)
      then show ?thesis using rest p(1) hr chan by (simp add: diffusion_inv_def)
    qed
  qed
qed

lemma df_poll_ok:
  assumes "diffusion_inv faulty d" "no_timeouts is"
  shows "\<exists>d' r. df_poll is d = Inr (d', r) \<and> diffusion_inv faulty d' \<and>
    (\<forall>p. r = PollReady (NetworkAction (BanPeer p)) \<longrightarrow> p \<in> faulty)"
proof -
  obtain d' where "df_loop is d = Inr d'" "diffusion_inv faulty d'"
    using df_loop_inv [OF assms] by blast
  then show ?thesis
    by (cases "df_outbox d'") (auto simp: df_poll_def diffusion_inv_def)
qed

lemma protocol_requested_inv:
  assumes "diffusion_inv faulty d"
  shows "diffusion_inv faulty (df_protocol_requested d p hs)"
    and "diffusion_inv faulty (df_protocol_requested_locally d p)"
  using assms
  by (auto simp: df_protocol_requested_def df_protocol_requested_locally_def on_sync_def
      split: option.split diffusion_handshake.split intro!: spawn_task_inv good_tasks)

interpretation sync_behaviour: protocol_behaviour
  "diffusion_ops e dec" "diffusion_inv faulty" "ok_diffusion_message e dec faulty" no_timeouts faulty
  for e dec faulty
  by unfold_locales
    (simp_all add: diffusion_ops_def df_inject_message_inv df_poll_ok protocol_requested_inv)

lemma new_diffusion_inv: "diffusion_inv faulty (new_diffusion n)"
  by (simp add: diffusion_inv_def new_diffusion_def new_pool_ok new_pool_addressed)

lemma map_of_append_fresh: "n \<notin> fst ` set xs \<Longrightarrow> ([n \<mapsto> t] ++ map_of xs) n = Some t"
  using map_of_eq_None_iff [of xs n] by (simp add: map_add_def)

lemma answer_dropped: "answer (drop_task p n) n r = Inl UnwrapNone"
  by (auto simp: answer_def drop_task_def)

section \<open>Properties\<close>

text \<open>C18. Run by the protocol handler, the behaviour never panics and never has an honest peer banned,
  whatever faulty peers send that it can handle and however the tasks are scheduled, provided no task
  times out.\<close>

theorem diffusion_handler_safe:
  assumes "list_all (\<lambda>(evs, is). list_all (ok_event cdc (ok_diffusion_message e dec faulty) faulty) evs \<and>
      list_all no_timeouts is) rounds"
  shows "\<exists>h'. handler_run dbg (diffusion_ops e dec) cdc rounds
      (new_protocol_handler (new_diffusion n) protocol sinks) = Inr h' \<and> diffusion_inv faulty (ph_behaviour h') \<and>
    (\<forall>p. BanPeerReq p \<in> set (ph_network h') \<longrightarrow> p \<in> faulty)"
  using sync_behaviour.run_safe [OF _ _ _ assms, of "new_protocol_handler (new_diffusion n) protocol sinks" dbg]
  by (simp add: new_protocol_handler_def new_diffusion_inv bans_only_def)


text \<open>A request for transactions makes the node panic: the task it spawns reaches a \<open>todo!\<close>, which
  unwinds through the pool into the poll of the behaviour.\<close>

theorem transaction_request_panics:
  assumes "pool_next (df_tasks d) \<notin> fst ` set (pool_tasks (df_tasks d))"
  shows "df_poll [(h, [(pool_next (df_tasks d), Progress 2)])]
      (df_inject_message e dec d p (RequestModifiers TransactionType ms)) = Inl NotImplemented"
  using assms
  by (simp add: df_poll_def on_modifiers_request_def spawn_task_def spawn_def map_of_append_fresh
      modifiers_request_task_def eval_nat_numeral task_step_def)

text \<open>When the task that handles an inventory times out after it asked for the status of a modifier, the
  behaviour panics on answering it.\<close>

theorem late_status_reply_panics:
  assumes "pool_next (df_tasks d) \<notin> fst ` set (pool_tasks (df_tasks d))" "df_from_tasks d = []"
  shows "df_poll [(h, [(pool_next (df_tasks d), Progress 1), (pool_next (df_tasks d), TimedOut)])]
      (df_inject_message e dec d p (Inv t (mid # ms))) = Inl UnwrapNone"
  using assms
  by (simp add: df_poll_def spawn_task_def spawn_def map_of_append_fresh inv_task_def Let_def eval_nat_numeral
      task_step_def set_task_def answer_dropped DIFFUSION_BUFFER_SIZE_def)

text \<open>A node whose history is a chain.\<close>

definition history_of :: "(block_id \<times> slot_no) list \<Rightarrow> history" where
  "history_of lc =
     \<lparr>hist_member = (\<lambda>b. b \<in> fst ` set lc), hist_contains = (\<lambda>m. block_of_modifier m \<in> fst ` set lc),
      hist_tip = (modifier_of_block (fst (last lc)), snd (last lc)),
      hist_tail = (\<lambda>n. map (\<lambda>(b, s). (modifier_of_block b, s)) (drop (length lc - n) lc)),
      hist_follow = (\<lambda>b cap. map fst (take cap (tl (dropWhile (\<lambda>(c, _). c \<noteq> b) lc)))),
      hist_multi_get_raw = (\<lambda>_ _. [])\<rparr>"

lemma chain_history_of: "lc \<noteq> [] \<Longrightarrow> distinct (map fst lc) \<Longrightarrow> chain_history lc (history_of lc)"
proof -
  assume lc: "lc \<noteq> []" "distinct (map fst lc)"
  have "tl (dropWhile (\<lambda>(c, _). c \<noteq> b) lc) = post" if "lc = pre @ (b, s) # post" for pre b s post
  proof -
    have "\<forall>x \<in> set pre. (\<lambda>(c, _). c \<noteq> b) x" using lc(2) that by force
    then show ?thesis using that by (simp add: dropWhile_append2)
  qed
  then show ?thesis using lc by (simp add: chain_history_def history_of_def)
qed

definition demo_block :: "8 word \<Rightarrow> block_id" where
  "demo_block w = BlockId (Digest [w])"

definition demo_codec :: "(diffusion_handshake, diffusion_message) codec" where
  "demo_codec =
     \<lparr>enc_msg = (\<lambda>_. []), dec_msg = (\<lambda>raw. if raw = [] then None else Some (Inv BlockHeaderType [ModifierId (Digest raw)])),
      msg_version = diffusion_message_version, enc_hs = (\<lambda>_. []), dec_hs = (\<lambda>_. None),
      hs_version = diffusion_handshake_version\<rparr>"

definition demo_rounds ::
  "(nat protocol_event list \<times> (history \<times> (nat \<times> progress) list) list list) list" where
  "demo_rounds =
     [([EvMessage 1 1 [0], EvMessage 2 1 []], [[], []]),
      ([EvDisabled 1], [[(history_of [(demo_block 1, 1)], [(0, Progress 3)])]])]"

theorem diffusion_handler_safe_witness:
  "\<exists>h' :: ((nat, unit, unit, unit) diffusion, nat, unit) protocol_handler.
     handler_run False (diffusion_ops demo_encoders (\<lambda>_ _. None)) demo_codec demo_rounds
       (new_protocol_handler (new_diffusion 10) 2 (\<lambda>_. \<lparr>sink_queue = [], sink_capacity = 100, sink_disconnected = False, sink_sender = True\<rparr>)) = Inr h' \<and> diffusion_inv {2} (ph_behaviour h') \<and>
     (\<forall>p. BanPeerReq p \<in> set (ph_network h') \<longrightarrow> p \<in> {2})"
  by (rule diffusion_handler_safe)
    (simp add: demo_rounds_def demo_codec_def no_timeouts_def diffusion_v1_def)


theorem transaction_request_panics_witness:
  "df_poll [(history_of [(demo_block 1, 1)], [(0, Progress 2)])]
     (df_inject_message demo_encoders (\<lambda>_ _. None) (new_diffusion 10 :: (nat, unit, unit, unit) diffusion) 7
        (RequestModifiers TransactionType [])) = Inl NotImplemented"
  using transaction_request_panics [of "new_diffusion 10 :: (nat, unit, unit, unit) diffusion"]
  by (simp add: new_diffusion_def new_pool_def)

theorem late_status_reply_panics_witness:
  "df_poll [(history_of [(demo_block 1, 1)], [(0, Progress 1), (0, TimedOut)])]
     (df_inject_message demo_encoders (\<lambda>_ _. None) (new_diffusion 10 :: (nat, unit, unit, unit) diffusion) 7
        (Inv BlockHeaderType [ModifierId zero_digest])) = Inl UnwrapNone"
  using late_status_reply_panics [of "new_diffusion 10 :: (nat, unit, unit, unit) diffusion"]
  by (simp add: new_diffusion_def new_pool_def)

end
