(* ===== verification/Versioned_Store.thy ===== *)
theory Versioned_Store
  imports Prelude "HOL-Library.AList"
begin

text \<open>
  The versioned key-value store (\<open>spectrum-view/src/versioned_avl_storage/versioned_storage.rs\<close>): a
  database with an undo log, so that the values of an earlier version can be restored. The three
  families of keys of the database have different prefixes, which keeps them apart, and undo keys
  sort by serial number, which is written in big endian: the model has a component for each family,
  the log sorted as the database iterates over it. Operations are transactions: they read the
  committed state and build a new one. Serialisation of keys, values and versions is a parameter.
\<close>

section \<open>Undo records\<close>

record 't undo =
  undo_version :: 't
  undo_key :: bytes
  undo_value :: bytes

text \<open>\<open>Into<Vec<u8>>\<close> and \<open>TryFrom<Vec<u8>>\<close> of versions; keys (with their prefix) and values as bytes.\<close>

record ('t, 'k, 'v) store_codec =
  ver_bytes :: "'t \<Rightarrow> bytes"
  ver_of_bytes :: "bytes \<Rightarrow> 't option"
  ser_key :: "'k \<Rightarrow> bytes"
  ser_val :: "'v \<Rightarrow> bytes"
  de_val :: "bytes \<Rightarrow> 'v option"

definition res_assert :: "bool \<Rightarrow> unit res" where
  "res_assert b = (if b then Inr () else Inl AssertFailed)"

definition undo_to_bytes :: "('t, 'k, 'v) store_codec \<Rightarrow> 't undo \<Rightarrow> bytes res" where
  "undo_to_bytes c undo =
     (let version_bytes = ver_bytes c (undo_version undo);
          version_size = length version_bytes; key_size = length (undo_key undo);
          value_size = length (undo_value undo)
      in res_bind (res_assert (version_size \<le> 255)) (\<lambda>_.
         res_bind (res_assert (key_size \<le> 255)) (\<lambda>_.
         res_bind (res_assert (value_size > 0)) (\<lambda>_.
           Inr ([of_nat version_size, of_nat key_size] @ version_bytes @ undo_key undo @ undo_value undo)))))"

text \<open>A slice \<open>bytes[a..b]\<close>.\<close>

definition slice :: "'a list \<Rightarrow> nat \<Rightarrow> nat \<Rightarrow> 'a list res" where
  "slice xs a b = (if a \<le> b \<and> b \<le> length xs then Inr (take (b - a) (drop a xs)) else Inl IndexOutOfBounds)"

definition undo_of_bytes :: "('t, 'k, 'v) store_codec \<Rightarrow> bytes \<Rightarrow> 't undo res" where
  "undo_of_bytes c bytes =
     res_bind (index bytes 0) (\<lambda>b0.
     res_bind (index bytes 1) (\<lambda>b1.
       let version_size = unat b0; key_size = unat b1
       in res_bind (checked_sub (length bytes) version_size) (\<lambda>n.
          res_bind (checked_sub n key_size) (\<lambda>n.
          res_bind (checked_sub n 2) (\<lambda>value_size.
          res_bind (res_assert (value_size > 0)) (\<lambda>_.
          res_bind (slice bytes 2 (2 + version_size)) (\<lambda>version_id_bytes.
          res_bind (unwrap (ver_of_bytes c version_id_bytes)) (\<lambda>version_id.
          res_bind (slice bytes (2 + version_size) (2 + version_size + key_size)) (\<lambda>key.
          res_bind (slice bytes (2 + version_size + key_size) (length bytes)) (\<lambda>value.
            Inr \<lparr>undo_version = version_id, undo_key = key, undo_value = value\<rparr>))))))))))"

section \<open>The database\<close>

text \<open>Logical serial numbers are \<open>u32\<close>.\<close>

definition lsn_succ :: "nat \<Rightarrow> nat res" where
  "lsn_succ n = (if n + 1 < 2 ^ 32 then Inr (n + 1) else Inl ArithOverflow)"

record 't version_id_boundaries =
  bd_version :: 't
  bd_first :: nat
  bd_last :: nat

record 't versioned_store =
  vs_data :: "(bytes \<times> bytes) list"
  vs_undo :: "(nat \<times> bytes) list"
  vs_boundaries :: "'t version_id_boundaries list"
  vs_num_versions :: nat

text \<open>Opening the database \<open>db\<close>; the boundaries are written anew.\<close>

definition new_store :: "'t versioned_store \<Rightarrow> nat \<Rightarrow> 't versioned_store" where
  "new_store db num_versions_to_store =
     db\<lparr>vs_boundaries := [], vs_num_versions := num_versions_to_store\<rparr>"

definition fresh_db :: "'t versioned_store" where
  "fresh_db = \<lparr>vs_data = [], vs_undo = [], vs_boundaries = [], vs_num_versions = 0\<rparr>"

fun put_undo :: "nat \<Rightarrow> bytes \<Rightarrow> (nat \<times> bytes) list \<Rightarrow> (nat \<times> bytes) list" where
  "put_undo n b [] = [(n, b)]"
| "put_undo n b ((m, d) # us) =
     (if n < m then (n, b) # (m, d) # us else if n = m then (n, b) # us else (m, d) # put_undo n b us)"

definition delete_undo :: "nat \<Rightarrow> (nat \<times> bytes) list \<Rightarrow> (nat \<times> bytes) list" where
  "delete_undo n us = filter (\<lambda>(m, _). m \<noteq> n) us"

definition get_last_lsn :: "'t versioned_store \<Rightarrow> nat" where
  "get_last_lsn s = (if vs_undo s = [] then 0 else fst (last (vs_undo s)))"

section \<open>Update\<close>

text \<open>The state of a transaction: last serial number, data and log to commit.\<close>

type_synonym store_tx = "nat \<times> (bytes \<times> bytes) list \<times> (nat \<times> bytes) list"

definition log_undo ::
  "('t, 'k, 'v) store_codec \<Rightarrow> 't \<Rightarrow> bytes \<Rightarrow> bytes \<Rightarrow> store_tx \<Rightarrow> store_tx res" where
  "log_undo c version_id key_bytes old_value_bytes tx =
     (case tx of (lsn, kvs, undos) \<Rightarrow>
        res_bind (lsn_succ lsn) (\<lambda>last_lsn.
        res_bind (undo_to_bytes c
          \<lparr>undo_version = version_id, undo_key = key_bytes, undo_value = old_value_bytes\<rparr>) (\<lambda>undo_bytes.
          Inr (last_lsn, kvs, put_undo last_lsn undo_bytes undos))))"

definition remove_key ::
  "('t, 'k, 'v) store_codec \<Rightarrow> 't versioned_store \<Rightarrow> 't \<Rightarrow> store_tx \<Rightarrow> 'k \<Rightarrow> store_tx res" where
  "remove_key c db version_id tx key =
     (let key_bytes = ser_key c key
      in case map_of (vs_data db) key_bytes of
           Some old_value_bytes \<Rightarrow>
             res_bind (log_undo c version_id key_bytes old_value_bytes tx) (\<lambda>(lsn, kvs, undos).
               Inr (lsn, AList.delete key_bytes kvs, undos))
         | None \<Rightarrow> Inr tx)"

definition update_key ::
  "('t, 'k, 'v) store_codec \<Rightarrow> 't versioned_store \<Rightarrow> 't \<Rightarrow> store_tx \<Rightarrow> 'k \<times> 'v \<Rightarrow> store_tx res" where
  "update_key c db version_id tx kv =
     (case kv of (key, value) \<Rightarrow>
        let key_bytes = ser_key c key
        in res_bind (res_assert (key_bytes \<noteq> [])) (\<lambda>_.
           res_bind
             (case map_of (vs_data db) key_bytes of
                Some old_value_bytes \<Rightarrow> log_undo c version_id key_bytes old_value_bytes tx
              | None \<Rightarrow> Inr tx) (\<lambda>(lsn, kvs, undos).
             Inr (lsn, AList.update key_bytes (ser_val c value) kvs, undos))))"

text \<open>Delete the log of the oldest version when enough versions are kept.\<close>

definition prune_versions ::
  "nat \<Rightarrow> 't version_id_boundaries list \<Rightarrow> (nat \<times> bytes) list
   \<Rightarrow> 't version_id_boundaries list \<times> (nat \<times> bytes) list" where
  "prune_versions num_versions_to_store boundaries undos =
     (if length boundaries = num_versions_to_store + 1
      then (tl boundaries, fold delete_undo [bd_first (hd boundaries)..<Suc (bd_last (hd boundaries))] undos)
      else (boundaries, undos))"

definition update_store ::
  "('t, 'k, 'v) store_codec \<Rightarrow> 't \<Rightarrow> 'k list \<Rightarrow> ('k \<times> 'v) list \<Rightarrow> 't versioned_store \<Rightarrow> 't versioned_store res" where
  "update_store c version_id to_remove to_update s =
     (if to_remove = [] \<and> to_update = [] then Inr s
      else
        let old_last_lsn = get_last_lsn s
        in res_bind (res_fold (remove_key c s version_id) (old_last_lsn, vs_data s, vs_undo s) to_remove) (\<lambda>tx.
           res_bind (res_fold (update_key c s version_id) tx to_update) (\<lambda>(last_lsn, kvs, undos).
             let (boundaries, undos) = prune_versions (vs_num_versions s) (vs_boundaries s) undos;
                 first_lsn = (if last_lsn = old_last_lsn then last_lsn else old_last_lsn + 1);
                 boundary = \<lparr>bd_version = version_id, bd_first = first_lsn, bd_last = last_lsn\<rparr>
             in Inr (s\<lparr>vs_data := kvs, vs_undo := undos, vs_boundaries := boundaries @ [boundary]\<rparr>))))"

section \<open>Reading\<close>

definition get_values ::
  "('t, 'k, 'v) store_codec \<Rightarrow> 't versioned_store \<Rightarrow> 'k list \<Rightarrow> ('k \<times> 'v option) list res" where
  "get_values c s keys =
     res_mapM (\<lambda>key.
       case map_of (vs_data s) (ser_key c key) of
         Some value_bytes \<Rightarrow> res_bind (unwrap (de_val c value_bytes)) (\<lambda>v. Inr (key, Some v))
       | None \<Rightarrow> Inr (key, None)) keys"

section \<open>Rollback\<close>

text \<open>
  Iterating backwards over the log. Before the first record of the log come the data, whose keys do
  not end in a serial number, or nothing.
\<close>

fun undo_loop ::
  "('t, 'k, 'v) store_codec \<Rightarrow> 't versioned_store \<Rightarrow> nat \<Rightarrow> (nat \<times> bytes) list
   \<Rightarrow> (bytes \<times> bytes) list \<times> (nat \<times> bytes) list \<Rightarrow> ((bytes \<times> bytes) list \<times> (nat \<times> bytes) list) res" where
  "undo_loop c db first_lsn [] tx = Inl (if vs_data db = [] then AssertFailed else UnwrapNone)"
| "undo_loop c db first_lsn ((lsn, value) # iter) tx =
     res_bind (undo_of_bytes c value) (\<lambda>undo.
       let tx = (AList.update (undo_key undo) (undo_value undo) (fst tx), delete_undo lsn (snd tx))
       in if lsn = first_lsn then Inr tx else undo_loop c db first_lsn iter tx)"

text \<open>
  \<open>seek\<close>: the records before the first one that is not below the target, in reverse, and that one
  first; behind the log is the key of the boundaries, which is too short to slice.
\<close>

definition seek_back :: "nat \<Rightarrow> (nat \<times> bytes) list \<Rightarrow> (nat \<times> bytes) list res" where
  "seek_back target us =
     (case dropWhile (\<lambda>(m, _). m < target) us of
        e # _ \<Rightarrow> Inr (e # rev (takeWhile (\<lambda>(m, _). m < target) us))
      | [] \<Rightarrow> Inl IndexOutOfBounds)"

definition rollback_to ::
  "('t, 'k, 'v) store_codec \<Rightarrow> 't \<Rightarrow> 't versioned_store \<Rightarrow> 't versioned_store res" where
  "rollback_to c version_id s =
     (let boundaries = vs_boundaries s
      in res_bind (unwrap (position (\<lambda>b. bd_version b = version_id) boundaries)) (\<lambda>version_id_ix.
         res_bind (index boundaries version_id_ix) (\<lambda>b.
         res_bind (lsn_succ (bd_last b)) (\<lambda>first_lsn.
         res_bind (seek_back (bd_last (last boundaries)) (vs_undo s)) (\<lambda>iter.
         res_bind (undo_loop c s first_lsn iter (vs_data s, vs_undo s)) (\<lambda>(kvs, undos).
           Inr (s\<lparr>vs_data := kvs, vs_undo := undos,
                  vs_boundaries := take (version_id_ix + 1) boundaries\<rparr>)))))))"

end
