(* ===== verification/Versioned_Correct.thy ===== *)
theory Versioned_Correct
  imports Versioned_Store
begin

text \<open>
  Correctness of the versioned store: undo records survive their encoding, and the store implements
  a list of versions with their contents. A rollback brings back every key of the version it returns
  to, but leaves keys that were added since.
\<close>

declare upt_Suc [simp del]

section \<open>Undo records\<close>

lemma res_assert_simps [res_simps]:
  "res_assert b = Inr x \<longleftrightarrow> b" "res_assert b = Inl e \<longleftrightarrow> \<not> b \<and> e = AssertFailed"
  by (auto simp: res_assert_def)

lemma undo_to_bytes_Inr:
  "undo_to_bytes c u = Inr bs \<longleftrightarrow>
     length (ver_bytes c (undo_version u)) \<le> 255 \<and> length (undo_key u) \<le> 255 \<and> undo_value u \<noteq> [] \<and>
     bs = [of_nat (length (ver_bytes c (undo_version u))), of_nat (length (undo_key u))] @
       ver_bytes c (undo_version u) @ undo_key u @ undo_value u"
  by (auto simp: undo_to_bytes_def Let_def res_simps)

lemma undo_to_bytes_Inl:
  "undo_to_bytes c u = Inl e \<longleftrightarrow> e = AssertFailed \<and>
     (255 < length (ver_bytes c (undo_version u)) \<or> 255 < length (undo_key u) \<or> undo_value u = [])"
  by (auto simp: undo_to_bytes_def Let_def res_simps)

lemma unat_byte: "n \<le> 255 \<Longrightarrow> unat (of_nat n :: 8 word) = n"
  by (simp add: unat_of_nat)

lemma undo_of_to_bytes:
  assumes "undo_to_bytes c u = Inr bs" "ver_of_bytes c (ver_bytes c (undo_version u)) = Some (undo_version u)"
  shows "undo_of_bytes c bs = Inr u"
  using assms unfolding undo_to_bytes_Inr
  by (auto simp: undo_of_bytes_def Let_def index_def unat_byte checked_sub_def res_assert_def slice_def
      nth_append)

section \<open>The specification\<close>

text \<open>Versions with their contents, oldest first; the last one is the current state.\<close>

type_synonym 't versions = "('t \<times> (bytes \<rightharpoonup> bytes)) list"

definition current :: "'t versions \<Rightarrow> bytes \<rightharpoonup> bytes" where
  "current hist = (if hist = [] then Map.empty else snd (last hist))"

definition removed_keys :: "('t, 'k, 'v) store_codec \<Rightarrow> 'k list \<Rightarrow> (bytes \<rightharpoonup> bytes) \<Rightarrow> bytes \<rightharpoonup> bytes" where
  "removed_keys c to_remove m = fold (\<lambda>k m. m(ser_key c k := None)) to_remove m"

definition updated_keys :: "('t, 'k, 'v) store_codec \<Rightarrow> ('k \<times> 'v) list \<Rightarrow> (bytes \<rightharpoonup> bytes) \<Rightarrow> bytes \<rightharpoonup> bytes" where
  "updated_keys c to_update m = fold (\<lambda>(k, v) m. m(ser_key c k \<mapsto> ser_val c v)) to_update m"

definition spec_update ::
  "('t, 'k, 'v) store_codec \<Rightarrow> nat \<Rightarrow> 't \<Rightarrow> 'k list \<Rightarrow> ('k \<times> 'v) list \<Rightarrow> 't versions \<Rightarrow> 't versions" where
  "spec_update c n v to_remove to_update hist =
     (if to_remove = [] \<and> to_update = [] then hist
      else (if length hist = n + 1 then tl hist else hist) @
        [(v, updated_keys c to_update (removed_keys c to_remove (current hist)))])"

text \<open>The contents after going back from the last to the first of a list of versions.\<close>

fun restored :: "(bytes \<rightharpoonup> bytes) list \<Rightarrow> bytes \<rightharpoonup> bytes" where
  "restored [] = Map.empty"
| "restored [m] = m"
| "restored (m # ms) = restored ms ++ m"

definition spec_rollback :: "'t \<Rightarrow> 't versions \<Rightarrow> 't versions" where
  "spec_rollback v hist =
     (case position (\<lambda>h. fst h = v) hist of
        Some j \<Rightarrow> take j hist @ [(v, restored (map snd (drop j hist)))]
      | None \<Rightarrow> hist)"

section \<open>The simulation\<close>

text \<open>The log between two versions: old values of the first one, of at least the keys that changed.\<close>

definition undo_block ::
  "('t, 'k, 'v) store_codec \<Rightarrow> (nat \<times> bytes) list \<Rightarrow> (bytes \<rightharpoonup> bytes) \<Rightarrow> (bytes \<rightharpoonup> bytes) \<Rightarrow> bool" where
  "undo_block c us m m' \<longleftrightarrow>
     (\<forall>(n, bs) \<in> set us. \<exists>u. undo_of_bytes c bs = Inr u \<and> m (undo_key u) = Some (undo_value u)) \<and>
     (\<forall>k v. m k = Some v \<longrightarrow> m' k \<noteq> Some v \<longrightarrow>
        (\<exists>(n, bs) \<in> set us. \<exists>u. undo_of_bytes c bs = Inr u \<and> undo_key u = k))"

definition between :: "nat \<Rightarrow> nat \<Rightarrow> (nat \<times> bytes) list \<Rightarrow> (nat \<times> bytes) list" where
  "between a b us = filter (\<lambda>(n, _). a < n \<and> n \<le> b) us"

fun log_links ::
  "('t, 'k, 'v) store_codec \<Rightarrow> (nat \<times> bytes) list \<Rightarrow> ('t version_id_boundaries \<times> (bytes \<rightharpoonup> bytes)) list \<Rightarrow> bool" where
  "log_links c us ((b1, m1) # (b2, m2) # hs) \<longleftrightarrow>
     bd_last b1 < bd_last b2 \<and> bd_first b2 = Suc (bd_last b1) \<and>
     undo_block c (between (bd_last b1) (bd_last b2) us) m1 m2 \<and> log_links c us ((b2, m2) # hs)"
| "log_links c us _ \<longleftrightarrow> True"

definition log_range :: "nat \<Rightarrow> 't versioned_store \<Rightarrow> bool" where
  "log_range lo s \<longleftrightarrow>
     (let bs = vs_boundaries s
      in if bs = [] then vs_undo s = []
         else map fst (vs_undo s) = [Suc lo..<Suc (bd_last (last bs))] \<and>
           lo \<le> bd_last (hd bs) \<and> bd_first (hd bs) \<le> Suc lo \<and> (lo < bd_last (hd bs) \<or> bd_last (hd bs) = 0))"

definition store_sim :: "('t, 'k, 'v) store_codec \<Rightarrow> 't versioned_store \<Rightarrow> 't versions \<Rightarrow> bool" where
  "store_sim c s hist \<longleftrightarrow>
     map bd_version (vs_boundaries s) = map fst hist \<and> map_of (vs_data s) = current hist \<and>
     (\<forall>m \<in> snd ` set hist. ran m \<subseteq> range (ser_val c)) \<and>
     log_links c (vs_undo s) (zip (vs_boundaries s) (map snd hist)) \<and> (\<exists>lo. log_range lo s)"

section \<open>Rollback\<close>

definition undone :: "('t, 'k, 'v) store_codec \<Rightarrow> (nat \<times> bytes) list \<Rightarrow> (bytes \<rightharpoonup> bytes) \<Rightarrow> bytes \<rightharpoonup> bytes" where
  "undone c us m =
     foldr (\<lambda>(n, bs) m. case undo_of_bytes c bs of Inr u \<Rightarrow> m(undo_key u \<mapsto> undo_value u) | Inl _ \<Rightarrow> m) us m"

lemma undone_append: "undone c (us @ ws) m = undone c us (undone c ws m)"
  by (simp add: undone_def)

lemma undone_Cons: "undo_of_bytes c bs = Inr u \<Longrightarrow>
   undone c ((n, bs) # us) m = (undone c us m)(undo_key u \<mapsto> undo_value u)"
  by (simp add: undone_def)

lemma undone_puts:
  assumes "\<forall>(n, bs) \<in> set us. \<exists>u. undo_of_bytes c bs = Inr u \<and> m0 (undo_key u) = Some (undo_value u)"
  shows "undone c us m k =
    (if \<exists>(n, bs) \<in> set us. \<exists>u. undo_of_bytes c bs = Inr u \<and> undo_key u = k then m0 k else m k)"
  using assms
proof (induction us)
  case (Cons x us)
  obtain n bs u where x: "x = (n, bs)" "undo_of_bytes c bs = Inr u" "m0 (undo_key u) = Some (undo_value u)"
    using Cons.prems by (cases x) auto
  then show ?case using Cons by (auto simp: undone_Cons)
qed (simp add: undone_def)

lemma undone_block:
  assumes "undo_block c us m m'" "\<And>k v. m' k = Some v \<Longrightarrow> r k = Some v"
  shows "undone c us r = r ++ m"
proof
  fix k
  note puts = undone_puts [of us c m r k]
  show "undone c us r k = (r ++ m) k"
  proof (cases "m k")
    case None
    then have "\<not> (\<exists>(n, bs) \<in> set us. \<exists>u. undo_of_bytes c bs = Inr u \<and> undo_key u = k)"
      using assms(1) by (fastforce simp: undo_block_def)
    then show ?thesis using puts assms(1) None by (simp add: undo_block_def map_add_def)
  next
    case (Some v)
    then show ?thesis
      using puts assms by (cases "m' k = Some v") (auto simp: undo_block_def)
  qed
qed

lemma between_split:
  assumes "sorted (map fst us)" "a \<le> b" "b \<le> d"
  shows "between a d us = between a b us @ between b d us"
  using assms
proof (induction us)
  case (Cons x us)
  then show ?case
  proof (cases "fst x \<le> b")
    case False
    then have "between a b us = []" using Cons.prems by (auto simp: between_def filter_empty_conv)
    then show ?thesis using Cons False by (auto simp: between_def split: prod.splits)
  qed (auto simp: between_def split: prod.splits)
qed (simp add: between_def)

lemma restored_head: "m k = Some v \<Longrightarrow> restored (m # ms) k = Some v"
  by (cases ms) simp_all

lemma log_links_last: "log_links c us ((b, m) # hs) \<Longrightarrow> bd_last b \<le> bd_last (fst (last ((b, m) # hs)))"
proof (induction hs arbitrary: b m)
  case (Cons x hs)
  obtain b' m' where x: "x = (b', m')" by (cases x)
  then have "bd_last b < bd_last b'" "log_links c us ((b', m') # hs)" using Cons.prems by simp_all
  then show ?case using Cons.IH [of b' m'] x by simp
qed simp

lemma undone_links:
  assumes "log_links c us ((b, m) # hs)" "sorted (map fst us)"
  shows "undone c (between (bd_last b) (bd_last (fst (last ((b, m) # hs)))) us) (snd (last ((b, m) # hs))) =
    restored (m # map snd hs)"
  using assms(1)
proof (induction hs arbitrary: b m)
  case Nil
  have "between (bd_last b) (bd_last b) us = []" by (auto simp: between_def filter_empty_conv)
  then show ?case by (simp add: undone_def)
next
  case (Cons x hs)
  obtain b' m' where x: "x = (b', m')" by (cases x)
  let ?L = "bd_last (fst (last ((b', m') # hs)))"
  have links: "bd_last b < bd_last b'" "undo_block c (between (bd_last b) (bd_last b') us) m m'"
    "log_links c us ((b', m') # hs)" using Cons.prems x by simp_all
  have "between (bd_last b) ?L us = between (bd_last b) (bd_last b') us @ between (bd_last b') ?L us"
    using log_links_last [OF links(3)] links(1) assms(2) by (intro between_split) simp_all
  then show ?case
    using Cons.IH [OF links(3)] undone_block [OF links(2) restored_head] x by (simp add: undone_append)
qed

lemma undo_loop_undone:
  assumes "\<forall>(n, bs) \<in> set ((f, b) # us). \<exists>u. undo_of_bytes c bs = Inr u" "f \<notin> fst ` set us"
  shows "\<exists>kvs'. undo_loop c db f (rev us @ (f, b) # rest) (kvs, log) =
      Inr (kvs', filter (\<lambda>(n, _). n \<noteq> f \<and> n \<notin> fst ` set us) log) \<and>
    map_of kvs' = undone c ((f, b) # us) (map_of kvs)"
  using assms
proof (induction us arbitrary: kvs log rule: rev_induct)
  case Nil
  then obtain u where "undo_of_bytes c b = Inr u" by auto
  then show ?case by (auto simp: undone_def delete_undo_def update_conv')
next
  case (snoc x us)
  obtain n bs where x: "x = (n, bs)" by (cases x)
  obtain u where u: "undo_of_bytes c bs = Inr u" using snoc.prems(1) x by auto
  have n: "n \<noteq> f" using snoc.prems(2) x by auto
  have "undone c ((f, b) # us @ [x]) (map_of kvs) =
    undone c ((f, b) # us) (map_of (AList.update (undo_key u) (undo_value u) kvs))"
    using undone_append [of c "(f, b) # us" "[x]"] x u by (simp add: undone_Cons update_conv') (simp add: undone_def)
  moreover have "filter (\<lambda>(k, _). k \<noteq> f \<and> k \<notin> fst ` set us) (delete_undo n log) =
      filter (\<lambda>(k, _). k \<noteq> f \<and> k \<notin> fst ` set (us @ [x])) log"
    using x by (auto simp: delete_undo_def intro!: filter_cong)
  ultimately show ?case
    using snoc.IH [of "AList.update (undo_key u) (undo_value u) kvs" "delete_undo n log"] snoc.prems x u n by simp
qed

lemma seek_back_last:
  assumes "sorted_wrt (<) (map fst us)" "us \<noteq> []"
  shows "seek_back (fst (last us)) us = Inr (rev us)"
proof -
  obtain ws w where us: "us = ws @ [w]" using assms(2) by (metis append_butlast_last_id)
  then have "\<forall>x \<in> set ws. (\<lambda>(m, _). m < fst w) x" using assms(1) by (auto simp: sorted_wrt_append)
  then show ?thesis
    unfolding us by (simp add: seek_back_def dropWhile_append2 takeWhile_append2 case_prod_beta)
qed

lemma upt_last: "map fst us = [a..<Suc b] \<Longrightarrow> us \<noteq> [] \<Longrightarrow> fst (last us) = b"
  by (metis last_map last_snoc list.map_disc_iff upt_Suc)

lemma seek_back_set: "seek_back t us = Inr it \<Longrightarrow> set it \<subseteq> set us"
proof -
  assume seek: "seek_back t us = Inr it"
  then obtain e es where e: "dropWhile (\<lambda>(m, _). m < t) us = e # es" "it = e # rev (takeWhile (\<lambda>(m, _). m < t) us)"
    by (auto simp: seek_back_def split: list.splits)
  have "us = takeWhile (\<lambda>(m, _). m < t) us @ e # es" using takeWhile_dropWhile_id e(1) by metis
  from arg_cong [OF this, of set] show ?thesis using e(2) by auto
qed

lemma log_range_last:
  assumes "log_range lo s" "log_links c (vs_undo s) (zip (vs_boundaries s) ms)" "vs_boundaries s \<noteq> []"
    and "length ms = length (vs_boundaries s)"
  shows "get_last_lsn s = bd_last (last (vs_boundaries s))"
proof (cases "vs_undo s = []")
  case True
  obtain b bs m ms' where bs: "vs_boundaries s = b # bs" "ms = m # ms'" using assms(3,4) by (cases "vs_boundaries s"; cases ms) auto
  have "map fst (vs_undo s) = [Suc lo..<Suc (bd_last (last (vs_boundaries s)))]" "lo \<le> bd_last b"
    "lo < bd_last b \<or> bd_last b = 0"
    using assms(1,3) bs(1) by (auto simp: log_range_def)
  then have "\<not> lo < bd_last (last (vs_boundaries s))" using True by (metis Suc_less_eq list.map_disc_iff upt_eq_Nil_conv not_le nat.distinct(1))
  moreover have "bd_last b \<le> bd_last (last (vs_boundaries s))"
    using log_links_last [of c "vs_undo s" b m "zip bs ms'"] assms(2,4) bs by (cases "bs = []"; cases "ms' = []") (auto simp: last_zip)
  ultimately show ?thesis using True \<open>lo \<le> bd_last b\<close> \<open>lo < bd_last b \<or> _\<close> by (auto simp: get_last_lsn_def)
next
  case False
  then show ?thesis using assms(1,3) upt_last [OF _ False] by (auto simp: log_range_def get_last_lsn_def Let_def)
qed

lemma position_map: "position P (map f xs) = position (P \<circ> f) xs"
  by (induction xs) simp_all

lemma log_links_drop: "log_links c us hs \<Longrightarrow> log_links c us (drop j hs)"
proof (induction j arbitrary: hs)
  case (Suc j)
  have "log_links c us (tl hs)" using Suc.prems by (cases "(c, us, hs)" rule: log_links.cases) auto
  then show ?case using Suc.IH [of "tl hs"] by (simp add: drop_Suc)
qed simp

lemma log_links_snoc:
  "log_links c us (hs @ [(b, m), (b', m')]) \<longleftrightarrow>
     log_links c us (hs @ [(b, m)]) \<and> bd_last b < bd_last b' \<and> bd_first b' = Suc (bd_last b) \<and>
     undo_block c (between (bd_last b) (bd_last b') us) m m'"
  by (induction c us hs rule: log_links.induct) auto

lemma log_links_take: "log_links c us (hs @ ws) \<Longrightarrow> log_links c us hs"
proof (induction c us hs rule: log_links.induct)
  case (1 c us b1 m1 b2 m2 hs)
  then show ?case by simp
qed simp_all

lemma log_links_cong:
  assumes "log_links c us hs" "\<And>n bs. bd_last (fst (hd hs)) < n \<Longrightarrow> n \<le> bd_last (fst (last hs)) \<Longrightarrow> (n, bs) \<in> set us \<longleftrightarrow> (n, bs) \<in> set ws"
  shows "log_links c ws hs"
  using assms
proof (induction c us hs rule: log_links.induct)
  case (1 c us b1 m1 b2 m2 hs)
  have last: "bd_last b2 \<le> bd_last (fst (last ((b2, m2) # hs)))" using log_links_last [of c us b2 m2 hs] 1(2) by simp
  then have "set (between (bd_last b1) (bd_last b2) us) = set (between (bd_last b1) (bd_last b2) ws)"
    using 1(3) by (auto simp: between_def)
  then have "undo_block c (between (bd_last b1) (bd_last b2) ws) m1 m2" using 1(2) by (simp add: undo_block_def)
  moreover have "log_links c ws ((b2, m2) # hs)" using 1 by simp
  ultimately show ?case using 1(2) by simp
qed simp_all

lemma links_decode:
  assumes "log_links c us ((b, m) # hs)" "sorted (map fst us)"
  shows "\<forall>(n, x) \<in> set (between (bd_last b) (bd_last (fst (last ((b, m) # hs)))) us). \<exists>u. undo_of_bytes c x = Inr u"
  using assms(1)
proof (induction hs arbitrary: b m)
  case (Cons x hs)
  obtain b' m' where x: "x = (b', m')" by (cases x)
  let ?L = "bd_last (fst (last ((b', m') # hs)))"
  have links: "bd_last b < bd_last b'" "undo_block c (between (bd_last b) (bd_last b') us) m m'"
    "log_links c us ((b', m') # hs)" using Cons.prems x by simp_all
  have "between (bd_last b) ?L us = between (bd_last b) (bd_last b') us @ between (bd_last b') ?L us"
    using log_links_last [OF links(3)] links(1) assms(2) by (intro between_split) simp_all
  moreover have "\<forall>(n, y) \<in> set (between (bd_last b) (bd_last b') us). \<exists>u. undo_of_bytes c y = Inr u"
    using links(2) by (fastforce simp: undo_block_def)
  ultimately show ?case using Cons.IH [OF links(3)] x by auto
qed (auto simp: between_def)

lemma undo_block_mono:
  "undo_block c us m m' \<Longrightarrow> (\<And>k v. m' k = Some v \<Longrightarrow> m'' k = Some v) \<Longrightarrow> undo_block c us m m''"
  unfolding undo_block_def by blast

lemma log_links_last_mono:
  assumes "log_links c us (hs @ [(b, m)])" "\<And>k v. m k = Some v \<Longrightarrow> m' k = Some v"
  shows "log_links c us (hs @ [(b, m')])"
proof (cases hs rule: rev_cases)
  case (snoc hs' x)
  then show ?thesis
    using assms log_links_snoc [of c us hs' "fst x" "snd x" b] undo_block_mono [of c _ "snd x" m m'] by simp
qed simp

lemma restored_ran: "ran (restored ms) \<subseteq> (\<Union>m \<in> set ms. ran m)"
proof (induction ms rule: restored.induct)
  case (3 m m' ms)
  then show ?case by (auto simp: ran_def map_add_def split: option.splits)
qed (auto simp: ran_def)

lemma upt_bounds: "map fst xs = [a..<b] \<Longrightarrow> x \<in> set xs \<Longrightarrow> a \<le> fst x \<and> fst x < b"
  by (metis atLeastLessThan_iff imageI list.set_map set_upt)

lemma filter_left: "\<forall>x \<in> set xs. P x \<Longrightarrow> \<forall>y \<in> set ys. \<not> P y \<Longrightarrow> filter P (xs @ ys) = xs"
  by (simp add: filter_empty_conv)

lemma filter_right: "\<forall>x \<in> set xs. \<not> P x \<Longrightarrow> \<forall>y \<in> set ys. P y \<Longrightarrow> filter P (xs @ ys) = ys"
  by (simp add: filter_empty_conv)

text \<open>Splitting a log whose serial numbers have no gaps.\<close>

lemma log_split:
  assumes "map fst us = [Suc lo..<Suc hi]" "lo \<le> l" "l < hi"
  obtains us1 b us3 where "us = us1 @ (Suc l, b) # us3" "map fst us1 = [Suc lo..<Suc l]"
    "map fst us3 = [Suc (Suc l)..<Suc hi]" "between l hi us = (Suc l, b) # us3"
proof -
  have len: "length us = hi - lo" using arg_cong [OF assms(1), of length] by simp
  let ?i = "l - lo"
  have i: "?i < length us" using assms(2,3) len by simp
  have us: "us = take ?i us @ us ! ?i # drop (Suc ?i) us" using i by (rule id_take_nth_drop)
  have nth: "fst (us ! ?i) = Suc l" using arg_cong [OF assms(1), of "\<lambda>xs. xs ! ?i"] i assms(2,3) by simp
  have 1: "map fst (take ?i us) = [Suc lo..<Suc l]" using assms by (simp add: take_map [symmetric] take_upt)
  have 3: "map fst (drop (Suc ?i) us) = [Suc (Suc l)..<Suc hi]" using assms by (simp add: drop_map [symmetric] drop_upt)
  have "\<forall>x \<in> set (take ?i us). fst x \<le> l" using upt_bounds [OF 1] by fastforce
  moreover have "\<forall>x \<in> set (drop (Suc ?i) us). l < fst x \<and> fst x \<le> hi" using upt_bounds [OF 3] by fastforce
  ultimately have "between l hi us = us ! ?i # drop (Suc ?i) us"
    using nth assms(3) unfolding between_def by (subst us, intro filter_right) auto
  moreover obtain b where "us ! ?i = (Suc l, b)" using nth by (cases "us ! ?i") simp
  ultimately show thesis using that [of "take ?i us" b "drop (Suc ?i) us"] us 1 3 by simp
qed

lemma store_sim_length: "store_sim c s hist \<Longrightarrow> length (vs_boundaries s) = length hist"
  unfolding store_sim_def by (metis length_map)

lemma store_sim_position:
  assumes "store_sim c s hist"
  shows "position (\<lambda>b. bd_version b = v) (vs_boundaries s) = position (\<lambda>h. fst h = v) hist"
proof -
  have "position (\<lambda>w. w = v) (map bd_version (vs_boundaries s)) = position (\<lambda>w. w = v) (map fst hist)"
    using assms by (simp add: store_sim_def)
  then show ?thesis by (simp add: position_map comp_def)
qed

lemma rollback_log:
  assumes "map fst us = [Suc lo..<Suc hi]" "lo \<le> l" "l < hi"
    and "\<forall>(n, x) \<in> set (between l hi us). \<exists>u. undo_of_bytes c x = Inr u"
  shows "\<exists>kvs' us1. undo_loop c db (Suc l) (rev us) (kvs, us) = Inr (kvs', us1) \<and>
    map_of kvs' = undone c (between l hi us) (map_of kvs) \<and> map fst us1 = [Suc lo..<Suc l] \<and>
    us1 = filter (\<lambda>(n, _). n \<le> l) us"
proof -
  obtain us1 b us3 where us: "us = us1 @ (Suc l, b) # us3" "map fst us1 = [Suc lo..<Suc l]"
    "map fst us3 = [Suc (Suc l)..<Suc hi]" "between l hi us = (Suc l, b) # us3"
    by (rule log_split [OF assms(1-3)])
  have 1: "\<forall>x \<in> set us1. fst x \<le> l" using upt_bounds [OF us(2)] by fastforce
  have 3: "\<forall>x \<in> set us3. Suc l < fst x" using upt_bounds [OF us(3)] by fastforce
  have f1: "filter (\<lambda>(n, _). n \<noteq> Suc l \<and> n \<notin> fst ` set us3) us = us1"
    using 1 3 unfolding us(1) by (intro filter_left) (fastforce, force)
  have f2: "filter (\<lambda>(n, _). n \<le> l) us = us1"
    using 1 3 unfolding us(1) by (intro filter_left) fastforce+
  have dec: "\<forall>(n, x) \<in> set ((Suc l, b) # us3). \<exists>u. undo_of_bytes c x = Inr u" using assms(4) unfolding us(4) .
  have fresh: "Suc l \<notin> fst ` set us3" using 3 by force
  from undo_loop_undone [OF dec fresh, of db "rev us1" kvs us, unfolded f1]
  obtain kvs' where kvs': "undo_loop c db (Suc l) (rev us3 @ (Suc l, b) # rev us1) (kvs, us) = Inr (kvs', us1)"
    "map_of kvs' = undone c ((Suc l, b) # us3) (map_of kvs)" by blast
  have rev_us: "rev us = rev us3 @ (Suc l, b) # rev us1" by (simp add: us(1))
  show ?thesis
    by (intro exI [of _ kvs'] exI [of _ us1] conjI) (use kvs' us(2,4) rev_us f2 in \<open>simp_all only:\<close>)
qed

lemma log_links_cut:
  assumes "log_links c us hs" "j < length hs" "m = snd (hs ! j)" "\<And>k v. m k = Some v \<Longrightarrow> m' k = Some v"
  shows "log_links c (filter (\<lambda>(n, _). n \<le> bd_last (fst (hs ! j))) us) (take j hs @ [(fst (hs ! j), m')])"
proof (rule log_links_cong)
  have "hs = take j hs @ [(fst (hs ! j), m)] @ drop (Suc j) hs" using assms(2,3) by (simp add: id_take_nth_drop)
  then have "log_links c us (take j hs @ [(fst (hs ! j), m)])" using log_links_take assms(1) by (metis append.assoc)
  then show "log_links c us (take j hs @ [(fst (hs ! j), m')])" using assms(4) by (rule log_links_last_mono)
qed auto

lemma log_links_sorted: "log_links c us hs \<Longrightarrow> sorted_wrt (<) (map (\<lambda>h. bd_last (fst h)) hs)"
proof (induction c us hs rule: log_links.induct)
  case (1 c us b1 m1 b2 m2 hs)
  then show ?case by fastforce
qed simp_all

lemma map_fst_zip': "length xs = length ys \<Longrightarrow> map (\<lambda>h. f (fst h)) (zip xs ys) = map f xs"
  by (induction xs ys rule: list_induct2) simp_all

lemma rolled_back_sim:
  assumes sim: "store_sim c s hist" and range: "log_range lo s" and pos: "position (\<lambda>h. fst h = v) hist = Some j"
    and "map_of kvs = restored (map snd (drop j hist))"
    and us1: "map fst us1 = [Suc lo..<Suc (bd_last (vs_boundaries s ! j))]"
      "us1 = filter (\<lambda>(n, _). n \<le> bd_last (vs_boundaries s ! j)) (vs_undo s)"
  shows "store_sim c (s\<lparr>vs_data := kvs, vs_undo := us1, vs_boundaries := take (j + 1) (vs_boundaries s)\<rparr>)
    (take j hist @ [(v, restored (map snd (drop j hist)))])"
proof -
  let ?r = "restored (map snd (drop j hist))" and ?bs = "vs_boundaries s"
  have j: "j < length hist" "fst (hist ! j) = v" using pos by (simp_all add: position_Some_iff)
  have len: "length ?bs = length hist" by (rule store_sim_length [OF sim])
  have bs: "take (j + 1) ?bs = take j ?bs @ [?bs ! j]" "?bs \<noteq> []" using j len by (auto simp: take_Suc_conv_app_nth)
  have ver: "map bd_version ?bs = map fst hist" using sim by (simp add: store_sim_def)
  have "map bd_version (take j ?bs) = map fst (take j hist)" "bd_version (?bs ! j) = v"
    using arg_cong [OF ver, of "take j"] arg_cong [OF ver, of "\<lambda>xs. xs ! j"] j len by (simp_all add: take_map)
  moreover have "\<forall>m \<in> snd ` set (take j hist @ [(v, ?r)]). ran m \<subseteq> range (ser_val c)"
  proof -
    have maps: "ran (snd h) \<subseteq> range (ser_val c)" if "h \<in> set hist" for h using sim that by (simp add: store_sim_def)
    then have "ran ?r \<subseteq> range (ser_val c)"
      by (intro order.trans [OF restored_ran UN_least]) (auto dest!: in_set_dropD)
    moreover have "ran (snd h) \<subseteq> range (ser_val c)" if "h \<in> set (take j hist)" for h
      using maps that by (blast dest: in_set_takeD)
    ultimately show ?thesis by simp
  qed
  moreover have "log_links c us1 (zip (take (j + 1) ?bs) (map snd (take j hist @ [(v, ?r)])))"
  proof -
    have "snd (hist ! j) k = Some x \<Longrightarrow> ?r k = Some x" for k x
      using j(1) by (simp add: Cons_nth_drop_Suc [symmetric] restored_head)
    then show ?thesis
      using log_links_cut [of c "vs_undo s" "zip ?bs (map snd hist)" j "snd (hist ! j)" ?r] sim j len us1(2) bs
      by (simp add: store_sim_def take_zip take_map)
  qed
  moreover have "log_range lo (s\<lparr>vs_data := kvs, vs_undo := us1, vs_boundaries := take (j + 1) ?bs\<rparr>)"
  proof -
    have "hd (take (j + 1) ?bs) = hd ?bs" by simp
    moreover have "last (take (j + 1) ?bs) = ?bs ! j" unfolding bs(1) by simp
    ultimately show ?thesis using range us1(1) bs(2) by (simp add: log_range_def Let_def)
  qed
  ultimately show ?thesis using assms(4) bs unfolding store_sim_def by (auto simp: current_def)
qed

lemma log_bounds:
  assumes sim: "store_sim c s hist" and range: "log_range lo s" and j: "Suc j < length hist"
  shows "lo \<le> bd_last (vs_boundaries s ! j) \<and> bd_last (vs_boundaries s ! j) < bd_last (last (vs_boundaries s))"
proof -
  let ?bs = "vs_boundaries s"
  have len: "length ?bs = length hist" by (rule store_sim_length [OF sim])
  then have ne: "?bs \<noteq> []" using j by auto
  have bounds: "sorted_wrt (<) (map bd_last ?bs)"
    using sim log_links_sorted [of c "vs_undo s" "zip ?bs (map snd hist)"] len by (simp add: store_sim_def map_fst_zip')
  have "lo \<le> bd_last (hd ?bs)" using range ne by (simp add: log_range_def Let_def)
  moreover have "map bd_last ?bs ! 0 = bd_last (?bs ! 0)" using ne by (simp add: nth_map)
  then have "bd_last (?bs ! 0) \<le> bd_last (?bs ! j)"
    using sorted_wrt_nth_less [OF bounds, of 0 j] j len by (cases j) auto
  moreover have "bd_last (?bs ! j) < bd_last (?bs ! (length ?bs - 1))"
    using sorted_wrt_nth_less [OF bounds, of j "length ?bs - 1"] j len by simp
  ultimately show ?thesis using ne by (simp add: hd_conv_nth last_conv_nth)
qed

lemma rollback_sim:
  assumes sim: "store_sim c s hist" and pos: "position (\<lambda>h. fst h = v) hist = Some j" "Suc j < length hist"
    and lsn: "get_last_lsn s < 2 ^ 32"
  shows "\<exists>s'. rollback_to c v s = Inr s' \<and> store_sim c s' (spec_rollback v hist) \<and>
    vs_num_versions s' = vs_num_versions s \<and> get_last_lsn s' \<le> get_last_lsn s"
proof -
  let ?bs = "vs_boundaries s" and ?us = "vs_undo s"
  have len: "length ?bs = length hist" by (rule store_sim_length [OF sim])
  obtain lo where range: "log_range lo s" using sim by (auto simp: store_sim_def)
  let ?hs = "zip ?bs (map snd hist)" and ?l = "bd_last (?bs ! j)" and ?L = "bd_last (last ?bs)"
  let ?r = "restored (map snd (drop j hist))"
  have links: "log_links c ?us ?hs" using sim by (simp add: store_sim_def)
  have ne: "?bs \<noteq> []" "hist \<noteq> []" using len pos(2) by auto
  have L: "get_last_lsn s = ?L" using log_range_last [OF range links ne(1)] len by simp
  have us: "map fst ?us = [Suc lo..<Suc ?L]" "lo \<le> bd_last (hd ?bs)" using range ne by (simp_all add: log_range_def Let_def)
  have sorted: "sorted (map fst ?us)" "sorted_wrt (<) (map fst ?us)" unfolding us(1) by simp_all
  have hsj: "drop j ?hs = (?bs ! j, snd (hist ! j)) # drop (Suc j) ?hs"
    using pos(2) len by (simp add: Cons_nth_drop_Suc [symmetric])
  have lastj: "last (drop j ?hs) = (last ?bs, snd (last hist))"
    using pos(2) len ne by (subst last_drop, simp, subst last_zip) (use pos(2) in \<open>auto simp: last_map\<close>)
  have linksj: "log_links c ?us ((?bs ! j, snd (hist ! j)) # drop (Suc j) ?hs)"
    using log_links_drop [OF links, of j] hsj by simp
  have l: "lo \<le> ?l" "?l < ?L" using log_bounds [OF sim range pos(2)] by simp_all
  have ms: "map snd (drop j hist) = snd (hist ! j) # map snd (drop (Suc j) ?hs)"
    using pos(2) len by (simp add: Cons_nth_drop_Suc [symmetric] drop_map drop_zip)
  have cur: "map_of (vs_data s) = snd (last hist)" using sim ne by (simp add: store_sim_def current_def)
  have un: "undone c (between ?l ?L ?us) (map_of (vs_data s)) = ?r"
    using undone_links [OF linksj sorted(1)] lastj unfolding hsj ms cur by simp
  have "\<forall>(n, x) \<in> set (between ?l ?L ?us). \<exists>u. undo_of_bytes c x = Inr u"
    using links_decode [OF linksj sorted(1)] lastj unfolding hsj by simp
  from rollback_log [OF us(1) l this, of s "vs_data s"] obtain kvs' us1 where
    loop: "undo_loop c s (Suc ?l) (rev ?us) (vs_data s, ?us) = Inr (kvs', us1)" "map_of kvs' = ?r"
    "map fst us1 = [Suc lo..<Suc ?l]" "us1 = filter (\<lambda>(n, _). n \<le> ?l) ?us" unfolding un by blast
  let ?s = "s\<lparr>vs_data := kvs', vs_undo := us1, vs_boundaries := take (j + 1) ?bs\<rparr>"
  have usne: "?us \<noteq> []" using arg_cong [OF us(1), of length] l by auto
  have "seek_back ?L ?us = Inr (rev ?us)"
    using seek_back_last [OF sorted(2) usne] upt_last [OF us(1) usne] by simp
  then have "rollback_to c v s = Inr ?s"
    using store_sim_position [OF sim, of v] pos len loop(1) L lsn l
    by (simp add: rollback_to_def index_def lsn_succ_def)
  moreover have "store_sim c ?s (spec_rollback v hist)"
    using rolled_back_sim [OF sim range pos(1) loop(2-4)] pos(1) by (simp add: spec_rollback_def)
  moreover have "get_last_lsn ?s \<le> get_last_lsn s"
    using upt_last [OF loop(3)] l L by (simp add: get_last_lsn_def)
  ultimately show ?thesis by simp
qed

section \<open>Update\<close>

text \<open>A transaction that has processed \<open>keys\<close> and reached the contents \<open>m\<close>.\<close>

definition tx_sim ::
  "('t, 'k, 'v) store_codec \<Rightarrow> 't versioned_store \<Rightarrow> bytes list \<Rightarrow> (bytes \<rightharpoonup> bytes) \<Rightarrow> store_tx \<Rightarrow> bool" where
  "tx_sim c s keys m tx \<longleftrightarrow>
     (case tx of (lsn, kvs, undos) \<Rightarrow>
        map_of kvs = m \<and> get_last_lsn s \<le> lsn \<and> lsn \<le> get_last_lsn s + length keys \<and>
        (\<exists>new. undos = vs_undo s @ new \<and> map fst new = [Suc (get_last_lsn s)..<Suc lsn] \<and>
          (\<forall>(n, bs) \<in> set new. \<exists>u. undo_of_bytes c bs = Inr u \<and> map_of (vs_data s) (undo_key u) = Some (undo_value u)) \<and>
          (\<forall>k \<in> set keys. map_of (vs_data s) k \<noteq> None \<longrightarrow>
             (\<exists>(n, bs) \<in> set new. \<exists>u. undo_of_bytes c bs = Inr u \<and> undo_key u = k))))"

lemma put_undo_last: "\<forall>x \<in> set us. fst x < n \<Longrightarrow> put_undo n b us = us @ [(n, b)]"
  by (induction us) auto

text \<open>What an update needs: sizes that fit the encoding of undo records, and versions that decode.\<close>

definition codec_ok :: "('t, 'k, 'v) store_codec \<Rightarrow> bool" where
  "codec_ok c \<longleftrightarrow>
     (\<forall>v. length (ver_bytes c v) \<le> 255 \<and> ver_of_bytes c (ver_bytes c v) = Some v) \<and>
     (\<forall>k. ser_key c k \<noteq> [] \<and> length (ser_key c k) \<le> 255) \<and>
     (\<forall>v. ser_val c v \<noteq> [] \<and> de_val c (ser_val c v) = Some v)"

lemma log_undo_sim:
  assumes "tx_sim c s keys m (lsn, kvs, undos)" "codec_ok c" "map_of (vs_data s) k = Some old" "old \<noteq> []"
    and "k = ser_key c key" "get_last_lsn s + length keys + 1 < 2 ^ 32"
    and "\<forall>x \<in> set (vs_undo s). fst x \<le> get_last_lsn s"
  shows "\<exists>undos'. log_undo c v k old (lsn, kvs, undos) = Inr (lsn + 1, kvs, undos') \<and>
    tx_sim c s (k # keys) m (lsn + 1, kvs, undos')"
proof -
  obtain new where new: "undos = vs_undo s @ new" "map fst new = [Suc (get_last_lsn s)..<Suc lsn]"
    "\<forall>(n, bs) \<in> set new. \<exists>u. undo_of_bytes c bs = Inr u \<and> map_of (vs_data s) (undo_key u) = Some (undo_value u)"
    "\<forall>k \<in> set keys. map_of (vs_data s) k \<noteq> None \<longrightarrow>
       (\<exists>(n, bs) \<in> set new. \<exists>u. undo_of_bytes c bs = Inr u \<and> undo_key u = k)"
    "map_of kvs = m" "lsn \<le> get_last_lsn s + length keys" "get_last_lsn s \<le> lsn"
    using assms(1) unfolding tx_sim_def by auto
  let ?u = "\<lparr>undo_version = v, undo_key = k, undo_value = old\<rparr>"
  obtain b where b: "undo_to_bytes c ?u = Inr b" using assms(2,4,5) by (auto simp: undo_to_bytes_Inr codec_ok_def)
  have dec: "undo_of_bytes c b = Inr ?u" using undo_of_to_bytes [OF b] assms(2) by (simp add: codec_ok_def)
  have "\<forall>x \<in> set undos. fst x < lsn + 1" using assms(7) new(1,7) upt_bounds [OF new(2)] by fastforce
  then have put: "put_undo (lsn + 1) b undos = vs_undo s @ new @ [(lsn + 1, b)]" using new(1) by (simp add: put_undo_last)
  have "tx_sim c s (k # keys) m (lsn + 1, kvs, vs_undo s @ new @ [(lsn + 1, b)])"
    unfolding tx_sim_def prod.case
  proof (intro conjI exI [of _ "new @ [(lsn + 1, b)]"])
    show "\<forall>k' \<in> set (k # keys). map_of (vs_data s) k' \<noteq> None \<longrightarrow>
        (\<exists>(n, bs) \<in> set (new @ [(lsn + 1, b)]). \<exists>u. undo_of_bytes c bs = Inr u \<and> undo_key u = k')"
      using new(4) dec by fastforce
  qed (use new dec assms(3) in \<open>auto simp: upt_Suc\<close>)
  then show ?thesis using b put new(6) assms(6) by (simp add: log_undo_def lsn_succ_def)
qed

lemma tx_sim_kvs:
  "tx_sim c s keys m (lsn, kvs, undos) \<Longrightarrow> map_of kvs' = m' \<Longrightarrow> tx_sim c s keys m' (lsn, kvs', undos)"
  by (simp add: tx_sim_def)

lemma tx_sim_skip:
  "tx_sim c s keys m tx \<Longrightarrow> map_of (vs_data s) k = None \<Longrightarrow> tx_sim c s (k # keys) m tx"
  unfolding tx_sim_def by (fastforce split: prod.splits)

definition update_ready :: "('t, 'k, 'v) store_codec \<Rightarrow> 't versioned_store \<Rightarrow> bool" where
  "update_ready c s \<longleftrightarrow>
     codec_ok c \<and> [] \<notin> ran (map_of (vs_data s)) \<and> (\<forall>x \<in> set (vs_undo s). fst x \<le> get_last_lsn s)"

lemma log_existing_sim:
  assumes "tx_sim c s keys m tx" "update_ready c s" "get_last_lsn s + length keys + 1 < 2 ^ 32"
  shows "\<exists>tx'. (case map_of (vs_data s) (ser_key c k) of
      Some old \<Rightarrow> log_undo c v (ser_key c k) old tx | None \<Rightarrow> Inr tx) = Inr tx' \<and>
    fst (snd tx') = fst (snd tx) \<and> tx_sim c s (ser_key c k # keys) m tx'"
proof (cases "map_of (vs_data s) (ser_key c k)")
  case None
  then show ?thesis using tx_sim_skip [OF assms(1) None] by simp
next
  case (Some old)
  obtain lsn kvs undos where tx: "tx = (lsn, kvs, undos)" by (cases tx)
  have "old \<noteq> []" using assms(2) Some by (auto simp: update_ready_def ran_def)
  then show ?thesis
    using log_undo_sim [of c s keys m lsn kvs undos "ser_key c k" old k v] assms tx Some
    by (auto simp: update_ready_def)
qed

lemma remove_keys_sim:
  assumes "tx_sim c s keys m tx" "update_ready c s" "get_last_lsn s + length keys + length ks < 2 ^ 32"
    and "m \<subseteq>\<^sub>m map_of (vs_data s)"
  shows "\<exists>tx'. res_fold (remove_key c s v) tx ks = Inr tx' \<and>
    tx_sim c s (rev (map (ser_key c) ks) @ keys) (removed_keys c ks m) tx'"
  using assms
proof (induction ks arbitrary: keys m tx)
  case (Cons k ks)
  let ?k = "ser_key c k"
  obtain tx1 where tx1: "(case map_of (vs_data s) ?k of Some old \<Rightarrow> log_undo c v ?k old tx | None \<Rightarrow> Inr tx) = Inr tx1"
    "fst (snd tx1) = fst (snd tx)" "tx_sim c s (?k # keys) m tx1"
    using log_existing_sim [OF Cons.prems(1,2), where k = k and v = v] Cons.prems(3) by auto
  obtain lsn kvs undos where split: "tx1 = (lsn, kvs, undos)" by (cases tx1)
  have "\<exists>tx'. remove_key c s v tx k = Inr tx' \<and> tx_sim c s (?k # keys) (m(?k := None)) tx'"
  proof (cases "map_of (vs_data s) ?k")
    case None
    then have "m ?k = None" using Cons.prems(4) by (metis domIff map_le_implies_dom_le subsetD)
    then show ?thesis using None tx1 by (auto simp: remove_key_def fun_upd_idem)
  next
    case (Some old)
    then show ?thesis using tx1(1,3) split by (auto simp: remove_key_def delete_conv' tx_sim_def)
  qed
  then obtain tx' where tx': "remove_key c s v tx k = Inr tx'" "tx_sim c s (?k # keys) (m(?k := None)) tx'" by blast
  have le: "m(?k := None) \<subseteq>\<^sub>m map_of (vs_data s)" using Cons.prems(4) by (auto simp: map_le_def)
  show ?case
    using Cons.IH [OF tx'(2) Cons.prems(2) _ le] tx'(1) Cons.prems(3)
    by (simp add: removed_keys_def del: fun_upd_apply split_paired_Ex)
qed (auto simp: removed_keys_def)

lemma update_keys_sim:
  assumes "tx_sim c s keys m tx" "update_ready c s" "get_last_lsn s + length keys + length kvs < 2 ^ 32"
  shows "\<exists>tx'. res_fold (update_key c s v) tx kvs = Inr tx' \<and>
    tx_sim c s (rev (map (\<lambda>(k, _). ser_key c k) kvs) @ keys) (updated_keys c kvs m) tx'"
  using assms
proof (induction kvs arbitrary: keys m tx)
  case (Cons kv kvs)
  obtain k x where kv: "kv = (k, x)" by (cases kv)
  let ?k = "ser_key c k" and ?m = "m(ser_key c k \<mapsto> ser_val c x)"
  obtain tx1 where tx1: "(case map_of (vs_data s) ?k of Some old \<Rightarrow> log_undo c v ?k old tx | None \<Rightarrow> Inr tx) = Inr tx1"
    "tx_sim c s (?k # keys) m tx1"
    using log_existing_sim [OF Cons.prems(1,2), where k = k and v = v] Cons.prems(3) by auto
  obtain lsn dat undos where split: "tx1 = (lsn, dat, undos)" by (cases tx1)
  have "?k \<noteq> []" using Cons.prems(2) by (simp add: update_ready_def codec_ok_def)
  then have "update_key c s v tx kv = Inr (lsn, AList.update ?k (ser_val c x) dat, undos)"
    using tx1(1) split kv by (simp add: update_key_def Let_def res_assert_def)
  moreover have sim: "tx_sim c s (?k # keys) ?m (lsn, AList.update ?k (ser_val c x) dat, undos)"
    using tx1(2) split by (simp add: tx_sim_def update_conv')
  ultimately show ?case
    using Cons.IH [OF sim Cons.prems(2)] Cons.prems(3) kv
    by (simp add: updated_keys_def del: fun_upd_apply split_paired_Ex)
qed (auto simp: updated_keys_def)

lemma fold_delete_undo: "fold delete_undo ns us = filter (\<lambda>(n, _). n \<notin> set ns) us"
proof (induction ns arbitrary: us)
  case (Cons n ns)
  then show ?case by (auto simp: delete_undo_def intro!: filter_cong)
qed (simp add: filter_id_conv)

lemma filter_upt: "lo \<le> a \<Longrightarrow> filter (\<lambda>n. a < n) [Suc lo..<b] = [Suc a..<b]"
  by (induction b) (auto simp: upt_Suc)

lemma map_fst_filter: "map fst (filter (\<lambda>(n, _). P n) us) = filter P (map fst us)"
  by (induction us) auto

text \<open>Forgetting the oldest version.\<close>

lemma prune_sim:
  assumes sim: "store_sim c s hist" and bs: "vs_boundaries s = b0 # b1 # bs"
  shows "store_sim c (s\<lparr>vs_undo := fold delete_undo [bd_first b0..<Suc (bd_last b0)] (vs_undo s), vs_boundaries := b1 # bs\<rparr>)
    (tl hist)"
proof -
  let ?us = "vs_undo s" and ?L = "bd_last (last (b1 # bs))"
  have "length hist = length (b0 # b1 # bs)" using store_sim_length [OF sim] bs by simp
  then obtain h0 h1 hs where hist: "hist = h0 # h1 # hs" by (cases hist; cases "tl hist") auto
  have links: "bd_last b0 < bd_last b1" "bd_first b1 = Suc (bd_last b0)"
    "log_links c ?us ((b1, snd h1) # zip bs (map snd hs))" using sim bs hist by (simp_all add: store_sim_def)
  obtain lo where lo: "map fst ?us = [Suc lo..<Suc ?L]" "lo \<le> bd_last b0" "bd_first b0 \<le> Suc lo"
    using sim bs by (auto simp: store_sim_def log_range_def Let_def)
  have "fold delete_undo [bd_first b0..<Suc (bd_last b0)] ?us = filter (\<lambda>(n, _). bd_last b0 < n) ?us"
    unfolding fold_delete_undo using upt_bounds [OF lo(1)] lo(3) by (intro filter_cong) fastforce+
  moreover have "map fst (filter (\<lambda>(n, _). bd_last b0 < n) ?us) = [Suc (bd_last b0)..<Suc ?L]"
    using lo by (simp add: map_fst_filter filter_upt)
  moreover have "log_links c (filter (\<lambda>(n, _). bd_last b0 < n) ?us) ((b1, snd h1) # zip bs (map snd hs))"
    using links by (intro log_links_cong [OF links(3)]) auto
  ultimately show ?thesis
    using sim bs hist links unfolding store_sim_def by (auto simp: log_range_def Let_def current_def intro!: exI [of _ "bd_last b0"])
qed

lemma unchanged_keys:
  "k \<notin> ser_key c ` set to_remove \<Longrightarrow> removed_keys c to_remove m k = m k"
  "k \<notin> (\<lambda>(k, _). ser_key c k) ` set to_update \<Longrightarrow> updated_keys c to_update m k = m k"
proof -
  show "k \<notin> ser_key c ` set to_remove \<Longrightarrow> removed_keys c to_remove m k = m k"
    unfolding removed_keys_def by (induction to_remove arbitrary: m) auto
  show "k \<notin> (\<lambda>(k, _). ser_key c k) ` set to_update \<Longrightarrow> updated_keys c to_update m k = m k"
    unfolding updated_keys_def by (induction to_update arbitrary: m) auto
qed

lemma removed_keys_ran: "ran m \<subseteq> R \<Longrightarrow> ran (removed_keys c to_remove m) \<subseteq> R"
  unfolding removed_keys_def
proof (induction to_remove arbitrary: m)
  case (Cons k ks)
  have "ran (m(ser_key c k := None)) \<subseteq> R" using Cons.prems unfolding ran_def by (auto split: if_splits)
  then show ?case using Cons.IH by (simp del: fun_upd_apply)
qed simp

lemma updated_keys_ran:
  "ran m \<subseteq> range (ser_val c) \<Longrightarrow> ran (updated_keys c to_update m) \<subseteq> range (ser_val c)"
  unfolding updated_keys_def
proof (induction to_update arbitrary: m)
  case (Cons kv kvs)
  have "ran (m(ser_key c (fst kv) \<mapsto> ser_val c (snd kv))) \<subseteq> range (ser_val c)"
    using Cons.prems unfolding ran_def by (auto split: if_splits)
  then show ?case using Cons.IH by (simp add: case_prod_beta del: fun_upd_apply)
qed simp

text \<open>The state after the changes, before the oldest version is forgotten.\<close>

lemma push_links:
  assumes "log_links c us (zip bs ms @ [(b, m0)])" "map fst new = [Suc (bd_last b)..<Suc lsn]" "bd_last b < lsn"
    and "\<forall>x \<in> set us. fst x \<le> bd_last b" "undo_block c new m0 m"
  shows "log_links c (us @ new) (zip bs ms @ [(b, m0), (\<lparr>bd_version = v, bd_first = bd_last b + 1, bd_last = lsn\<rparr>, m)])"
proof -
  have "between (bd_last b) lsn (us @ new) = new"
    unfolding between_def using assms(4) upt_bounds [OF assms(2)] by (intro filter_right) fastforce+
  moreover have "log_links c (us @ new) (zip bs ms @ [(b, m0)])"
    using upt_bounds [OF assms(2)] by (intro log_links_cong [OF assms(1)]) fastforce
  ultimately show ?thesis using assms(3,5) by (simp add: log_links_snoc)
qed

lemma upt_append: "a \<le> b \<Longrightarrow> b \<le> d \<Longrightarrow> [Suc a..<Suc b] @ [Suc b..<Suc d] = [Suc a..<Suc d]"
  using upt_add_eq_append [of "Suc a" "Suc b" "d - b"] by simp

lemma tx_sim_block:
  assumes sim: "store_sim c s hist" and tx: "tx_sim c s keys m (lsn, kvs, undos)"
    and m: "\<And>k. k \<notin> set keys \<Longrightarrow> m k = current hist k"
  obtains new where "undos = vs_undo s @ new" "map fst new = [Suc (get_last_lsn s)..<Suc lsn]"
    "undo_block c new (current hist) m" "map_of kvs = m" "get_last_lsn s \<le> lsn"
    "(\<exists>k \<in> set keys. current hist k \<noteq> None) \<Longrightarrow> new \<noteq> []" "current hist = Map.empty \<Longrightarrow> new = []"
proof -
  have cur: "map_of (vs_data s) = current hist" using sim by (simp add: store_sim_def)
  obtain new where new: "undos = vs_undo s @ new" "map fst new = [Suc (get_last_lsn s)..<Suc lsn]"
    "\<forall>(n, bs) \<in> set new. \<exists>u. undo_of_bytes c bs = Inr u \<and> current hist (undo_key u) = Some (undo_value u)"
    "\<forall>k \<in> set keys. current hist k \<noteq> None \<longrightarrow>
       (\<exists>(n, bs) \<in> set new. \<exists>u. undo_of_bytes c bs = Inr u \<and> undo_key u = k)"
    "map_of kvs = m" "get_last_lsn s \<le> lsn"
    using tx unfolding tx_sim_def cur by auto
  have "undo_block c new (current hist) m"
    unfolding undo_block_def
  proof (intro conjI allI impI)
    fix k x
    assume "current hist k = Some x" "m k \<noteq> Some x"
    then have "k \<in> set keys" "current hist k \<noteq> None" using m [of k] by (cases "k \<in> set keys"; auto)+
    then show "\<exists>(n, bs) \<in> set new. \<exists>u. undo_of_bytes c bs = Inr u \<and> undo_key u = k" using new(4) by blast
  qed (fact new(3))
  moreover have "new \<noteq> []" if "\<exists>k \<in> set keys. current hist k \<noteq> None" using that new(4) by (cases new) auto
  moreover have "new = []" if "current hist = Map.empty" using that new(3) by (cases new) auto
  ultimately show thesis using that new by blast
qed

lemma push_sim:
  assumes sim: "store_sim c s hist" and tx: "tx_sim c s keys m (lsn, kvs, undos)"
    and m: "ran m \<subseteq> range (ser_val c)" "\<And>k. k \<notin> set keys \<Longrightarrow> m k = current hist k"
    and touch: "hist = [] \<or> (\<exists>k \<in> set keys. current hist k \<noteq> None)"
  shows "store_sim c (s\<lparr>vs_data := kvs, vs_undo := undos, vs_boundaries := vs_boundaries s @
      [\<lparr>bd_version = v, bd_first = if lsn = get_last_lsn s then lsn else get_last_lsn s + 1, bd_last = lsn\<rparr>]\<rparr>)
    (hist @ [(v, m)])"
proof -
  let ?L = "get_last_lsn s" and ?us = "vs_undo s"
  obtain new where new: "undos = ?us @ new" "map fst new = [Suc ?L..<Suc lsn]" "undo_block c new (current hist) m"
    "map_of kvs = m" "?L \<le> lsn" "(\<exists>k \<in> set keys. current hist k \<noteq> None) \<Longrightarrow> new \<noteq> []"
    "current hist = Map.empty \<Longrightarrow> new = []"
    by (rule tx_sim_block [OF sim tx m(2)]) simp_all
  have len: "length (vs_boundaries s) = length hist" by (rule store_sim_length [OF sim])
  show ?thesis
  proof (cases hist rule: rev_cases)
    case Nil
    then have "vs_boundaries s = []" "?us = []" using sim len by (auto simp: store_sim_def log_range_def)
    moreover have "new = []" using new(7) Nil by (simp add: current_def)
    ultimately show ?thesis
      using Nil new m by (auto simp: store_sim_def log_range_def get_last_lsn_def current_def Let_def)
  next
    case (snoc hist' h)
    then obtain bs b where bs: "vs_boundaries s = bs @ [b]" "length bs = length hist'"
      using len by (cases "vs_boundaries s" rule: rev_cases) auto
    obtain lo where range: "log_range lo s" using sim by (auto simp: store_sim_def)
    have links: "log_links c ?us (zip bs (map snd hist') @ [(b, snd h)])"
      using sim bs snoc by (simp add: store_sim_def)
    have srt: "sorted_wrt (<) (map bd_last (bs @ [b]))"
      using log_links_sorted [OF links] bs(2) by (simp add: map_fst_zip')
    have "log_links c ?us (zip (vs_boundaries s) (map snd hist))" using sim by (simp add: store_sim_def)
    from log_range_last [OF range this] have L: "?L = bd_last b" using bs len by simp
    have lo: "lo \<le> ?L" using range srt bs L by (cases bs) (auto simp: log_range_def Let_def)
    have us: "map fst ?us = [Suc lo..<Suc ?L]" using range bs L by (simp add: log_range_def Let_def)
    have "new \<noteq> []" using touch snoc new(6) by simp
    then have lsn: "?L < lsn" using arg_cong [OF new(2), of length] by (cases "lsn \<le> ?L") auto
    have "\<forall>x \<in> set ?us. fst x \<le> bd_last b" using upt_bounds [OF us] L by fastforce
    from push_links [OF links _ _ this] have
      "log_links c (?us @ new) (zip bs (map snd hist') @ [(b, snd h), (\<lparr>bd_version = v, bd_first = bd_last b + 1, bd_last = lsn\<rparr>, m)])"
      using new(2,3) lsn L snoc by (simp add: current_def)
    moreover have "map fst (?us @ new) = [Suc lo..<Suc lsn]"
      using us new(2) lo lsn by (simp add: upt_append)
    moreover have hd: "hd (bs @ [b, x]) = hd (bs @ [b])" for x by (cases bs) simp_all
    ultimately show ?thesis
      using sim range bs snoc new(1,4) lsn L m(1)
      unfolding store_sim_def log_range_def Let_def current_def
      by (intro conjI exI [of _ lo]) (simp_all add: hd)
  qed
qed

lemma store_sim_last:
  "store_sim c s hist \<Longrightarrow> vs_boundaries s \<noteq> [] \<Longrightarrow> get_last_lsn s = bd_last (last (vs_boundaries s))"
  using log_range_last [of _ s c "map snd hist"] store_sim_length [of c s hist] by (auto simp: store_sim_def)

lemma current_ran: "store_sim c s hist \<Longrightarrow> ran (current hist) \<subseteq> range (ser_val c)"
  by (auto simp: store_sim_def current_def)

lemma store_sim_ready:
  assumes sim: "store_sim c s hist" and c: "codec_ok c"
  shows "update_ready c s"
proof -
  have "[] \<notin> ran (current hist)" using current_ran [OF sim] c unfolding codec_ok_def by (metis rangeE subsetD)
  moreover have "fst x \<le> get_last_lsn s" if "x \<in> set (vs_undo s)" for x
  proof (cases "vs_boundaries s = []")
    case False
    then obtain lo where "map fst (vs_undo s) = [Suc lo..<Suc (bd_last (last (vs_boundaries s)))]"
      using sim by (auto simp: store_sim_def log_range_def Let_def)
    from upt_bounds [OF this that] show ?thesis using store_sim_last [OF sim False] by simp
  qed (use sim that in \<open>auto simp: store_sim_def log_range_def\<close>)
  ultimately show ?thesis using sim c by (simp add: update_ready_def store_sim_def)
qed

text \<open>The oldest version is forgotten in the same transaction.\<close>

lemma prune_push_sim:
  assumes "store_sim c (s\<lparr>vs_data := kvs, vs_undo := undos, vs_boundaries := vs_boundaries s @ [b]\<rparr>) (hist @ [h])"
    and "length (vs_boundaries s) = length hist"
    and "prune_versions n (vs_boundaries s) undos = (bs, undos')"
  shows "store_sim c (s\<lparr>vs_data := kvs, vs_undo := undos', vs_boundaries := bs @ [b]\<rparr>)
    ((if length hist = n + 1 then tl hist else hist) @ [h])"
proof (cases "length hist = n + 1")
  case True
  then obtain b0 bs0 h0 hs where bs: "vs_boundaries s = b0 # bs0" "hist = h0 # hs"
    using assms(2) by (cases "vs_boundaries s"; cases hist) auto
  obtain b1 bs1 where "bs0 @ [b] = b1 # bs1" by (cases "bs0 @ [b]") auto
  then show ?thesis
    using prune_sim [OF assms(1), of b0 b1 bs1] True assms(2,3) bs by (simp add: prune_versions_def)
next
  case False
  then show ?thesis using assms by (simp add: prune_versions_def)
qed

lemma update_sim:
  assumes sim: "store_sim c s hist" and c: "codec_ok c"
    and lsn: "get_last_lsn s + length to_remove + length to_update < 2 ^ 32"
    and touch: "hist = [] \<or> (\<exists>k \<in> ser_key c ` (set to_remove \<union> fst ` set to_update). current hist k \<noteq> None)"
  shows "\<exists>s'. update_store c v to_remove to_update s = Inr s' \<and>
    store_sim c s' (spec_update c (vs_num_versions s) v to_remove to_update hist) \<and>
    vs_num_versions s' = vs_num_versions s \<and> get_last_lsn s' \<le> get_last_lsn s + length to_remove + length to_update"
proof (cases "to_remove = [] \<and> to_update = []")
  case True
  then show ?thesis using sim by (simp add: update_store_def spec_update_def)
next
  case False
  note ready = store_sim_ready [OF sim c]
  have "tx_sim c s [] (current hist) (get_last_lsn s, vs_data s, vs_undo s)"
    using sim by (simp add: tx_sim_def store_sim_def)
  from remove_keys_sim [OF this ready, of to_remove v] obtain tx1 where
    tx1: "res_fold (remove_key c s v) (get_last_lsn s, vs_data s, vs_undo s) to_remove = Inr tx1"
      "tx_sim c s (rev (map (ser_key c) to_remove)) (removed_keys c to_remove (current hist)) tx1"
    using lsn sim by (auto simp: store_sim_def)
  let ?keys = "rev (map (\<lambda>(k, _). ser_key c k) to_update) @ rev (map (ser_key c) to_remove)"
  let ?m = "updated_keys c to_update (removed_keys c to_remove (current hist))"
  obtain lsn kvs undos where
    tx2: "res_fold (update_key c s v) tx1 to_update = Inr (lsn, kvs, undos)" "tx_sim c s ?keys ?m (lsn, kvs, undos)"
    using update_keys_sim [OF tx1(2) ready, of to_update v] assms(3) by auto
  let ?b = "\<lparr>bd_version = v, bd_first = if lsn = get_last_lsn s then lsn else get_last_lsn s + 1, bd_last = lsn\<rparr>"
  obtain bs undos' where prune: "prune_versions (vs_num_versions s) (vs_boundaries s) undos = (bs, undos')"
    by (cases "prune_versions (vs_num_versions s) (vs_boundaries s) undos")
  let ?s = "s\<lparr>vs_data := kvs, vs_undo := undos', vs_boundaries := bs @ [?b]\<rparr>"
  have "ran ?m \<subseteq> range (ser_val c)" using sim by (intro updated_keys_ran removed_keys_ran) (auto simp: store_sim_def current_def)
  moreover have "?m k = current hist k" if "k \<notin> set ?keys" for k
    using that by (simp add: unchanged_keys case_prod_beta)
  moreover have "hist = [] \<or> (\<exists>k \<in> set ?keys. current hist k \<noteq> None)"
    using touch by (auto simp: case_prod_beta)
  ultimately have "store_sim c (s\<lparr>vs_data := kvs, vs_undo := undos, vs_boundaries := vs_boundaries s @ [?b]\<rparr>) (hist @ [(v, ?m)])"
    by (rule push_sim [OF sim tx2(2)])
  from prune_push_sim [OF this store_sim_length [OF sim] prune]
  have sim': "store_sim c ?s (spec_update c (vs_num_versions s) v to_remove to_update hist)"
    using False by (auto simp: spec_update_def)
  moreover have "get_last_lsn ?s \<le> get_last_lsn s + length to_remove + length to_update"
    using store_sim_last [OF sim'] tx2(2) by (simp add: tx_sim_def)
  moreover have "update_store c v to_remove to_update s = Inr ?s"
    using False tx1(1) tx2(1) prune by (auto simp: update_store_def Let_def)
  ultimately show ?thesis by simp
qed

section \<open>Runs\<close>

datatype ('t, 'k, 'v) store_op = StoreUpdate 't "'k list" "('k \<times> 'v) list" | StoreRollback 't

fun store_step :: "('t, 'k, 'v) store_codec \<Rightarrow> 't versioned_store \<Rightarrow> ('t, 'k, 'v) store_op \<Rightarrow> 't versioned_store res" where
  "store_step c s (StoreUpdate v to_remove to_update) = update_store c v to_remove to_update s"
| "store_step c s (StoreRollback v) = rollback_to c v s"

fun spec_step :: "('t, 'k, 'v) store_codec \<Rightarrow> nat \<Rightarrow> 't versions \<Rightarrow> ('t, 'k, 'v) store_op \<Rightarrow> 't versions" where
  "spec_step c n hist (StoreUpdate v to_remove to_update) = spec_update c n v to_remove to_update hist"
| "spec_step c n hist (StoreRollback v) = spec_rollback v hist"

text \<open>
  Operations the store handles: after the first one every update changes or removes a key that
  exists, and a rollback goes back to a version that is kept and is not the current one.
\<close>

fun ok_op :: "('t, 'k, 'v) store_codec \<Rightarrow> 't versions \<Rightarrow> ('t, 'k, 'v) store_op \<Rightarrow> bool" where
  "ok_op c hist (StoreUpdate v to_remove to_update) \<longleftrightarrow>
     hist = [] \<or> (\<exists>k \<in> ser_key c ` (set to_remove \<union> fst ` set to_update). current hist k \<noteq> None)"
| "ok_op c hist (StoreRollback v) \<longleftrightarrow>
     (case position (\<lambda>h. fst h = v) hist of Some j \<Rightarrow> Suc j < length hist | None \<Rightarrow> False)"

fun ok_ops :: "('t, 'k, 'v) store_codec \<Rightarrow> nat \<Rightarrow> 't versions \<Rightarrow> ('t, 'k, 'v) store_op list \<Rightarrow> bool" where
  "ok_ops c n hist [] \<longleftrightarrow> True"
| "ok_ops c n hist (p # ops) \<longleftrightarrow> ok_op c hist p \<and> ok_ops c n (spec_step c n hist p) ops"

fun op_size :: "('t, 'k, 'v) store_op \<Rightarrow> nat" where
  "op_size (StoreUpdate v to_remove to_update) = length to_remove + length to_update"
| "op_size (StoreRollback v) = 0"

lemma step_sim:
  assumes "store_sim c s hist" "codec_ok c" "get_last_lsn s + op_size p < 2 ^ 32" "ok_op c hist p"
  shows "\<exists>s'. store_step c s p = Inr s' \<and> store_sim c s' (spec_step c (vs_num_versions s) hist p) \<and>
    vs_num_versions s' = vs_num_versions s \<and> get_last_lsn s' \<le> get_last_lsn s + op_size p"
proof (cases p)
  case (StoreUpdate v to_remove to_update)
  then show ?thesis using update_sim [OF assms(1,2), of to_remove to_update v] assms(3,4) by (simp add: add.assoc)
next
  case (StoreRollback v)
  then obtain j where "position (\<lambda>h. fst h = v) hist = Some j" "Suc j < length hist"
    using assms(4) by (auto split: option.splits)
  from rollback_sim [OF assms(1) this] show ?thesis using assms(3) StoreRollback by simp
qed

lemma run_sim:
  assumes "store_sim c s hist" "codec_ok c" "get_last_lsn s + sum_list (map op_size ops) < 2 ^ 32"
    and "ok_ops c (vs_num_versions s) hist ops"
  shows "\<exists>s'. res_fold (store_step c) s ops = Inr s' \<and>
    store_sim c s' (foldl (spec_step c (vs_num_versions s)) hist ops)"
  using assms
proof (induction ops arbitrary: s hist)
  case (Cons p ops)
  obtain s' where s': "store_step c s p = Inr s'" "store_sim c s' (spec_step c (vs_num_versions s) hist p)"
    "vs_num_versions s' = vs_num_versions s" "get_last_lsn s' \<le> get_last_lsn s + op_size p"
    using step_sim [OF Cons.prems(1,2), of p] Cons.prems(3,4) by auto
  then show ?case using Cons.IH [OF s'(2) Cons.prems(2)] Cons.prems(3,4) by simp
qed simp

lemma new_store_sim: "store_sim c (new_store fresh_db n) []"
  by (simp add: store_sim_def new_store_def fresh_db_def current_def log_range_def)

lemma new_store_simps [simp]:
  "vs_num_versions (new_store fresh_db n) = n" "get_last_lsn (new_store fresh_db n) = 0"
  by (simp_all add: new_store_def fresh_db_def get_last_lsn_def)

lemma get_values_sim:
  assumes "store_sim c s hist" "codec_ok c"
  shows "get_values c s keys = Inr (map (\<lambda>k. (k, map_option (\<lambda>b. the (de_val c b)) (current hist (ser_key c k)))) keys)"
proof -
  have cur: "map_of (vs_data s) = current hist" using assms(1) by (simp add: store_sim_def)
  have "\<exists>v. de_val c b = Some v" if "current hist k = Some b" for k b
  proof -
    have "b \<in> range (ser_val c)" using current_ran [OF assms(1)] that by (meson ranI subsetD)
    then show ?thesis using assms(2) by (auto simp: codec_ok_def)
  qed
  then have "(case current hist (ser_key c k) of
       Some value_bytes \<Rightarrow> res_bind (unwrap (de_val c value_bytes)) (\<lambda>v. Inr (k, Some v))
     | None \<Rightarrow> Inr (k, None)) = Inr (k, map_option (\<lambda>b. the (de_val c b)) (current hist (ser_key c k)))" for k
    by (fastforce split: option.split)
  then show ?thesis unfolding get_values_def cur by (induction keys) simp_all
qed

section \<open>Properties\<close>

text \<open>An undo record is recovered from its encoding, whenever it can be encoded at all.\<close>

theorem undo_bytes_roundtrip:
  assumes "ver_of_bytes c (ver_bytes c (undo_version u)) = Some (undo_version u)"
  shows "(case undo_to_bytes c u of
       Inr bs \<Rightarrow> undo_of_bytes c bs = Inr u
     | Inl e \<Rightarrow> e = AssertFailed \<and>
         (255 < length (ver_bytes c (undo_version u)) \<or> 255 < length (undo_key u) \<or> undo_value u = []))"
proof (cases "undo_to_bytes c u")
  case (Inl e)
  have "e = AssertFailed \<and>
      (255 < length (ver_bytes c (undo_version u)) \<or> 255 < length (undo_key u) \<or> undo_value u = [])"
    using Inl by (simp only: undo_to_bytes_Inl)
  then show ?thesis using Inl by simp
next
  case (Inr bs)
  then show ?thesis using undo_of_to_bytes [OF Inr assms] by simp
qed


text \<open>Going back to the current version makes the node panic, whatever the log.\<close>

theorem rollback_to_current_panics:
  assumes "position (\<lambda>b. bd_version b = v) (vs_boundaries s) = Some (length (vs_boundaries s) - 1)"
    and "\<forall>(lsn, b) \<in> set (vs_undo s). lsn \<le> bd_last (last (vs_boundaries s))"
  shows "\<exists>e. rollback_to c v s = Inl e"
proof -
  have "undo_loop c s f us tx \<noteq> Inr r" if "\<forall>(lsn, b) \<in> set us. lsn < f" for f us tx r
    using that by (induction us arbitrary: tx) (auto simp: res_simps Let_def split: if_splits)
  then have loop: "\<exists>e. undo_loop c s f us tx = Inl e" if "\<forall>(lsn, b) \<in> set us. lsn < f" for f us tx
    using that by (cases "undo_loop c s f us tx") auto
  let ?bs = "vs_boundaries s"
  have "?bs \<noteq> []" using assms(1) by auto
  then have ix: "index ?bs (length ?bs - 1) = Inr (last ?bs)" by (simp add: index_def last_conv_nth)
  show ?thesis
  proof (cases "seek_back (bd_last (last ?bs)) (vs_undo s)")
    case (Inr iter)
    then have "set iter \<subseteq> set (vs_undo s)" by (rule seek_back_set)
    then have "\<forall>x \<in> set iter. fst x \<le> bd_last (last ?bs)" using assms(2) by (auto simp: case_prod_beta)
    then have "\<forall>(lsn, b) \<in> set iter. lsn < bd_last (last ?bs) + 1" by (auto simp: less_Suc_eq_le)
    from loop [OF this, of "(vs_data s, vs_undo s)"] show ?thesis
      using assms(1) ix Inr by (auto simp: rollback_to_def lsn_succ_def Let_def)
  qed (use assms(1) ix in \<open>auto simp: rollback_to_def lsn_succ_def Let_def\<close>)
qed

text \<open>A codec for examples: keys, values and versions are bytes.\<close>

definition byte_codec :: "(8 word, 8 word, 8 word) store_codec" where
  "byte_codec =
     \<lparr>ver_bytes = (\<lambda>v. [v]), ver_of_bytes = (\<lambda>bs. case bs of [b] \<Rightarrow> Some b | _ \<Rightarrow> None),
      ser_key = (\<lambda>k. [k]), ser_val = (\<lambda>v. [v]), de_val = (\<lambda>bs. case bs of [b] \<Rightarrow> Some b | _ \<Rightarrow> None)\<rparr>"

lemma byte_codec_simps [simp]:
  "ver_bytes byte_codec v = [v]" "ver_of_bytes byte_codec [b] = Some b" "ser_key byte_codec k = [k]"
  "ser_val byte_codec x = [x]" "de_val byte_codec [x] = Some x"
  by (simp_all add: byte_codec_def)

lemmas store_eval = new_store_def fresh_db_def update_store_def remove_key_def update_key_def log_undo_def
  undo_to_bytes_def undo_of_bytes_def res_assert_def lsn_succ_def get_last_lsn_def prune_versions_def delete_undo_def
  rollback_to_def seek_back_def slice_def index_def checked_sub_def get_values_def Let_def upt_rec


theorem undo_bytes_roundtrip_witness:
  "(let u = \<lparr>undo_version = 7, undo_key = [1, 2], undo_value = [3]\<rparr>
    in undo_to_bytes byte_codec u = Inr [1, 2, 7, 1, 2, 3] \<and> undo_of_bytes byte_codec [1, 2, 7, 1, 2, 3] = Inr u)"
  using undo_bytes_roundtrip [of byte_codec "\<lparr>undo_version = 7, undo_key = [1, 2], undo_value = [3]\<rparr>"]
  by (simp add: undo_to_bytes_def res_assert_def)

lemma byte_codec_ok: "codec_ok byte_codec"
  by (simp add: codec_ok_def)

definition demo_ops :: "(8 word, 8 word, 8 word) store_op list" where
  "demo_ops = [StoreUpdate 0 [] [(1, 10), (2, 20)], StoreUpdate 1 [2] [(3, 30)], StoreUpdate 2 [1] [], StoreRollback 0]"


theorem rollback_to_current_panics_witness:
  "\<exists>e. rollback_to byte_codec 0 \<lparr>vs_data = [([1], [10])], vs_undo = [],
     vs_boundaries = [\<lparr>bd_version = 0, bd_first = 0, bd_last = 0\<rparr>], vs_num_versions = 1\<rparr> = Inl e"
  by (rule rollback_to_current_panics) simp_all

end
