(* ===== verification/Kes.thy ===== *)
theory Kes
  imports Prelude
begin

text \<open>
  Key-evolving signatures (\<open>spectrum-kes/src\<close>): a Merkle tree of one-time key pairs, of which the
  secret holds the key of the current period and the seeds of the periods to come. Hash function,
  elliptic curve and ECDSA are libraries: they are the record \<open>curve\<close>. Digests are their bytes. Heights
  and periods are \<open>u32\<close>; their arithmetic is checked.
\<close>

unbundle bit_operations_syntax

section \<open>Keys\<close>

text \<open>
  \<open>scalar_of_bytes\<close> is \<open>None\<close> for bytes that do not encode a scalar below the order of the group.
\<close>

record ('s, 'pk, 'sig) curve =
  hf :: "bytes \<Rightarrow> bytes"
  scalar_of_bytes :: "bytes \<Rightarrow> 's option"
  is_zero :: "'s \<Rightarrow> bool"
  scalar_public :: "'s \<Rightarrow> 'pk"
  pk_bytes :: "'pk \<Rightarrow> bytes"
  ecdsa_sign :: "'s \<Rightarrow> bytes \<Rightarrow> 'sig"
  ecdsa_verify :: "'pk \<Rightarrow> bytes \<Rightarrow> 'sig \<Rightarrow> bool"

definition nonzero_scalar :: "('s, 'pk, 'sig) curve \<Rightarrow> bytes \<Rightarrow> 's res" where
  "nonzero_scalar c b =
     res_bind (unwrap (scalar_of_bytes c b)) (\<lambda>s. if is_zero c s then Inl UnwrapNone else Inr s)"

definition key_pair_gen :: "('s, 'pk, 'sig) curve \<Rightarrow> bytes \<Rightarrow> ('s \<times> 'pk) res" where
  "key_pair_gen c seed = res_bind (nonzero_scalar c seed) (\<lambda>sk. Inr (sk, scalar_public c sk))"

definition hash_to_public_key :: "('s, 'pk, 'sig) curve \<Rightarrow> bytes \<Rightarrow> 'pk res" where
  "hash_to_public_key c h = res_bind (nonzero_scalar c h) (\<lambda>s. Inr (scalar_public c s))"

definition merge_public_keys :: "('s, 'pk, 'sig) curve \<Rightarrow> 'pk \<Rightarrow> 'pk \<Rightarrow> 'pk res" where
  "merge_public_keys c pk1 pk2 = hash_to_public_key c (hf c (hf c (pk_bytes c pk1 @ pk_bytes c pk2)))"

definition to_be_bytes :: "nat \<Rightarrow> bytes" where
  "to_be_bytes n = [of_nat (n div 2 ^ 24), of_nat (n div 2 ^ 16), of_nat (n div 2 ^ 8), of_nat n]"

definition concat_slot :: "nat \<Rightarrow> bytes \<Rightarrow> bytes" where
  "concat_slot current_slot message = message @ to_be_bytes current_slot"

definition partial_seed :: "('s, 'pk, 'sig) curve \<Rightarrow> bytes \<Rightarrow> bool \<Rightarrow> bytes" where
  "partial_seed c seed if_left = hf c (hf c ((if if_left then 1 else 2) # seed))"

definition double_the_seed :: "('s, 'pk, 'sig) curve \<Rightarrow> bytes \<Rightarrow> bytes \<times> bytes" where
  "double_the_seed c seed = (partial_seed c seed True, partial_seed c seed False)"

section \<open>The tree\<close>

text \<open>The key of the leftmost leaf, and the seeds of the right siblings on the way to it, top first.\<close>

fun left_branch_loop ::
  "('s, 'pk, 'sig) curve \<Rightarrow> nat \<Rightarrow> bytes \<Rightarrow> bytes list \<Rightarrow> ('s \<times> 'pk \<times> bytes list) res" where
  "left_branch_loop c 0 actual_seed branch_seeds = Inl ArithOverflow"
| "left_branch_loop c (Suc h) actual_seed branch_seeds =
     (let (seed_0, seed_1) = double_the_seed c actual_seed; branch_seeds = branch_seeds @ [seed_1]
      in if Suc h = 1
         then res_bind (key_pair_gen c seed_0) (\<lambda>(sk, pk). Inr (sk, pk, branch_seeds))
         else left_branch_loop c h seed_0 branch_seeds)"

definition get_left_merkle_tree_branch ::
  "('s, 'pk, 'sig) curve \<Rightarrow> nat \<Rightarrow> bytes \<Rightarrow> ('s \<times> 'pk \<times> bytes list) res" where
  "get_left_merkle_tree_branch c merkle_tree_high seed = left_branch_loop c merkle_tree_high seed []"

lemma left_branch_loop_length:
  "left_branch_loop c h seed acc = Inr (sk, pk, seeds) \<Longrightarrow> length seeds = length acc + h"
proof (induction c h seed acc rule: left_branch_loop.induct)
  case (2 c h seed acc)
  then show ?case by (cases "h = 0") (auto simp: double_the_seed_def Let_def res_simps)
qed simp

lemma res_bind_cong [fundef_cong]:
  "m = m' \<Longrightarrow> (\<And>x. m' = Inr x \<Longrightarrow> f x = g x) \<Longrightarrow> res_bind m f = res_bind m' g"
  by (cases m') auto

text \<open>\<open>sum_composition_pk_gen\<close> with its loop over the reversed seeds.\<close>

function sum_composition_pk_gen :: "('s, 'pk, 'sig) curve \<Rightarrow> nat \<Rightarrow> bytes \<Rightarrow> 'pk res"
  and sum_pk_loop :: "('s, 'pk, 'sig) curve \<Rightarrow> nat \<Rightarrow> bytes list \<Rightarrow> 'pk \<Rightarrow> 'pk res" where
  "sum_composition_pk_gen c merkle_tree_high seed =
     (if merkle_tree_high = 0 then res_bind (key_pair_gen c seed) (\<lambda>(_, pk). Inr pk)
      else res_bind (get_left_merkle_tree_branch c merkle_tree_high seed) (\<lambda>(_, pk0, branch_seeds).
             sum_pk_loop c 0 (rev branch_seeds) pk0))"
| "sum_pk_loop c high [] pk = Inr pk"
| "sum_pk_loop c high (seed # seeds) pk =
     res_bind (if high = 0 then res_bind (key_pair_gen c seed) (\<lambda>(_, pk). Inr pk)
               else sum_composition_pk_gen c high seed) (\<lambda>pk_right.
     res_bind (merge_public_keys c pk pk_right) (sum_pk_loop c (high + 1) seeds))"
  by pat_completeness auto
termination
  by (relation "measures
      [\<lambda>x. case x of Inl (c, h, s) \<Rightarrow> h | Inr (c, high, ss, pk) \<Rightarrow> high + length ss,
       \<lambda>x. case x of Inl _ \<Rightarrow> 1 | Inr _ \<Rightarrow> 0,
       \<lambda>x. case x of Inl _ \<Rightarrow> 0 | Inr (c, high, ss, pk) \<Rightarrow> length ss]")
    (auto simp: get_left_merkle_tree_branch_def dest!: left_branch_loop_length)

section \<open>Secrets\<close>

record ('s, 'pk) kes_secret =
  initial_merkle_tree_high :: nat
  n_hot_sk_updates :: nat
  hot_sk :: 's
  secret_hot_pk :: 'pk
  merkle_seeds :: "bytes list"
  merkle_public_keys :: "('pk \<times> 'pk) list"

record ('pk, 'sig) kes_signature =
  kes_sig :: 'sig
  hot_pk :: 'pk
  other_pks :: "'pk list"

fun kes_gen_loop ::
  "('s, 'pk, 'sig) curve \<Rightarrow> nat \<Rightarrow> bytes list \<Rightarrow> 'pk \<Rightarrow> ('pk \<times> 'pk) list \<Rightarrow> ('pk \<times> ('pk \<times> 'pk) list) res" where
  "kes_gen_loop c high [] pk_all_scheme keys = Inr (pk_all_scheme, keys)"
| "kes_gen_loop c high (seed # seeds) pk_all_scheme keys =
     res_bind (sum_composition_pk_gen c high seed) (\<lambda>pk_right.
     res_bind (merge_public_keys c pk_all_scheme pk_right) (\<lambda>pk_new.
       kes_gen_loop c (high + 1) seeds pk_new (keys @ [(pk_all_scheme, pk_right)])))"

definition kes_gen :: "('s, 'pk, 'sig) curve \<Rightarrow> nat \<Rightarrow> bytes \<Rightarrow> (('s, 'pk) kes_secret \<times> 'pk) res" where
  "kes_gen c merkle_tree_high seed =
     res_bind
       (if merkle_tree_high = 0
        then res_bind (key_pair_gen c seed) (\<lambda>(sk, pk). Inr (sk, pk, pk, [], []))
        else res_bind (get_left_merkle_tree_branch c merkle_tree_high seed) (\<lambda>(sk_0, pk_0, merkle_seeds).
             res_bind (kes_gen_loop c 0 (rev merkle_seeds) pk_0 []) (\<lambda>(pk_all_scheme, keys).
               Inr (sk_0, pk_0, pk_all_scheme, merkle_seeds, rev keys))))
       (\<lambda>(sk_actual, pk_actual, pk_all_scheme, merkle_seeds, merkle_public_keys).
          if length merkle_public_keys = merkle_tree_high \<and> length merkle_seeds = merkle_tree_high
          then Inr (\<lparr>initial_merkle_tree_high = merkle_tree_high, n_hot_sk_updates = 0, hot_sk = sk_actual,
                    secret_hot_pk = pk_actual, merkle_seeds = merkle_seeds,
                    merkle_public_keys = merkle_public_keys\<rparr>, pk_all_scheme)
          else Inl AssertFailed)"

section \<open>Evolution\<close>

fun count_ones :: "nat \<Rightarrow> nat" where
  "count_ones n = (if n = 0 then 0 else n mod 2 + count_ones (n div 2))"

declare count_ones.simps [simp del]

text \<open>Every range of the source starts at 0.\<close>

definition insert_in_vec :: "'a list \<Rightarrow> 'a list \<Rightarrow> nat \<Rightarrow> 'a list res" where
  "insert_in_vec source_vec cloned_vec n =
     (if n \<le> length cloned_vec then Inr (source_vec @ take n cloned_vec) else Inl IndexOutOfBounds)"

text \<open>A leaf next to the current one: its key is that of the last seed.\<close>

definition update_leaf ::
  "('s, 'pk, 'sig) curve \<Rightarrow> ('s, 'pk) kes_secret \<Rightarrow> nat
   \<Rightarrow> ('s \<times> 'pk \<times> bytes list \<times> ('pk \<times> 'pk) list) res" where
  "update_leaf c secret last_seed_ind =
     res_bind
       (if length (merkle_seeds secret) \<ge> 1
        then res_bind (insert_in_vec [] (merkle_seeds secret) last_seed_ind) (\<lambda>seeds.
             res_bind (insert_in_vec [] (merkle_public_keys secret) (initial_merkle_tree_high secret)) (\<lambda>pks.
               Inr (seeds, pks)))
        else Inr ([], [])) (\<lambda>(seeds, pks).
     res_bind (index (merkle_seeds secret) last_seed_ind) (\<lambda>seed.
     res_bind (key_pair_gen c seed) (\<lambda>(sk, pk). Inr (sk, pk, seeds, pks))))"

text \<open>A leaf in another branch: the keys of that branch are generated.\<close>

definition update_branch ::
  "('s, 'pk, 'sig) curve \<Rightarrow> ('s, 'pk) kes_secret \<Rightarrow> nat \<Rightarrow> nat
   \<Rightarrow> ('s \<times> 'pk \<times> bytes list \<times> ('pk \<times> 'pk) list) res" where
  "update_branch c secret last_seed_ind anc_num =
     (let pks = merkle_public_keys secret; high = initial_merkle_tree_high secret
      in res_bind (index (merkle_seeds secret) last_seed_ind) (\<lambda>seed.
         res_bind (kes_gen c (anc_num - 1) seed) (\<lambda>(secret_child, pk_child).
         res_bind
           (if length pks > 1
            then res_bind (if anc_num \<le> high then index pks (high - anc_num) else Inl IndexOutOfBounds) (\<lambda>p.
                 if snd p = pk_child then insert_in_vec [] (merkle_seeds secret) (length (merkle_seeds secret) - 1)
                 else Inl AssertFailed)
            else Inr []) (\<lambda>seeds.
         let n = length (merkle_public_keys secret_child)
         in res_bind (checked_sub (length pks) n) (\<lambda>keep.
            res_bind (insert_in_vec [] pks keep) (\<lambda>pks1.
            res_bind (insert_in_vec pks1 (merkle_public_keys secret_child) n) (\<lambda>pks2.
            res_bind (insert_in_vec seeds (merkle_seeds secret_child) n) (\<lambda>seeds2.
              if length pks2 = high then Inr (hot_sk secret_child, secret_hot_pk secret_child, seeds2, pks2)
              else Inl AssertFailed))))))))"

definition kes_update :: "('s, 'pk, 'sig) curve \<Rightarrow> ('s, 'pk) kes_secret \<Rightarrow> ('s, 'pk) kes_secret res" where
  "kes_update c secret =
     res_bind (checked_sub (length (merkle_seeds secret)) 1) (\<lambda>last_seed_ind.
       let n = n_hot_sk_updates secret; anc_num = count_ones (n XOR (n + 1))
       in res_bind (if anc_num = 1 then update_leaf c secret last_seed_ind
                    else update_branch c secret last_seed_ind anc_num) (\<lambda>(sk_new, pk_new, seeds_new, pks_new).
          if n + 1 < 2 ^ 32
          then Inr \<lparr>initial_merkle_tree_high = initial_merkle_tree_high secret, n_hot_sk_updates = n + 1,
                    hot_sk = sk_new, secret_hot_pk = pk_new, merkle_seeds = seeds_new,
                    merkle_public_keys = pks_new\<rparr>
          else Inl ArithOverflow))"

section \<open>Signing\<close>

text \<open>The siblings on the path of the current slot.\<close>

fun sign_loop :: "nat \<Rightarrow> nat \<Rightarrow> ('pk \<times> 'pk) list \<Rightarrow> 'pk list \<Rightarrow> 'pk list res" where
  "sign_loop leaf_high h [] acc = Inr acc"
| "sign_loop leaf_high h (p # pks) acc =
     (if leaf_high = 0 \<or> 32 < leaf_high then Inl ArithOverflow
      else let actual_high = 2 ^ (leaf_high - 1)
           in if h \<ge> actual_high then sign_loop (leaf_high - 1) (h - actual_high) pks (acc @ [fst p])
              else sign_loop (leaf_high - 1) h pks (acc @ [snd p]))"

definition kes_sign ::
  "('s, 'pk, 'sig) curve \<Rightarrow> bytes \<Rightarrow> ('s, 'pk) kes_secret \<Rightarrow> nat \<Rightarrow> ('pk, 'sig) kes_signature res" where
  "kes_sign c message secret current_slot =
     res_bind (sign_loop (initial_merkle_tree_high secret) current_slot (merkle_public_keys secret) []) (\<lambda>pks.
       Inr \<lparr>kes_sig = ecdsa_sign c (hot_sk secret) (concat_slot current_slot message),
            hot_pk = secret_hot_pk secret, other_pks = pks\<rparr>)"

section \<open>Verification\<close>

text \<open>The siblings from the leaf to the root; \<open>lvl\<close> is the level of the sibling.\<close>

fun scheme_pk_loop :: "('s, 'pk, 'sig) curve \<Rightarrow> nat \<Rightarrow> nat \<Rightarrow> 'pk list \<Rightarrow> 'pk \<Rightarrow> 'pk res" where
  "scheme_pk_loop c signing_period lvl [] scheme_pk = Inr scheme_pk"
| "scheme_pk_loop c signing_period lvl (pk # pks) scheme_pk =
     (if 32 \<le> lvl then Inl ArithOverflow
      else res_bind
        (if signing_period AND (push_bit lvl 1) \<noteq> 0 then merge_public_keys c pk scheme_pk
         else merge_public_keys c scheme_pk pk)
        (scheme_pk_loop c signing_period (lvl + 1) pks))"

definition calculate_scheme_pk_from_signature ::
  "('s, 'pk, 'sig) curve \<Rightarrow> ('pk, 'sig) kes_signature \<Rightarrow> nat \<Rightarrow> 'pk res" where
  "calculate_scheme_pk_from_signature c signature signing_period =
     scheme_pk_loop c signing_period 0 (rev (other_pks signature)) (hot_pk signature)"

definition kes_verify ::
  "('s, 'pk, 'sig) curve \<Rightarrow> ('pk, 'sig) kes_signature \<Rightarrow> bytes \<Rightarrow> 'pk \<Rightarrow> nat \<Rightarrow> bool res" where
  "kes_verify c signature message all_scheme_pk signing_slot =
     (let message_is_verified =
        ecdsa_verify c (hot_pk signature) (concat_slot signing_slot message) (kes_sig signature)
      in res_bind (calculate_scheme_pk_from_signature c signature signing_slot) (\<lambda>sig_scheme_pk.
           Inr (message_is_verified \<and>
             hf c (pk_bytes c sig_scheme_pk) = hf c (pk_bytes c all_scheme_pk))))"

end
