(* ===== verification/Kes_Correct.thy ===== *)
theory Kes_Correct
  imports Kes
begin

text \<open>
  Correctness of key-evolving signatures: the generated keys are those of the Merkle tree, the secret
  after any number of updates is the one of that period, and it signs for its period.
\<close>

section \<open>The Merkle tree\<close>

definition left_seed :: "('s, 'pk, 'sig) curve \<Rightarrow> bytes \<Rightarrow> bytes" where
  "left_seed c s = partial_seed c s True"

definition right_seed :: "('s, 'pk, 'sig) curve \<Rightarrow> bytes \<Rightarrow> bytes" where
  "right_seed c s = partial_seed c s False"

text \<open>The public key of the tree of a seed.\<close>

fun tree_pk :: "('s, 'pk, 'sig) curve \<Rightarrow> nat \<Rightarrow> bytes \<Rightarrow> 'pk res" where
  "tree_pk c 0 s = res_bind (key_pair_gen c s) (\<lambda>(_, pk). Inr pk)"
| "tree_pk c (Suc h) s =
     res_bind (tree_pk c h (left_seed c s)) (\<lambda>l.
     res_bind (tree_pk c h (right_seed c s)) (merge_public_keys c l))"

fun leftmost :: "('s, 'pk, 'sig) curve \<Rightarrow> nat \<Rightarrow> bytes \<Rightarrow> bytes" where
  "leftmost c 0 s = s"
| "leftmost c (Suc h) s = leftmost c h (left_seed c s)"

fun left_seeds :: "('s, 'pk, 'sig) curve \<Rightarrow> nat \<Rightarrow> bytes \<Rightarrow> bytes list" where
  "left_seeds c 0 s = []"
| "left_seeds c (Suc h) s = right_seed c s # left_seeds c h (left_seed c s)"

lemma length_left_seeds [simp]: "length (left_seeds c h s) = h"
  by (induction h arbitrary: s) simp_all

lemma left_branch_loop_eq:
  "left_branch_loop c (Suc h) s acc =
     res_bind (key_pair_gen c (leftmost c (Suc h) s)) (\<lambda>(sk, pk). Inr (sk, pk, acc @ left_seeds c (Suc h) s))"
proof (induction h arbitrary: s acc)
  case (Suc h)
  then show ?case
    by (simp add: double_the_seed_def left_seed_def right_seed_def del: left_branch_loop.simps(2)
        add: left_branch_loop.simps(2) [of c "Suc h"])
qed (simp add: double_the_seed_def left_seed_def right_seed_def)

lemma left_branch_eq:
  "0 < h \<Longrightarrow> get_left_merkle_tree_branch c h s =
     res_bind (key_pair_gen c (leftmost c h s)) (\<lambda>(sk, pk). Inr (sk, pk, left_seeds c h s))"
  using left_branch_loop_eq [of c "h - 1" s "[]"] by (simp add: get_left_merkle_tree_branch_def)

lemma sum_pk_loop_Nil: "sum_pk_loop c high [] = Inr"
  by (simp add: fun_eq_iff)

lemma sum_pk_loop_Cons:
  "sum_pk_loop c high (seed # seeds) = (\<lambda>pk. res_bind (sum_composition_pk_gen c high seed) (\<lambda>r.
     res_bind (merge_public_keys c pk r) (sum_pk_loop c (high + 1) seeds)))"
  by (simp add: fun_eq_iff)

declare sum_pk_loop.simps [simp del] sum_composition_pk_gen.simps [simp del]

lemma sum_pk_loop_append:
  "sum_pk_loop c j (xs @ ys) = (\<lambda>pk. res_bind (sum_pk_loop c j xs pk) (sum_pk_loop c (j + length xs) ys))"
  by (induction xs arbitrary: j) (simp_all add: sum_pk_loop_Nil sum_pk_loop_Cons res_bind_assoc)

lemma sum_pk_tree: "sum_composition_pk_gen c h s = tree_pk c h s"
proof (induction h arbitrary: s rule: less_induct)
  case (less h)
  have loop: "res_bind (tree_pk c 0 (leftmost c d t)) (sum_pk_loop c 0 (rev (left_seeds c d t))) = tree_pk c d t"
    if "d \<le> h" for d t
    using that
  proof (induction d arbitrary: t)
    case (Suc d)
    have "sum_pk_loop c d [right_seed c t] = (\<lambda>l. res_bind (tree_pk c d (right_seed c t)) (merge_public_keys c l))"
      using less.IH [of d] Suc.prems by (simp add: sum_pk_loop_Nil sum_pk_loop_Cons)
    then show ?case
      using Suc.IH [of "left_seed c t"] Suc.prems by (simp add: sum_pk_loop_append res_bind_assoc [symmetric])
  qed (simp add: sum_pk_loop_Nil)
  show ?case
  proof (cases "h = 0")
    case False
    then show ?thesis
      using loop [of h s] left_branch_eq [of h c s]
      by (simp add: sum_composition_pk_gen.simps [of c h s] res_bind_assoc case_prod_beta)
  qed (simp add: sum_composition_pk_gen.simps)
qed

section \<open>The secret of a period\<close>

definition pk_at :: "('s, 'pk, 'sig) curve \<Rightarrow> nat \<Rightarrow> bytes \<Rightarrow> 'pk" where
  "pk_at c h s = projr (tree_pk c h s)"

text \<open>The leaf of a period, the seeds of the subtrees to the right of its path, and the keys along it.\<close>

fun leaf_seed :: "('s, 'pk, 'sig) curve \<Rightarrow> nat \<Rightarrow> bytes \<Rightarrow> nat \<Rightarrow> bytes" where
  "leaf_seed c 0 s k = s"
| "leaf_seed c (Suc h) s k =
     (if k < 2 ^ h then leaf_seed c h (left_seed c s) k else leaf_seed c h (right_seed c s) (k - 2 ^ h))"

fun later_seeds :: "('s, 'pk, 'sig) curve \<Rightarrow> nat \<Rightarrow> bytes \<Rightarrow> nat \<Rightarrow> bytes list" where
  "later_seeds c 0 s k = []"
| "later_seeds c (Suc h) s k =
     (if k < 2 ^ h then right_seed c s # later_seeds c h (left_seed c s) k
      else later_seeds c h (right_seed c s) (k - 2 ^ h))"

fun path_pks :: "('s, 'pk, 'sig) curve \<Rightarrow> nat \<Rightarrow> bytes \<Rightarrow> nat \<Rightarrow> ('pk \<times> 'pk) list" where
  "path_pks c 0 s k = []"
| "path_pks c (Suc h) s k =
     (pk_at c h (left_seed c s), pk_at c h (right_seed c s)) #
     (if k < 2 ^ h then path_pks c h (left_seed c s) k else path_pks c h (right_seed c s) (k - 2 ^ h))"

definition period_secret :: "('s, 'pk, 'sig) curve \<Rightarrow> nat \<Rightarrow> bytes \<Rightarrow> nat \<Rightarrow> ('s, 'pk) kes_secret" where
  "period_secret c h s k =
     \<lparr>initial_merkle_tree_high = h, n_hot_sk_updates = k,
      hot_sk = fst (projr (key_pair_gen c (leaf_seed c h s k))),
      secret_hot_pk = snd (projr (key_pair_gen c (leaf_seed c h s k))),
      merkle_seeds = later_seeds c h s k, merkle_public_keys = path_pks c h s k\<rparr>"

lemma length_path_pks [simp]: "length (path_pks c h s k) = h"
  by (induction h arbitrary: s k) simp_all

lemma first_period: "leaf_seed c h s 0 = leftmost c h s" "later_seeds c h s 0 = left_seeds c h s"
  by (induction h arbitrary: s) simp_all

lemma tree_pk_Suc:
  assumes "tree_pk c (Suc h) s = Inr pk"
  shows "tree_pk c h (left_seed c s) = Inr (pk_at c h (left_seed c s))"
    and "tree_pk c h (right_seed c s) = Inr (pk_at c h (right_seed c s))"
    and "merge_public_keys c (pk_at c h (left_seed c s)) (pk_at c h (right_seed c s)) = Inr pk"
  using assms by (auto simp: res_simps pk_at_def)

lemma kes_gen_loop_append:
  "kes_gen_loop c j (xs @ ys) pk keys =
     res_bind (kes_gen_loop c j xs pk keys) (\<lambda>(pk, keys). kes_gen_loop c (j + length xs) ys pk keys)"
  by (induction xs arbitrary: j pk keys) (simp_all add: res_bind_assoc)

lemma kes_gen_loop_tree:
  "res_bind (tree_pk c 0 (leftmost c d s)) (\<lambda>pk. kes_gen_loop c 0 (rev (left_seeds c d s)) pk []) =
   res_bind (tree_pk c d s) (\<lambda>pk. Inr (pk, rev (path_pks c d s 0)))"
proof (induction d arbitrary: s)
  case (Suc d)
  let ?l = "tree_pk c d (left_seed c s)" and ?r = "tree_pk c d (right_seed c s)"
  have "res_bind (tree_pk c 0 (leftmost c (Suc d) s)) (\<lambda>pk. kes_gen_loop c 0 (rev (left_seeds c (Suc d) s)) pk []) =
    res_bind (res_bind (tree_pk c 0 (leftmost c d (left_seed c s)))
      (\<lambda>pk. kes_gen_loop c 0 (rev (left_seeds c d (left_seed c s))) pk []))
      (\<lambda>(pk, keys). kes_gen_loop c d [right_seed c s] pk keys)"
    by (simp add: kes_gen_loop_append res_bind_assoc)
  then show ?case
    unfolding Suc.IH by (cases ?l; cases ?r) (simp_all add: res_bind_assoc sum_pk_tree pk_at_def)
qed simp

lemma kes_gen_tree: "kes_gen c h s = res_bind (tree_pk c h s) (\<lambda>pk. Inr (period_secret c h s 0, pk))"
proof (cases "h = 0")
  case True
  then show ?thesis
    by (cases "key_pair_gen c s") (auto simp: kes_gen_def period_secret_def first_period)
next
  case False
  show ?thesis
  proof (cases "key_pair_gen c (leftmost c h s)")
    case (Inl e)
    then show ?thesis
      using kes_gen_loop_tree [of c h s] left_branch_eq [of h c s] False by (cases "tree_pk c h s") (simp_all add: kes_gen_def)
  next
    case (Inr p)
    then show ?thesis
      using kes_gen_loop_tree [of c h s] left_branch_eq [of h c s] False
      by (cases "tree_pk c h s"; cases p)
        (simp_all add: kes_gen_def period_secret_def first_period)
  qed
qed

section \<open>Updates\<close>

fun trailing_ones :: "nat \<Rightarrow> nat" where
  "trailing_ones n = (if 0 < n \<and> odd n then Suc (trailing_ones (n div 2)) else 0)"

declare trailing_ones.simps [simp del]

lemma trailing_ones_simps [simp]:
  "odd n \<Longrightarrow> trailing_ones n = Suc (trailing_ones (n div 2))" "even n \<Longrightarrow> trailing_ones n = 0"
  by (subst trailing_ones.simps, auto elim: oddE)+

lemma count_ones_simps [simp]: "count_ones (Suc (2 * m)) = Suc (count_ones m)" "count_ones 0 = 0"
  by (subst count_ones.simps, simp)+

lemma anchors: "count_ones (n XOR (n + 1)) = Suc (trailing_ones n)"
proof (induction n rule: less_induct)
  case (less n)
  have rec: "n XOR (n + 1) = Suc (2 * ((n div 2) XOR ((n + 1) div 2)))"
    using xor_rec [of n "n + 1"] by (cases "odd n") simp_all
  show ?case
  proof (cases "odd n")
    case True
    then have "(n + 1) div 2 = n div 2 + 1" "n div 2 < n" by (auto elim: oddE)
    then show ?thesis using less [of "n div 2"] True unfolding rec by simp
  next
    case False
    then have "(n + 1) div 2 = n div 2" by simp
    then show ?thesis using False count_ones_simps(1) [of 0] unfolding rec by simp
  qed
qed

lemma trailing_ones_all: "trailing_ones (2 ^ h - 1) = h"
proof (induction h)
  case (Suc h)
  have "odd (2 ^ Suc h - 1 :: nat)" "(2 ^ Suc h - 1) div 2 = (2 ^ h - 1 :: nat)" by auto
  then show ?case using Suc by (simp del: power_Suc)
qed simp

lemma trailing_ones_high: "Suc j < 2 ^ h \<Longrightarrow> trailing_ones (2 ^ h + j) = trailing_ones j"
proof (induction h arbitrary: j)
  case (Suc h)
  have div: "odd (2 ^ Suc h + j) = odd j" "(2 ^ Suc h + j) div 2 = 2 ^ h + j div 2" by simp_all
  show ?case
  proof (cases "odd j")
    case True
    then have "Suc (j div 2) < 2 ^ h" using Suc.prems by (auto elim!: oddE)
    then show ?thesis using Suc.IH [of "j div 2"] True div by (simp del: power_Suc)
  qed (simp add: div)
qed simp

lemma last_period: "later_seeds c h s (2 ^ h - 1) = []"
  by (induction h arbitrary: s) (simp_all add: not_less)

text \<open>Moving to the leftmost leaf of the next subtree, of height \<open>t\<close> and seed \<open>u\<close>.\<close>

definition next_leaf ::
  "('s, 'pk, 'sig) curve \<Rightarrow> nat \<Rightarrow> bytes list \<times> ('pk \<times> 'pk) list \<Rightarrow> bytes list \<times> ('pk \<times> 'pk) list \<Rightarrow> bytes \<Rightarrow> bool" where
  "next_leaf c t now later leaf \<longleftrightarrow>
     (\<exists>u xs ps qs. now = (xs @ [u], ps @ qs) \<and> later = (xs @ left_seeds c t u, ps @ path_pks c t u 0) \<and>
        length qs = t \<and> ps \<noteq> [] \<and> snd (last ps) = pk_at c t u \<and> leaf = leftmost c t u \<and>
        tree_pk c t u = Inr (pk_at c t u))"

lemma next_leaf_below:
  assumes "next_leaf c t (a, p) (b, q) leaf"
  shows "next_leaf c t (xs @ a, y # p) (xs @ b, y # q) leaf"
proof -
  obtain u ys ps qs where "a = ys @ [u]" "p = ps @ qs" "b = ys @ left_seeds c t u" "q = ps @ path_pks c t u 0"
    "length qs = t" "ps \<noteq> []" "snd (last ps) = pk_at c t u" "leaf = leftmost c t u" "tree_pk c t u = Inr (pk_at c t u)"
    using assms unfolding next_leaf_def by auto
  then show ?thesis
    unfolding next_leaf_def by (intro exI [of _ u] exI [of _ "xs @ ys"] exI [of _ "y # ps"] exI [of _ qs]) simp
qed

lemma next_period:
  assumes "Suc k < 2 ^ h" "tree_pk c h s = Inr pk"
  shows "next_leaf c (trailing_ones k) (later_seeds c h s k, path_pks c h s k)
    (later_seeds c h s (Suc k), path_pks c h s (Suc k)) (leaf_seed c h s (Suc k))"
  using assms
proof (induction h arbitrary: s k pk)
  case (Suc h)
  note sub = tree_pk_Suc [OF Suc.prems(2)]
  consider "Suc k < 2 ^ h" | "Suc k = 2 ^ h" | "2 ^ h \<le> k" by linarith
  then show ?case
  proof cases
    case 1
    then show ?thesis using next_leaf_below [OF Suc.IH [OF 1 sub(1)], of "[right_seed c s]"] by simp
  next
    case 2
    then have k: "k = 2 ^ h - 1" "k < 2 ^ h" "\<not> Suc k < 2 ^ h" by auto
    have t: "trailing_ones k = h" using k(1) trailing_ones_all by simp
    have "later_seeds c h (left_seed c s) k = []" using k(1) last_period by simp
    then show ?thesis
      unfolding next_leaf_def using k(2,3) 2 t sub(2)
      by (intro exI [of _ "right_seed c s"] exI [of _ "[]"]
          exI [of _ "[(pk_at c h (left_seed c s), pk_at c h (right_seed c s))]"] exI [of _ "path_pks c h (left_seed c s) k"])
        (simp add: first_period)
  next
    case 3
    then have j: "Suc (k - 2 ^ h) < 2 ^ h" "Suc k - 2 ^ h = Suc (k - 2 ^ h)" "\<not> k < 2 ^ h" "\<not> Suc k < 2 ^ h"
      using Suc.prems(1) by auto
    have "trailing_ones (k - 2 ^ h) = trailing_ones k" using trailing_ones_high [OF j(1)] 3 by simp
    then show ?thesis using next_leaf_below [OF Suc.IH [OF j(1) sub(2)], of "[]"] j by simp
  qed
qed simp

lemma key_pair_leaf: "tree_pk c 0 u = Inr pk \<Longrightarrow> \<exists>sk. key_pair_gen c u = Inr (sk, pk)"
  by (auto simp: res_simps)

lemma kes_update_period:
  assumes k: "Suc k < 2 ^ h" "Suc k < 2 ^ 32" and pk: "tree_pk c h s = Inr pk"
  shows "kes_update c (period_secret c h s k) = Inr (period_secret c h s (Suc k))"
proof -
  let ?t = "trailing_ones k"
  obtain u xs ps qs where now: "later_seeds c h s k = xs @ [u]" "path_pks c h s k = ps @ qs" "length qs = ?t" "ps \<noteq> []"
    and later: "later_seeds c h s (Suc k) = xs @ left_seeds c ?t u" "path_pks c h s (Suc k) = ps @ path_pks c ?t u 0"
      "leaf_seed c h s (Suc k) = leftmost c ?t u"
    and u: "snd (last ps) = pk_at c ?t u" "tree_pk c ?t u = Inr (pk_at c ?t u)"
    using next_period [OF k(1) pk] unfolding next_leaf_def by auto
  have h: "h = length ps + ?t" using arg_cong [OF now(2), of length] now(3) by simp
  have anc: "count_ones (k XOR Suc k) = Suc ?t" using anchors [of k] by simp
  show ?thesis
  proof (cases "?t = 0")
    case True
    then obtain sk where "key_pair_gen c u = Inr (sk, pk_at c 0 u)" using key_pair_leaf u(2) by metis
    then show ?thesis using True now later anc k(2) h
      by (simp add: kes_update_def period_secret_def checked_sub_def update_leaf_def insert_in_vec_def index_def)
  next
    case False
    have gen: "kes_gen c ?t u = Inr (period_secret c ?t u 0, pk_at c ?t u)" using u(2) by (simp add: kes_gen_tree)
    have ix: "(ps @ qs) ! (h - Suc ?t) = last ps" using h now(4) by (simp add: nth_append last_conv_nth)
    have "1 < h" "h - Suc ?t < h" "Suc 0 \<le> length ps" using h now(4) False by (cases ps; auto)+
    then show ?thesis using False now later anc k(2) h gen ix u(1)
      by (simp add: kes_update_def period_secret_def checked_sub_def update_branch_def insert_in_vec_def index_def
          Let_def first_period)
  qed
qed

lemma kes_update_exhausted: "kes_update c (period_secret c h s (2 ^ h - 1)) = Inl ArithOverflow"
  using last_period [of c h s] by (simp add: kes_update_def period_secret_def checked_sub_def)

fun kes_updates :: "('s, 'pk, 'sig) curve \<Rightarrow> nat \<Rightarrow> ('s, 'pk) kes_secret \<Rightarrow> ('s, 'pk) kes_secret res" where
  "kes_updates c 0 secret = Inr secret"
| "kes_updates c (Suc n) secret = res_bind (kes_updates c n secret) (kes_update c)"

lemma kes_updates_period:
  assumes "k < 2 ^ h" "k < 2 ^ 32" "tree_pk c h s = Inr pk"
  shows "kes_updates c k (period_secret c h s 0) = Inr (period_secret c h s k)"
  using assms by (induction k) (simp_all add: kes_update_period)

section \<open>Signatures\<close>

fun siblings :: "('s, 'pk, 'sig) curve \<Rightarrow> nat \<Rightarrow> bytes \<Rightarrow> nat \<Rightarrow> 'pk list" where
  "siblings c 0 s k = []"
| "siblings c (Suc h) s k =
     (if k < 2 ^ h then pk_at c h (right_seed c s) # siblings c h (left_seed c s) k
      else pk_at c h (left_seed c s) # siblings c h (right_seed c s) (k - 2 ^ h))"

lemma length_siblings [simp]: "length (siblings c h s k) = h"
  by (induction h arbitrary: s k) simp_all

lemma sign_loop_siblings: "h \<le> 32 \<Longrightarrow> sign_loop h k (path_pks c h s k) acc = Inr (acc @ siblings c h s k)"
  by (induction h arbitrary: s k acc) auto

lemma scheme_pk_loop_append:
  "scheme_pk_loop c p l (xs @ ys) = (\<lambda>pk. res_bind (scheme_pk_loop c p l xs pk) (scheme_pk_loop c p (l + length xs) ys))"
proof (induction xs arbitrary: l)
  case (Cons x xs)
  show ?case by (rule ext) (simp add: Cons.IH res_bind_assoc)
qed (simp add: fun_eq_iff)

lemma mod_split: "p mod 2 ^ Suc h = (if bit p h then 2 ^ h else 0) + p mod 2 ^ h" for p :: nat
  using mod_mult2_eq [of p "2 ^ h" 2] by (simp add: bit_iff_odd mult.commute mod_2_eq_odd)

lemma top_bit: "p mod 2 ^ Suc h = k \<Longrightarrow> bit p h \<longleftrightarrow> 2 ^ h \<le> k" for p k :: nat
  using mod_split [of p h] mod_less_divisor [of "2 ^ h" p] by (auto simp del: power_Suc mod_less_divisor split: if_splits)

lemma low_bits: "p mod 2 ^ Suc h = k \<Longrightarrow> p mod 2 ^ h = (if k < 2 ^ h then k else k - 2 ^ h)" for p k :: nat
  using mod_split [of p h] mod_less_divisor [of "2 ^ h" p] by (auto simp del: power_Suc mod_less_divisor split: if_splits)

lemma scheme_pk_tree:
  assumes "h \<le> 32" "tree_pk c h s = Inr pk" "p mod 2 ^ h = k"
  shows "scheme_pk_loop c p 0 (rev (siblings c h s k)) (pk_at c 0 (leaf_seed c h s k)) = Inr pk"
  using assms
proof (induction h arbitrary: s k pk)
  case 0
  then show ?case by (simp add: pk_at_def)
next
  case (Suc h)
  note sub = tree_pk_Suc [OF Suc.prems(2)]
  have "p AND push_bit h 1 = 0 \<longleftrightarrow> k < 2 ^ h"
    using top_bit [OF Suc.prems(3)] by (simp add: and_exp_eq_0_iff_not_bit not_le)
  then show ?case
    using Suc.IH [OF _ sub(1)] Suc.IH [OF _ sub(2)] sub(3) low_bits [OF Suc.prems(3)] Suc.prems(1)
    by (cases "k < 2 ^ h") (simp_all add: scheme_pk_loop_append fun_eq_iff)
qed

text \<open>What is assumed of ECDSA: signatures made with a key verify under its public key.\<close>

definition ecdsa_complete :: "('s, 'pk, 'sig) curve \<Rightarrow> bool" where
  "ecdsa_complete c \<longleftrightarrow> (\<forall>s m. \<not> is_zero c s \<longrightarrow> ecdsa_verify c (scalar_public c s) m (ecdsa_sign c s m))"

lemma leaf_keys:
  assumes "k < 2 ^ h" "tree_pk c h s = Inr pk"
  shows "\<exists>sk. key_pair_gen c (leaf_seed c h s k) = Inr (sk, scalar_public c sk) \<and> \<not> is_zero c sk \<and>
    pk_at c 0 (leaf_seed c h s k) = scalar_public c sk"
  using assms
proof (induction h arbitrary: s k pk)
  case 0
  then show ?case by (auto simp: res_simps key_pair_gen_def nonzero_scalar_def pk_at_def split: if_splits)
next
  case (Suc h)
  note sub = tree_pk_Suc [OF Suc.prems(2)]
  show ?case using Suc.IH [OF _ sub(1), of k] Suc.IH [OF _ sub(2), of "k - 2 ^ h"] Suc.prems(1)
    by (cases "k < 2 ^ h") auto
qed

lemma period_signature_verifies:
  assumes "ecdsa_complete c" "tree_pk c h s = Inr pk" "k < 2 ^ h" "h \<le> 32"
  shows "\<exists>sig. kes_sign c m (period_secret c h s k) k = Inr sig \<and> kes_verify c sig m pk k = Inr True"
proof -
  obtain sk where sk: "key_pair_gen c (leaf_seed c h s k) = Inr (sk, scalar_public c sk)" "\<not> is_zero c sk"
    "pk_at c 0 (leaf_seed c h s k) = scalar_public c sk" using leaf_keys [OF assms(3,2)] by blast
  have "scheme_pk_loop c k 0 (rev (siblings c h s k)) (scalar_public c sk) = Inr pk"
    using scheme_pk_tree [OF assms(4,2), of k k] assms(3) sk(3) by simp
  then show ?thesis
    using sign_loop_siblings [OF assms(4), of k c s "[]"] sk(1,2) assms(1)
    by (simp add: kes_sign_def kes_verify_def calculate_scheme_pk_from_signature_def period_secret_def ecdsa_complete_def)
qed

section \<open>Properties\<close>

text \<open>Generating the public key of a scheme, in either way the code has, computes the root of the Merkle
  tree of the seed.\<close>

theorem kes_public_key_is_root:
  "sum_composition_pk_gen c h seed = tree_pk c h seed \<and>
   kes_gen c h seed = res_bind (tree_pk c h seed) (\<lambda>pk. Inr (period_secret c h seed 0, pk))"
  by (simp add: sum_pk_tree kes_gen_tree)

text \<open>C23. Once a scheme has been generated, every update up to the last period succeeds, and the secret is that
  of its period: its seeds are exactly those of the subtrees of later periods. The update after the last
  period panics.\<close>

theorem kes_update_evolves:
  assumes "kes_gen c h seed = Inr (secret, pk)" "k < 2 ^ h" "h \<le> 32"
  shows "kes_updates c k secret = Inr (period_secret c h seed k) \<and>
    kes_updates c (2 ^ h) secret = Inl ArithOverflow"
proof -
  have pk: "tree_pk c h seed = Inr pk" "secret = period_secret c h seed 0"
    using assms(1) by (auto simp: kes_gen_tree res_simps)
  have "j < 2 ^ 32" if "j < 2 ^ h" for j :: nat
    using that assms(3) by (meson less_le_trans one_le_numeral power_increasing)
  then have upd: "kes_updates c j secret = Inr (period_secret c h seed j)" if "j < 2 ^ h" for j
    using kes_updates_period [OF that _ pk(1)] that pk(2) by simp
  have "2 ^ h = Suc (2 ^ h - 1 :: nat)" by simp
  then have "kes_updates c (2 ^ h) secret = res_bind (kes_updates c (2 ^ h - 1) secret) (kes_update c)"
    by (metis kes_updates.simps(2))
  then have "kes_updates c (2 ^ h) secret = Inl ArithOverflow"
    using upd [of "2 ^ h - 1"] kes_update_exhausted [of c h seed] by simp
  then show ?thesis using upd [OF assms(2)] by simp
qed

text \<open>C22. The secret of a period signs for that period: the signature verifies under the public key of the
  scheme, for every message and every period of the tree.\<close>

theorem kes_sign_verify:
  assumes "ecdsa_complete c" "kes_gen c h seed = Inr (secret, pk)" "k < 2 ^ h" "h \<le> 32"
  shows "\<exists>secret' sig. kes_updates c k secret = Inr secret' \<and> kes_sign c m secret' k = Inr sig \<and>
    kes_verify c sig m pk k = Inr True"
proof -
  have pk: "tree_pk c h seed = Inr pk" "secret = period_secret c h seed 0"
    using assms(2) by (auto simp: kes_gen_tree res_simps)
  have "k < 2 ^ 32" using assms(3,4) by (meson less_le_trans one_le_numeral power_increasing)
  then show ?thesis
    using period_signature_verifies [OF assms(1) pk(1) assms(3,4)] kes_updates_period [OF assms(3) _ pk(1)] pk(2) by blast
qed

text \<open>A curve for examples: scalars, keys and digests are byte strings.\<close>

definition demo_curve :: "(bytes, bytes, bytes) curve" where
  "demo_curve =
     \<lparr>hf = (\<lambda>b. 1 # b), scalar_of_bytes = Some, is_zero = (\<lambda>s. s = []), scalar_public = (\<lambda>s. s),
      pk_bytes = (\<lambda>p. p), ecdsa_sign = (\<lambda>s m. s @ m), ecdsa_verify = (\<lambda>p m sig. sig = p @ m)\<rparr>"

lemma demo_curve_gen: "\<exists>secret pk. kes_gen demo_curve 2 [7] = Inr (secret, pk)"
  by (simp add: kes_gen_tree eval_nat_numeral key_pair_gen_def nonzero_scalar_def merge_public_keys_def
      hash_to_public_key_def demo_curve_def left_seed_def right_seed_def partial_seed_def)

theorem kes_update_evolves_witness:
  "\<exists>secret pk. kes_gen demo_curve 2 [7] = Inr (secret, pk) \<and>
     kes_updates demo_curve 3 secret = Inr (period_secret demo_curve 2 [7] 3) \<and>
     kes_updates demo_curve 4 secret = Inl ArithOverflow"
proof -
  obtain secret pk where "kes_gen demo_curve 2 [7] = Inr (secret, pk)" using demo_curve_gen by blast
  from this kes_update_evolves [OF this, of 3] show ?thesis by auto
qed

theorem kes_sign_verify_witness:
  "\<exists>secret pk secret' sig. kes_gen demo_curve 2 [7] = Inr (secret, pk) \<and> kes_updates demo_curve 3 secret = Inr secret' \<and>
     kes_sign demo_curve [5] secret' 3 = Inr sig \<and> kes_verify demo_curve sig [5] pk 3 = Inr True"
proof -
  obtain secret pk where gen: "kes_gen demo_curve 2 [7] = Inr (secret, pk)" using demo_curve_gen by blast
  have "ecdsa_complete demo_curve" by (simp add: ecdsa_complete_def demo_curve_def)
  from kes_sign_verify [OF this gen, of 3 "[5]"] show ?thesis using gen by auto
qed

end
