(* ===== verification/Vrf.thy ===== *)
theory Vrf
  imports Prelude
begin

text \<open>
  Verifiable random functions (\<open>spectrum-vrf/src/lib.rs\<close>, \<open>utils.rs\<close>) and the greatest common divisor
  of the lottery (\<open>lottery.rs\<close>). The elliptic curve and the hash function are libraries: they are the
  record \<open>vrf_group\<close>, and the laws of the group are a hypothesis of the theorems. The random scalar
  of a proof is an argument.
\<close>

section \<open>Proofs\<close>

text \<open>\<open>point_bytes\<close> is \<open>None\<close> for the identity, which is no public key.\<close>

record ('s, 'p) vrf_group =
  vrf_hash :: "bytes \<Rightarrow> bytes"
  scalar_from_bytes :: "bytes \<Rightarrow> 's option"
  scalar_is_zero :: "'s \<Rightarrow> bool"
  scalar_mul :: "'s \<Rightarrow> 's \<Rightarrow> 's"
  scalar_sub :: "'s \<Rightarrow> 's \<Rightarrow> 's"
  base_point :: 'p
  point_add :: "'p \<Rightarrow> 'p \<Rightarrow> 'p"
  point_mul :: "'p \<Rightarrow> 's \<Rightarrow> 'p"
  point_bytes :: "'p \<Rightarrow> bytes option"

record ('s, 'p) ecvrf_proof =
  vrf_gamma :: 'p
  vrf_c :: 's
  vrf_s :: 's

definition hash_to_projective_point :: "('s, 'p) vrf_group \<Rightarrow> bytes \<Rightarrow> 'p res" where
  "hash_to_projective_point g h =
     res_bind (unwrap (scalar_from_bytes g h)) (\<lambda>scalar.
       if scalar_is_zero g scalar then Inl UnwrapNone else Inr (point_mul g (base_point g) scalar))"

text \<open>The hash of a sequence of points.\<close>

definition hash_points :: "('s, 'p) vrf_group \<Rightarrow> 'p list \<Rightarrow> bytes res" where
  "hash_points g points =
     res_bind (res_mapM (\<lambda>p. unwrap (point_bytes g p)) points) (\<lambda>bs. Inr (vrf_hash g (concat bs)))"

definition vrf_prove :: "('s, 'p) vrf_group \<Rightarrow> 's \<Rightarrow> bytes \<Rightarrow> 's \<Rightarrow> ('s, 'p) ecvrf_proof res" where
  "vrf_prove g sk_scalar message_hash random_scalar =
     res_bind (hash_to_projective_point g message_hash) (\<lambda>message_point.
     res_bind (hash_points g
       [base_point g, message_point, point_mul g (base_point g) sk_scalar, point_mul g message_point sk_scalar,
        point_mul g (base_point g) random_scalar, point_mul g message_point random_scalar]) (\<lambda>scalar_bytes.
     res_bind (unwrap (scalar_from_bytes g scalar_bytes)) (\<lambda>c_scalar.
       Inr \<lparr>vrf_gamma = point_mul g message_point sk_scalar, vrf_c = c_scalar,
            vrf_s = scalar_sub g random_scalar (scalar_mul g c_scalar sk_scalar)\<rparr>)))"

definition vrf_verify :: "('s, 'p) vrf_group \<Rightarrow> 'p \<Rightarrow> bytes \<Rightarrow> ('s, 'p) ecvrf_proof \<Rightarrow> bool res" where
  "vrf_verify g pk_point message_hash vp =
     res_bind (hash_to_projective_point g message_hash) (\<lambda>message_point.
       let u_point = point_add g (point_mul g pk_point (vrf_c vp)) (point_mul g (base_point g) (vrf_s vp));
           v_point = point_add g (point_mul g (vrf_gamma vp) (vrf_c vp)) (point_mul g message_point (vrf_s vp))
       in res_bind (hash_points g [base_point g, message_point, pk_point, vrf_gamma vp, u_point, v_point]) (\<lambda>scalar_bytes.
          res_bind (unwrap (scalar_from_bytes g scalar_bytes)) (\<lambda>local_c_scalar.
            Inr (local_c_scalar = vrf_c vp))))"

section \<open>Lottery\<close>

fun lottery_gcd :: "nat \<Rightarrow> nat \<Rightarrow> nat" where
  "lottery_gcd x y = (if y > 0 then lottery_gcd y (x mod y) else x)"

declare lottery_gcd.simps [simp del]

section \<open>Completeness\<close>

text \<open>Multiplication of points by scalars: it composes, and distributes over a difference.\<close>

definition group_laws :: "('s, 'p) vrf_group \<Rightarrow> bool" where
  "group_laws g \<longleftrightarrow>
     (\<forall>p a b. point_mul g (point_mul g p a) b = point_mul g p (scalar_mul g b a)) \<and>
     (\<forall>p a b. point_add g (point_mul g p a) (point_mul g p (scalar_sub g b a)) = point_mul g p b)"

lemma lottery_gcd_eq: "lottery_gcd x y = gcd x y"
proof (induction x y rule: lottery_gcd.induct)
  case (1 x y)
  then show ?case
    unfolding lottery_gcd.simps [of x y] by (cases "y = 0") (simp_all add: gcd_red_nat [symmetric])
qed

text \<open>C24. A proof made with a secret key verifies under its public key.\<close>

theorem vrf_proof_verifies:
  assumes "group_laws g" "vrf_prove g sk m r = Inr vp"
  shows "vrf_verify g (point_mul g (base_point g) sk) m vp = Inr True"
proof -
  obtain mp bs cs where prove: "hash_to_projective_point g m = Inr mp"
    "hash_points g [base_point g, mp, point_mul g (base_point g) sk, point_mul g mp sk,
       point_mul g (base_point g) r, point_mul g mp r] = Inr bs"
    "scalar_from_bytes g bs = Some cs"
    "vp = \<lparr>vrf_gamma = point_mul g mp sk, vrf_c = cs, vrf_s = scalar_sub g r (scalar_mul g cs sk)\<rparr>"
    using assms(2) by (auto simp: vrf_prove_def res_simps)
  have "point_add g (point_mul g (point_mul g p sk) cs) (point_mul g p (scalar_sub g r (scalar_mul g cs sk))) =
    point_mul g p r" for p
    using assms(1) by (simp add: group_laws_def)
  then show ?thesis using prove by (simp add: vrf_verify_def)
qed

text \<open>The integers modulo seven, with themselves as scalars.\<close>

definition demo_group :: "(int, int) vrf_group" where
  "demo_group =
     \<lparr>vrf_hash = (\<lambda>bs. [3]), scalar_from_bytes = (\<lambda>bs. case bs of [b] \<Rightarrow> Some (uint b mod 7) | _ \<Rightarrow> None),
      scalar_is_zero = (\<lambda>s. s = 0), scalar_mul = (\<lambda>a b. a * b mod 7), scalar_sub = (\<lambda>a b. (a - b) mod 7),
      base_point = 1, point_add = (\<lambda>p q. (p + q) mod 7), point_mul = (\<lambda>p a. p * a mod 7),
      point_bytes = (\<lambda>p. if p = 0 then None else Some [of_int p])\<rparr>"

lemma demo_group_laws: "group_laws demo_group"
proof -
  have "(p * a mod 7 * b) mod 7 = p * (b * a mod 7) mod 7" for p a b :: int
    by (simp add: mod_mult_left_eq mod_mult_right_eq ac_simps)
  moreover have "(p * a mod 7 + p * ((b - a) mod 7) mod 7) mod 7 = p * b mod 7" for p a b :: int
    by (simp add: mod_add_eq mod_mult_right_eq distrib_left [symmetric])
  ultimately show ?thesis by (simp add: group_laws_def demo_group_def)
qed

theorem vrf_proof_verifies_witness:
  "\<exists>vp. vrf_prove demo_group 4 [2] 5 = Inr vp \<and> vrf_verify demo_group 4 [2] vp = Inr True"
proof -
  obtain vp where "vrf_prove demo_group 4 [2] 5 = Inr vp"
    by (simp add: vrf_prove_def demo_group_def hash_to_projective_point_def hash_points_def)
  from vrf_proof_verifies [OF demo_group_laws this] this show ?thesis by (auto simp: demo_group_def)
qed

end
