(* ===== verification/Substream.thy ===== *)
theory Substream
  imports Behaviour
begin

text \<open>
  Negotiation of substreams (\<open>spectrum-network/src\<close>: \<open>protocol.rs\<close>, \<open>protocol_upgrade.rs\<close>,
  \<open>protocol_upgrade/combinators.rs\<close>, \<open>protocol_upgrade/message.rs\<close>,
  \<open>protocol_upgrade/substream.rs\<close>, \<open>one_shot_upgrade.rs\<close>). A \<open>BTreeMap\<close> over versions is the list of
  its entries in the order of its keys, newest version first. The socket belongs to a library: what it
  answers during one poll is the record \<open>socket_env\<close>, and the framing of messages with their length is
  the record \<open>framing\<close>. An \<open>async\<close> upgrade is a function of the bytes the other side writes.
\<close>

section \<open>Maps over versions\<close>

fun ver_insert :: "protocol_ver \<Rightarrow> 'a \<Rightarrow> (protocol_ver \<times> 'a) list \<Rightarrow> (protocol_ver \<times> 'a) list" where
  "ver_insert k v [] = [(k, v)]"
| "ver_insert k v ((k', v') # xs) =
     (if k = k' then (k, v) # xs
      else if protocol_ver_le k k' then (k, v) # (k', v') # xs
      else (k', v') # ver_insert k v xs)"

definition btree_of :: "(protocol_ver \<times> 'a) list \<Rightarrow> (protocol_ver \<times> 'a) list" where
  "btree_of xs = fold (\<lambda>(k, v). ver_insert k v) xs []"

text \<open>\<open>From<PolyVerHandshakeSpec> for Vec<_>\<close>: the entries, newest version first.\<close>

definition spec_to_list :: "poly_ver_handshake_spec \<Rightarrow> (protocol_ver \<times> raw_message option) list" where
  "spec_to_list spec =
     List.map_filter (\<lambda>n. map_option (Pair (word_of_nat n)) (spec (word_of_nat n))) (rev [0..<256])"

section \<open>Configuration (protocol.rs)\<close>

record stateful_protocol_spec =
  max_message_size :: nat
  approve_required :: bool

datatype protocol_config =
    StatefulConfig "(protocol_ver \<times> stateful_protocol_spec) list"
  | OneShotConfig protocol_ver nat

section \<open>Messages\<close>

record one_shot_message =
  os_protocol :: protocol_tag
  os_content :: raw_message

definition approve_size :: nat where
  "approve_size = 1"

definition approve_bytes :: raw_message where
  "approve_bytes = [1]"

text \<open>
  \<open>upgrade::write_length_prefixed\<close>, \<open>upgrade::read_length_prefixed\<close> (with a maximal length; the bytes
  that are left are returned) and the encoder of the codec \<open>UviBytes\<close>.
\<close>

record framing =
  write_length_prefixed :: "bytes \<Rightarrow> bytes"
  read_length_prefixed :: "nat \<Rightarrow> bytes \<Rightarrow> (bytes \<times> bytes) option"
  uvi_encode :: "bytes \<Rightarrow> bytes"

section \<open>Substreams (substream.rs)\<close>

datatype approve_state =
    NotSent
  | PendingSend raw_message
  | Flush
  | Sent
  | ClosingInResponseToRemote
  | BothSidesClosed

record substream_in =
  si_max_len :: nat
  si_approve :: "approve_state option"
  si_written :: "raw_message list"

record substream_out =
  so_max_len :: nat
  so_sent :: "raw_message list"

datatype io_poll = IoPending | IoReady | IoErr

datatype read_poll = ReadPending | ReadEnd | ReadMsg raw_message | ReadErr

text \<open>
  What the socket of an inbound substream answers during one poll: whether it is ready, whether
  \<open>start_send\<close> succeeds, the result of flushing, of reading and of closing. Each is asked once at most.
\<close>

record socket_env =
  sk_ready :: bool
  sk_send :: bool
  sk_flush :: io_poll
  sk_next :: read_poll
  sk_close :: io_poll

definition send_approve :: "substream_in \<Rightarrow> substream_in" where
  "send_approve s =
     (if si_approve s = Some NotSent then s\<lparr>si_approve := Some (PendingSend approve_bytes)\<rparr> else s)"

fun approve_rank :: "approve_state option \<Rightarrow> nat" where
  "approve_rank (Some (PendingSend m)) = 4"
| "approve_rank (Some Flush) = 3"
| "approve_rank (Some Sent) = 2"
| "approve_rank None = 2"
| "approve_rank (Some ClosingInResponseToRemote) = 1"
| "approve_rank (Some _) = 0"

text \<open>\<open>poll_process_handshake\<close>: whether it returns an error; it is pending otherwise.\<close>

function poll_process_handshake :: "socket_env \<Rightarrow> substream_in \<Rightarrow> substream_in \<times> bool" where
  "poll_process_handshake env s =
     (case si_approve s of
        None \<Rightarrow> (s, False)
      | Some (PendingSend msg) \<Rightarrow>
          if sk_ready env then
            if sk_send env
            then poll_process_handshake env (s\<lparr>si_approve := Some Flush, si_written := si_written s @ [msg]\<rparr>)
            else (s\<lparr>si_approve := Some Flush\<rparr>, True)
          else (s, False)
      | Some Flush \<Rightarrow>
          (case sk_flush env of
             IoReady \<Rightarrow> poll_process_handshake env (s\<lparr>si_approve := Some Sent\<rparr>)
           | IoPending \<Rightarrow> (s, False)
           | IoErr \<Rightarrow> (s\<lparr>si_approve := Some Sent\<rparr>, True))
      | Some _ \<Rightarrow> (s, False))"
  by pat_completeness auto
termination
  by (relation "measure (\<lambda>(env, s). approve_rank (si_approve s))") auto

text \<open>\<open>Stream::poll_next\<close> of an inbound substream. Errors leave the approval state taken out.\<close>

function poll_next_in :: "socket_env \<Rightarrow> substream_in \<Rightarrow> substream_in \<times> read_poll" where
  "poll_next_in env s =
     (case si_approve s of
        Some NotSent \<Rightarrow> (s, ReadPending)
      | Some (PendingSend msg) \<Rightarrow>
          if sk_ready env then
            if sk_send env
            then poll_next_in env (s\<lparr>si_approve := Some Flush, si_written := si_written s @ [msg]\<rparr>)
            else (s\<lparr>si_approve := Some Flush\<rparr>, ReadErr)
          else (s, ReadPending)
      | Some Flush \<Rightarrow>
          (case sk_flush env of
             IoReady \<Rightarrow> poll_next_in env (s\<lparr>si_approve := Some Sent\<rparr>)
           | IoPending \<Rightarrow> (s, ReadPending)
           | IoErr \<Rightarrow> (s\<lparr>si_approve := None\<rparr>, ReadErr))
      | Some ClosingInResponseToRemote \<Rightarrow>
          (case sk_close env of
             IoReady \<Rightarrow> poll_next_in env (s\<lparr>si_approve := Some BothSidesClosed\<rparr>)
           | IoPending \<Rightarrow> (s, ReadPending)
           | IoErr \<Rightarrow> (s\<lparr>si_approve := None\<rparr>, ReadErr))
      | Some BothSidesClosed \<Rightarrow> (s\<lparr>si_approve := None\<rparr>, ReadEnd)
      | _ \<Rightarrow>
          (case sk_next env of
             ReadEnd \<Rightarrow> poll_next_in env (s\<lparr>si_approve := Some ClosingInResponseToRemote\<rparr>)
           | ReadPending \<Rightarrow> (s\<lparr>si_approve := Some Sent\<rparr>, ReadPending)
           | r \<Rightarrow> (s\<lparr>si_approve := Some Sent\<rparr>, r)))"
  by pat_completeness auto
termination
  by (relation "measure (\<lambda>(env, s). approve_rank (si_approve s))") auto

declare poll_process_handshake.simps [simp del] poll_next_in.simps [simp del]

definition start_send :: "raw_message \<Rightarrow> substream_out \<Rightarrow> substream_out" where
  "start_send msg s = s\<lparr>so_sent := so_sent s @ [msg]\<rparr>"

section \<open>Upgrades (protocol\_upgrade.rs, one\_shot\_upgrade.rs)\<close>

record inbound_protocol_spec =
  in_max_message_size :: nat
  handshake_required :: bool

definition inbound_spec :: "stateful_protocol_spec \<Rightarrow> inbound_protocol_spec" where
  "inbound_spec spec =
     \<lparr>in_max_message_size = max_message_size spec, handshake_required = approve_required spec\<rparr>"

record protocol_upgrade_in =
  ui_protocol :: protocol_id
  ui_versions :: "(protocol_ver \<times> inbound_protocol_spec) list"

definition new_upgrade_in ::
  "protocol_id \<Rightarrow> (protocol_ver \<times> stateful_protocol_spec) list \<Rightarrow> protocol_upgrade_in" where
  "new_upgrade_in pid vers =
     \<lparr>ui_protocol = pid, ui_versions = btree_of (map (\<lambda>(v, spec). (v, inbound_spec spec)) vers)\<rparr>"

definition in_protocol_info :: "protocol_upgrade_in \<Rightarrow> protocol_tag list" where
  "in_protocol_info u = map (\<lambda>(v, _). new_tag (ui_protocol u) v) (ui_versions u)"

record inbound_upgraded =
  iu_tag :: protocol_tag
  iu_handshake :: "raw_message option"
  iu_substream :: substream_in

text \<open>\<open>None\<close> is an error of the upgrade; a version that is not supported panics.\<close>

definition upgrade_inbound ::
  "framing \<Rightarrow> protocol_upgrade_in \<Rightarrow> bytes \<Rightarrow> protocol_tag \<Rightarrow> (inbound_upgraded \<times> bytes) option res" where
  "upgrade_inbound fr u received tag =
     res_bind (unwrap (map_of (ui_versions u) (tag_protocol_ver tag))) (\<lambda>pspec.
       let max_len = in_max_message_size pspec
       in if handshake_required pspec
          then Inr (case read_length_prefixed fr max_len received of
                 None \<Rightarrow> None
               | Some (hs, rest) \<Rightarrow>
                   Some (\<lparr>iu_tag = tag, iu_handshake = Some hs,
                          iu_substream = \<lparr>si_max_len = max_len, si_approve = Some NotSent, si_written = []\<rparr>\<rparr>,
                         rest))
          else Inr (Some (\<lparr>iu_tag = tag, iu_handshake = None,
                 iu_substream = \<lparr>si_max_len = max_len, si_approve = None, si_written = []\<rparr>\<rparr>, received)))"

record protocol_upgrade_out =
  uo_protocol :: protocol_id
  uo_versions :: "(protocol_ver \<times> nat \<times> raw_message option) list"

definition new_upgrade_out ::
  "protocol_id \<Rightarrow> (protocol_ver \<times> stateful_protocol_spec \<times> raw_message option) list \<Rightarrow> protocol_upgrade_out" where
  "new_upgrade_out pid vers =
     \<lparr>uo_protocol = pid,
      uo_versions = btree_of (map (\<lambda>(v, spec, hs). (v, max_message_size spec, hs)) vers)\<rparr>"

definition out_protocol_info :: "protocol_upgrade_out \<Rightarrow> protocol_tag list" where
  "out_protocol_info u = map (\<lambda>(v, _). new_tag (uo_protocol u) v) (uo_versions u)"

definition read_approve :: "bytes \<Rightarrow> bytes option" where
  "read_approve received =
     (if approve_size \<le> length received \<and> take approve_size received = approve_bytes
      then Some (drop approve_size received) else None)"

record outbound_upgraded =
  ou_tag :: protocol_tag
  ou_substream :: substream_out

text \<open>The bytes written, and the result once the other side has answered with \<open>received\<close>.\<close>

definition upgrade_outbound ::
  "framing \<Rightarrow> protocol_upgrade_out \<Rightarrow> bytes \<Rightarrow> protocol_tag \<Rightarrow> (bytes \<times> (outbound_upgraded \<times> bytes) option) res" where
  "upgrade_outbound fr u received tag =
     res_bind (unwrap (map_of (uo_versions u) (tag_protocol_ver tag))) (\<lambda>(max_len, hs).
       let done = \<lparr>ou_tag = tag, ou_substream = \<lparr>so_max_len = max_len, so_sent = []\<rparr>\<rparr>
       in Inr (case hs of
            Some h \<Rightarrow> (write_length_prefixed fr h, map_option (Pair done) (read_approve received))
          | None \<Rightarrow> ([], Some (done, received))))"

record one_shot_upgrade_out =
  osu_protocol :: protocol_tag
  osu_id :: "64 word"
  osu_message :: raw_message

definition one_shot_upgrade_outbound :: "framing \<Rightarrow> one_shot_upgrade_out \<Rightarrow> bytes \<times> 64 word" where
  "one_shot_upgrade_outbound fr u = (write_length_prefixed fr (osu_message u), osu_id u)"

record one_shot_upgrade_in =
  osi_protocol :: protocol_tag
  osi_max_message_size :: nat

definition one_shot_upgrade_inbound ::
  "framing \<Rightarrow> one_shot_upgrade_in \<Rightarrow> bytes \<Rightarrow> protocol_tag \<Rightarrow> one_shot_message option" where
  "one_shot_upgrade_inbound fr u received tag =
     (case read_length_prefixed fr (osi_max_message_size u) received of
        Some (msg, rest) \<Rightarrow> Some \<lparr>os_protocol = tag, os_content = msg\<rparr>
      | None \<Rightarrow> None)"

section \<open>Several upgrades at once (combinators.rs)\<close>

type_synonym any_inbound = "protocol_upgrade_in + one_shot_upgrade_in"

fun any_info :: "any_inbound \<Rightarrow> protocol_tag list" where
  "any_info (Inl u) = in_protocol_info u"
| "any_info (Inr u) = [osi_protocol u]"

text \<open>Each name comes with the position of the upgrade it belongs to.\<close>

definition any_protocol_info :: "any_inbound list \<Rightarrow> (protocol_tag \<times> nat) list" where
  "any_protocol_info us = concat (map (\<lambda>(u, ix). map (\<lambda>t. (t, ix)) (any_info u)) (zip us [0..<length us]))"

fun any_upgrade_one ::
  "framing \<Rightarrow> any_inbound \<Rightarrow> bytes \<Rightarrow> protocol_tag \<Rightarrow> (inbound_upgraded + one_shot_message) option res" where
  "any_upgrade_one fr (Inl u) received tag =
     res_bind (upgrade_inbound fr u received tag) (\<lambda>r. Inr (map_option (\<lambda>(up, _). Inl up) r))"
| "any_upgrade_one fr (Inr u) received tag =
     Inr (map_option Inr (one_shot_upgrade_inbound fr u received tag))"

definition any_upgrade_inbound ::
  "framing \<Rightarrow> any_inbound list \<Rightarrow> bytes \<Rightarrow> protocol_tag \<times> nat
   \<Rightarrow> ((inbound_upgraded + one_shot_message) option \<times> nat) res" where
  "any_upgrade_inbound fr us received info =
     (let (tag, ix) = info
      in res_bind (index us ix) (\<lambda>u. res_bind (any_upgrade_one fr u received tag) (\<lambda>r. Inr (r, ix))))"

end
