(* ===== verification/Conn_Handler.thy ===== *)
theory Conn_Handler
  imports Substream
begin

text \<open>
  The handler of one connection (\<open>spectrum-network/src/peer_conn_handler.rs\<close>): the state of every
  stateful protocol, the one-shot messages that wait, the commands of the network controller, the
  events of the connection and the poll function. A channel between a message sink and the connection
  is a number; \<open>ch_queues\<close> holds what its receiver yields, in the order \<open>stream::select\<close> yields it.
  The order of hash maps, random identifiers, the clock and the answers of sockets are arguments.
\<close>

section \<open>State\<close>

datatype protocol_state =
    Closed
  | Opening
  | PartiallyOpenedByPeer substream_in
  | Accepting "substream_in option"
  | PartiallyOpened substream_out
  | Opened substream_in substream_out sink_id
  | InboundClosedByPeer substream_out sink_id
  | OutboundClosedByPeer substream_in

record stateful_protocol =
  sp_ver :: protocol_ver
  sp_spec :: stateful_protocol_spec
  sp_state :: "protocol_state option"
  sp_all_versions :: "(protocol_ver \<times> stateful_protocol_spec) list"

record one_shot_protocol =
  op_ver :: protocol_ver
  op_max_message_size :: nat

record conn_handler_conf =
  async_msg_buffer_size :: nat
  sync_msg_buffer_size :: nat
  open_timeout :: nat
  initial_keep_alive :: nat

datatype conn_handler_in =
    Open protocol_id poly_ver_handshake_spec
  | Close protocol_id
  | CloseAllProtocols
  | TryDeliverOnce one_shot_message

datatype conn_handler_out =
    OutOpened protocol_tag sink_id "raw_message option"
  | RefusedToOpen protocol_id
  | OutClosed protocol_id
  | ClosedAllProtocols
  | OpenedByPeer protocol_tag "raw_message option"
  | ClosedByPeer protocol_id
  | OutMessage protocol_tag raw_message
  | OutOneShotMessage protocol_tag raw_message

datatype conn_handler_event =
    OutboundSubstreamRequest "protocol_upgrade_out + one_shot_upgrade_out" protocol_tag nat
  | NotifyBehaviour conn_handler_out
  | CloseConn conn_handler_error

datatype one_shot_request = OsPending one_shot_message | Confirming

datatype throttle_stage = ThrottleStart | ThrottleInProgress | ThrottleFinish | ThrottleDisable

record 'pid conn_handler =
  ch_conf :: conn_handler_conf
  ch_stateful :: "protocol_id \<rightharpoonup> stateful_protocol"
  ch_one_shot :: "protocol_id \<rightharpoonup> one_shot_protocol"
  ch_created_at :: nat
  ch_peer :: 'pid
  ch_events :: "conn_handler_event list"
  ch_fault :: "conn_handler_error option"
  ch_throttle :: throttle_stage
  ch_requests :: "64 word \<rightharpoonup> one_shot_request"
  ch_terminate_asap :: bool
  ch_queues :: "sink_id \<Rightarrow> stream_notification list"
  ch_next_sink :: sink_id

definition push_event :: "conn_handler_event \<Rightarrow> 'pid conn_handler \<Rightarrow> 'pid conn_handler" where
  "push_event e h = h\<lparr>ch_events := ch_events h @ [e]\<rparr>"

definition set_state :: "protocol_id \<Rightarrow> protocol_state option \<Rightarrow> 'pid conn_handler \<Rightarrow> 'pid conn_handler" where
  "set_state pid st h =
     h\<lparr>ch_stateful := (ch_stateful h)(pid := map_option (\<lambda>p. p\<lparr>sp_state := st\<rparr>) (ch_stateful h pid))\<rparr>"

text \<open>\<open>mpsc::channel\<close> for both sides of a sink.\<close>

definition new_channel :: "'pid conn_handler \<Rightarrow> 'pid conn_handler" where
  "new_channel h =
     h\<lparr>ch_next_sink := Suc (ch_next_sink h), ch_queues := (ch_queues h)(ch_next_sink h := [])\<rparr>"

section \<open>Names offered to the peer\<close>

text \<open>\<open>listen_protocol\<close>; the lists enumerate both maps.\<close>

definition listen_protocol ::
  "protocol_id list \<Rightarrow> protocol_id list \<Rightarrow> 'pid conn_handler \<Rightarrow> any_inbound list" where
  "listen_protocol stateful_order one_shot_order h =
     List.map_filter (\<lambda>pid. map_option (\<lambda>p. Inl (new_upgrade_in pid (sp_all_versions p))) (ch_stateful h pid))
       stateful_order @
     List.map_filter (\<lambda>pid. map_option (\<lambda>p. Inr \<lparr>osi_protocol = new_tag pid (op_ver p),
         osi_max_message_size = op_max_message_size p\<rparr>) (ch_one_shot h pid)) one_shot_order"

section \<open>Commands of the controller\<close>

text \<open>The upgrades offered when a closed protocol is opened: versions and handshakes are zipped.\<close>

definition open_versions ::
  "stateful_protocol \<Rightarrow> poly_ver_handshake_spec \<Rightarrow> (protocol_ver \<times> stateful_protocol_spec \<times> raw_message option) list" where
  "open_versions p hs =
     map (\<lambda>((ver, spec), (_, h)). (ver, spec, h)) (zip (sp_all_versions p) (spec_to_list hs))"

definition on_open ::
  "protocol_id \<Rightarrow> poly_ver_handshake_spec \<Rightarrow> 'pid conn_handler \<Rightarrow> 'pid conn_handler" where
  "on_open pid hs h =
     (case ch_stateful h pid of
        None \<Rightarrow> h
      | Some p \<Rightarrow>
          let request = (\<lambda>vers. OutboundSubstreamRequest (Inl (new_upgrade_out pid vers))
                (new_tag pid (sp_ver p)) (open_timeout (ch_conf h)))
          in (case sp_state p of
                Some Closed \<Rightarrow>
                  set_state pid (Some Opening) (push_event (request (open_versions p hs)) h)
              | Some (PartiallyOpenedByPeer sub) \<Rightarrow>
                  let ver_hs = handshake_for hs (sp_ver p);
                      sub = (if ver_hs \<noteq> None then send_approve sub else sub)
                  in set_state pid (Some (Accepting (Some sub)))
                       (push_event (request [(sp_ver p, sp_spec p, ver_hs)]) h)
              | _ \<Rightarrow> h))"

fun on_behaviour_event :: "64 word \<Rightarrow> conn_handler_in \<Rightarrow> 'pid conn_handler \<Rightarrow> 'pid conn_handler" where
  "on_behaviour_event rid (TryDeliverOnce msg) h =
     h\<lparr>ch_requests := (ch_requests h)(rid \<mapsto> OsPending msg)\<rparr>"
| "on_behaviour_event rid (Open pid hs) h = on_open pid hs h"
| "on_behaviour_event rid (Close pid) h =
     (if ch_stateful h pid = None then h
      else push_event (NotifyBehaviour (OutClosed pid)) (set_state pid (Some Closed) h))"
| "on_behaviour_event rid CloseAllProtocols h =
     push_event (NotifyBehaviour ClosedAllProtocols)
       (h\<lparr>ch_stateful := (\<lambda>pid. map_option (\<lambda>p. p\<lparr>sp_state := Some Closed\<rparr>) (ch_stateful h pid))\<rparr>)"

section \<open>Events of the connection\<close>

datatype connection_event =
    NegotiatedInboundOneShot one_shot_message
  | NegotiatedInbound inbound_upgraded
  | NegotiatedOutboundOneShot "64 word"
  | NegotiatedOutbound outbound_upgraded protocol_tag
  | DialUpgradeError protocol_tag
  | OtherConnectionEvent

definition on_negotiated_inbound :: "inbound_upgraded \<Rightarrow> 'pid conn_handler \<Rightarrow> 'pid conn_handler" where
  "on_negotiated_inbound up h =
     (let pid = tag_protocol_id (iu_tag up)
      in case ch_stateful h pid of
           None \<Rightarrow> h
         | Some p \<Rightarrow>
             let reopen = (\<lambda>sub_out.
                   let sub_in = (if approve_required (sp_spec p) then send_approve (iu_substream up)
                                 else iu_substream up);
                       sink = ch_next_sink h
                   in set_state pid (Some (Opened sub_in sub_out sink))
                        (push_event (NotifyBehaviour (OutOpened (iu_tag up) sink (iu_handshake up)))
                          (new_channel h)))
             in (case sp_state p of
                   Some Closed \<Rightarrow>
                     set_state pid (Some (PartiallyOpenedByPeer (iu_substream up)))
                       (push_event (NotifyBehaviour (OpenedByPeer (iu_tag up) (iu_handshake up))) h)
                 | Some Opening \<Rightarrow> set_state pid (Some (PartiallyOpenedByPeer (iu_substream up))) h
                 | Some (PartiallyOpened sub_out) \<Rightarrow> reopen sub_out
                 | Some (InboundClosedByPeer sub_out sink) \<Rightarrow> reopen sub_out
                 | _ \<Rightarrow> h))"

definition on_negotiated_outbound ::
  "outbound_upgraded \<Rightarrow> protocol_tag \<Rightarrow> 'pid conn_handler \<Rightarrow> 'pid conn_handler" where
  "on_negotiated_outbound up info h =
     (let pid = tag_protocol_id info
      in case ch_stateful h pid of
           None \<Rightarrow> h
         | Some p \<Rightarrow>
             (case sp_state p of
                Some Opening \<Rightarrow> set_state pid (Some (PartiallyOpened (ou_substream up))) h
              | Some (Accepting (Some sub_in)) \<Rightarrow>
                  let sink = ch_next_sink h
                  in set_state pid (Some (Opened sub_in (ou_substream up) sink))
                       (push_event (NotifyBehaviour (OutOpened info sink None)) (new_channel h))
              | _ \<Rightarrow> h))"

definition on_dial_upgrade_error :: "protocol_tag \<Rightarrow> 'pid conn_handler \<Rightarrow> 'pid conn_handler" where
  "on_dial_upgrade_error tag h =
     (let pid = tag_protocol_id tag
      in case ch_stateful h pid of
           None \<Rightarrow> h
         | Some p \<Rightarrow>
             set_state pid (Some Closed)
               (case sp_state p of
                  Some Opening \<Rightarrow> push_event (NotifyBehaviour (RefusedToOpen pid)) h
                | Some (Accepting sub) \<Rightarrow> push_event (NotifyBehaviour (RefusedToOpen pid)) h
                | _ \<Rightarrow> h))"

fun on_connection_event :: "connection_event \<Rightarrow> 'pid conn_handler \<Rightarrow> 'pid conn_handler" where
  "on_connection_event (NegotiatedInboundOneShot msg) h =
     push_event (NotifyBehaviour (OutOneShotMessage (os_protocol msg) (os_content msg))) h"
| "on_connection_event (NegotiatedInbound up) h = on_negotiated_inbound up h"
| "on_connection_event (NegotiatedOutboundOneShot rid) h = h\<lparr>ch_requests := (ch_requests h)(rid := None)\<rparr>"
| "on_connection_event (NegotiatedOutbound up info) h = on_negotiated_outbound up info h"
| "on_connection_event (DialUpgradeError tag) h = on_dial_upgrade_error tag h"
| "on_connection_event OtherConnectionEvent h = h"

section \<open>Keeping the connection\<close>

datatype keep_alive = KeepAliveYes | KeepAliveUntil nat

definition MIN_TERM_DELAY :: nat where
  "MIN_TERM_DELAY = 50"

text \<open>\<open>order\<close> and \<open>rids\<close> enumerate the protocols and the requests.\<close>

definition connection_keep_alive ::
  "nat \<Rightarrow> protocol_id list \<Rightarrow> 64 word list \<Rightarrow> 'pid conn_handler \<Rightarrow> keep_alive" where
  "connection_keep_alive now order rids h =
     (if (\<exists>pid \<in> set order. \<exists>p. ch_stateful h pid = Some p \<and> sp_state p \<noteq> Some Closed) \<or>
         (\<exists>rid \<in> set rids. ch_requests h rid \<noteq> None)
      then KeepAliveYes
      else if ch_terminate_asap h then KeepAliveUntil (now + MIN_TERM_DELAY)
      else KeepAliveUntil (ch_created_at h + initial_keep_alive (ch_conf h)))"

section \<open>Polling\<close>

text \<open>
  What one poll gets from outside: an enumeration of the one-shot requests and of the protocols, for
  each protocol whether its outbound socket is ready for the next message (asked in turn), the result
  of flushing, the answers of the inbound socket, and whether the delay has passed (asked in turn).
\<close>

record poll_env =
  pe_requests :: "64 word list"
  pe_protocols :: "protocol_id list"
  pe_ready :: "protocol_id \<Rightarrow> bool list"
  pe_flush :: "protocol_id \<Rightarrow> io_poll"
  pe_socket :: "protocol_id \<Rightarrow> socket_env"
  pe_delay :: "bool list"

definition fire_one_shot :: "64 word \<Rightarrow> 'pid conn_handler \<Rightarrow> 'pid conn_handler" where
  "fire_one_shot rid h =
     (case ch_requests h rid of
        None \<Rightarrow> h
      | Some req \<Rightarrow>
          let h' = (case req of
                OsPending msg \<Rightarrow>
                  push_event (OutboundSubstreamRequest
                    (Inr \<lparr>osu_protocol = os_protocol msg, osu_id = rid, osu_message = os_content msg\<rparr>)
                    (os_protocol msg) (open_timeout (ch_conf h))) h
              | Confirming \<Rightarrow> h)
          in h'\<lparr>ch_requests := (ch_requests h')(rid \<mapsto> Confirming)\<rparr>)"

definition fire_one_shots :: "64 word list \<Rightarrow> 'pid conn_handler \<Rightarrow> 'pid conn_handler" where
  "fire_one_shots rids h = fold fire_one_shot rids h"

text \<open>How the loop that sends the messages of one protocol ends.\<close>

datatype send_result = SendBreak | SendClose | SendWait

text \<open>
  The loop over the queue of a protocol: arguments are the throttle stage, the answers of the delay,
  the answers of the socket, the queue and the substream; each iteration takes a message. A delay or a
  socket whose answers are used up is not ready.
\<close>

fun send_loop ::
  "throttle_stage \<Rightarrow> bool list \<Rightarrow> bool list \<Rightarrow> stream_notification list \<Rightarrow> substream_out
   \<Rightarrow> throttle_stage \<times> bool list \<times> stream_notification list \<times> substream_out \<times> send_result" where
  "send_loop th delays ready queue out =
     (let th = (if th = ThrottleFinish then ThrottleStart else th)
      in case queue of
           [] \<Rightarrow> (th, delays, queue, out, SendBreak)
         | ForceClose # _ \<Rightarrow> (th, delays, queue, out, SendClose)
         | StreamMessage msg # rest \<Rightarrow>
             let th = (if th = ThrottleStart then ThrottleInProgress else th);
                 send = (\<lambda>th delays.
                   case ready of
                     True # ready' \<Rightarrow> send_loop th delays ready' rest (start_send msg out)
                   | _ \<Rightarrow> (th, delays, queue, out, SendBreak))
             in if th = ThrottleInProgress then
                  (case delays of
                     True # delays' \<Rightarrow> send ThrottleFinish delays'
                   | _ \<Rightarrow> (th, drop 1 delays, queue, out, SendWait))
                else send th delays)"

declare send_loop.simps [simp del]

definition send_protocol ::
  "poll_env \<Rightarrow> protocol_id \<Rightarrow> bool list \<Rightarrow> 'pid conn_handler \<Rightarrow> 'pid conn_handler \<times> bool list \<times> send_result" where
  "send_protocol env pid delays h =
     (let run = (\<lambda>out sink rebuild.
        let (th, delays', q, out', r) =
              send_loop (ch_throttle h) delays (pe_ready env pid) (ch_queues h sink) out
        in (set_state pid (Some (rebuild out'))
              (h\<lparr>ch_throttle := th, ch_queues := (ch_queues h)(sink := q)\<rparr>), delays', r))
      in case ch_stateful h pid of
           None \<Rightarrow> (h, delays, SendBreak)
         | Some p \<Rightarrow>
             (case sp_state p of
                Some (Opened sub_in out sink) \<Rightarrow> run out sink (\<lambda>out. Opened sub_in out sink)
              | Some (InboundClosedByPeer out sink) \<Rightarrow> run out sink (\<lambda>out. InboundClosedByPeer out sink)
              | _ \<Rightarrow> (h, delays, SendBreak)))"

fun send_all ::
  "poll_env \<Rightarrow> protocol_id list \<Rightarrow> bool list \<Rightarrow> 'pid conn_handler \<Rightarrow> 'pid conn_handler \<times> send_result" where
  "send_all env [] delays h = (h, SendBreak)"
| "send_all env (pid # pids) delays h =
     (let (h', delays', r) = send_protocol env pid delays h
      in if r = SendBreak then send_all env pids delays' h' else (h', r))"

text \<open>Flushing: the first protocol whose substream fails is reported.\<close>

fun flush_all :: "poll_env \<Rightarrow> protocol_id list \<Rightarrow> 'pid conn_handler \<Rightarrow> 'pid conn_handler \<times> conn_handler_event option" where
  "flush_all env [] h = (h, None)"
| "flush_all env (pid # pids) h =
     (let closed = (\<lambda>st. (set_state pid (Some st) h, Some (NotifyBehaviour (ClosedByPeer pid))))
      in case Option.bind (ch_stateful h pid) sp_state of
           Some (Opened sub_in out sink) \<Rightarrow>
             if pe_flush env pid = IoErr then closed (OutboundClosedByPeer sub_in) else flush_all env pids h
         | Some (InboundClosedByPeer out sink) \<Rightarrow>
             if pe_flush env pid = IoErr then closed Closed else flush_all env pids h
         | _ \<Rightarrow> flush_all env pids h)"

text \<open>Reading one protocol: the first event ends the poll.\<close>

definition read_protocol ::
  "poll_env \<Rightarrow> protocol_id \<Rightarrow> 'pid conn_handler \<Rightarrow> 'pid conn_handler \<times> conn_handler_event option" where
  "read_protocol env pid h =
     (case ch_stateful h pid of
        None \<Rightarrow> (h, None)
      | Some p \<Rightarrow>
          let sk = pe_socket env pid;
              msg = (\<lambda>m. Some (NotifyBehaviour (OutMessage (new_tag pid (sp_ver p)) m)))
          in (case sp_state p of
                Some (Opened sub_in out sink) \<Rightarrow>
                  (case poll_next_in sk sub_in of
                     (sub, ReadPending) \<Rightarrow> (set_state pid (Some (Opened sub out sink)) h, None)
                   | (sub, ReadMsg m) \<Rightarrow> (set_state pid (Some (Opened sub out sink)) h, msg m)
                   | _ \<Rightarrow> (set_state pid (Some (InboundClosedByPeer out sink)) h, None))
              | Some (OutboundClosedByPeer sub_in) \<Rightarrow>
                  (case poll_next_in sk sub_in of
                     (sub, ReadPending) \<Rightarrow> (set_state pid (Some (OutboundClosedByPeer sub)) h, None)
                   | (sub, ReadMsg m) \<Rightarrow> (set_state pid (Some (OutboundClosedByPeer sub)) h, msg m)
                   | _ \<Rightarrow> (set_state pid (Some Closed) h, None))
              | Some (PartiallyOpenedByPeer sub_in) \<Rightarrow>
                  (case poll_process_handshake sk sub_in of
                     (sub, False) \<Rightarrow> (set_state pid (Some (PartiallyOpenedByPeer sub)) h, None)
                   | (sub, True) \<Rightarrow>
                       (set_state pid (Some Closed) h, Some (NotifyBehaviour (ClosedByPeer pid))))
              | Some (Accepting (Some sub_in)) \<Rightarrow>
                  (case poll_process_handshake sk sub_in of
                     (sub, False) \<Rightarrow> (set_state pid (Some (Accepting (Some sub))) h, None)
                   | (sub, True) \<Rightarrow> (set_state pid (Some (Accepting None)) h, None))
              | _ \<Rightarrow> (h, None)))"

fun read_all :: "poll_env \<Rightarrow> protocol_id list \<Rightarrow> 'pid conn_handler \<Rightarrow> 'pid conn_handler \<times> conn_handler_event option" where
  "read_all env [] h = (h, None)"
| "read_all env (pid # pids) h =
     (case read_protocol env pid h of
        (h', Some e) \<Rightarrow> (h', Some e)
      | (h', None) \<Rightarrow> read_all env pids h')"

text \<open>\<open>poll\<close>: \<open>None\<close> is \<open>Poll::Pending\<close>.\<close>

definition conn_poll :: "poll_env \<Rightarrow> 'pid conn_handler \<Rightarrow> 'pid conn_handler \<times> conn_handler_event option" where
  "conn_poll env h =
     (let h = fire_one_shots (pe_requests env) h
      in case ch_events h of
           e # es \<Rightarrow> (h\<lparr>ch_events := es\<rparr>, Some e)
         | [] \<Rightarrow>
             (case send_all env (pe_protocols env) (pe_delay env) h of
                (h, SendClose) \<Rightarrow> (h\<lparr>ch_fault := Some SyncChannelExhausted\<rparr>, Some (CloseConn SyncChannelExhausted))
              | (h, SendWait) \<Rightarrow> (h, None)
              | (h, SendBreak) \<Rightarrow>
                  (case flush_all env (pe_protocols env) h of
                     (h, Some e) \<Rightarrow> (h, Some e)
                   | (h, None) \<Rightarrow> read_all env (pe_protocols env) h)))"

text \<open>A message sink puts a notification on its channel.\<close>

definition enqueue :: "sink_id \<Rightarrow> stream_notification \<Rightarrow> 'pid conn_handler \<Rightarrow> 'pid conn_handler" where
  "enqueue sink n h = h\<lparr>ch_queues := (ch_queues h)(sink := ch_queues h sink @ [n])\<rparr>"

end
