(* ===== verification/Network.thy ===== *)
theory Network
  imports Conn_Handler Peer_Manager
begin

text \<open>
  The network controller (\<open>spectrum-network/src/network_controller.rs\<close>): the peers it is connected to
  and the protocols enabled with them, the events of the swarm and of connection handlers, the
  commands of the peer manager and the requests of protocol handlers. The mailboxes of the peer
  manager and of protocol handlers are the lists of what was put into them (\<open>nc_peers\<close>,
  \<open>nc_events\<close>); the commands the peer manager yields during a poll are an argument. A handler is a
  value \<open>'h\<close> that identifies its mailbox, a connection identifier is a number.
\<close>

section \<open>State\<close>

datatype enabled_protocol =
    EnabledP protocol_ver sink_id
  | PendingApproveP
  | PendingEnableP
  | PendingDisableP

datatype 'h connected_peer =
    PeerConnected "nat list" "protocol_id \<rightharpoonup> enabled_protocol \<times> 'h"
  | PeerPendingApprove nat
  | PeerPendingConnect "one_shot_message list" bool
  | PeerPendingDisconnect nat

datatype 'pid network_controller_out =
    ConnectedWithInboundPeer 'pid
  | ConnectedWithOutboundPeer 'pid
  | Disconnected 'pid connection_loss_reason
  | ProtocolPendingApprove 'pid protocol_id
  | ProtocolPendingEnable 'pid protocol_id
  | ProtocolEnabled 'pid protocol_id protocol_ver
  | ProtocolDisabled 'pid protocol_id
  | PeerPunished 'pid reputation_change

datatype ('pid, 'addr) to_swarm =
    GenerateEvent "'pid network_controller_out"
  | NotifyHandler 'pid nat conn_handler_in
  | CloseConnection 'pid nat
  | Dial 'pid "'addr list"

record ('pid, 'addr, 'ch, 'h) network_controller =
  nc_conf :: conn_handler_conf
  nc_supported :: "protocol_id \<rightharpoonup> protocol_config \<times> 'h"
  nc_peers :: "('pid, 'addr, 'ch) peer_manager_in list"
  nc_enabled :: "'pid \<rightharpoonup> 'h connected_peer"
  nc_requests :: "('pid, 'addr) network_controller_in list"
  nc_actions :: "('pid, 'addr) to_swarm list"
  nc_events :: "('h \<times> 'pid protocol_event) list"

definition new_controller ::
  "conn_handler_conf \<Rightarrow> (protocol_id \<rightharpoonup> protocol_config \<times> 'h) \<Rightarrow> ('pid, 'addr, 'ch, 'h) network_controller" where
  "new_controller cf supported =
     \<lparr>nc_conf = cf, nc_supported = supported, nc_peers = [], nc_enabled = Map.empty, nc_requests = [],
      nc_actions = [], nc_events = []\<rparr>"

definition push_action ::
  "('pid, 'addr) to_swarm \<Rightarrow> ('pid, 'addr, 'ch, 'h) network_controller \<Rightarrow> ('pid, 'addr, 'ch, 'h) network_controller" where
  "push_action a nc = nc\<lparr>nc_actions := nc_actions nc @ [a]\<rparr>"

definition call_peers ::
  "'pid peer_event \<Rightarrow> ('pid, 'addr, 'ch, 'h) network_controller \<Rightarrow> ('pid, 'addr, 'ch, 'h) network_controller" where
  "call_peers e nc = nc\<lparr>nc_peers := nc_peers nc @ [Notification e]\<rparr>"

definition call_handler ::
  "'h \<Rightarrow> 'pid protocol_event \<Rightarrow> ('pid, 'addr, 'ch, 'h) network_controller
   \<Rightarrow> ('pid, 'addr, 'ch, 'h) network_controller" where
  "call_handler han e nc = nc\<lparr>nc_events := nc_events nc @ [(han, e)]\<rparr>"

definition set_peer ::
  "'pid \<Rightarrow> 'h connected_peer option \<Rightarrow> ('pid, 'addr, 'ch, 'h) network_controller
   \<Rightarrow> ('pid, 'addr, 'ch, 'h) network_controller" where
  "set_peer p cp nc = nc\<lparr>nc_enabled := (nc_enabled nc)(p := cp)\<rparr>"

section \<open>Handlers of new connections\<close>

definition init_stateful :: "protocol_config \<Rightarrow> stateful_protocol option" where
  "init_stateful cfg =
     (case cfg of
        StatefulConfig vers \<Rightarrow>
          fold (\<lambda>(ver, spec) _. Some \<lparr>sp_ver = ver, sp_spec = spec, sp_state = Some Closed, sp_all_versions = vers\<rparr>)
            vers None
      | OneShotConfig _ _ \<Rightarrow> None)"

definition init_one_shot :: "protocol_config \<Rightarrow> one_shot_protocol option" where
  "init_one_shot cfg =
     (case cfg of
        StatefulConfig _ \<Rightarrow> None
      | OneShotConfig ver max_size \<Rightarrow> Some \<lparr>op_ver = ver, op_max_message_size = max_size\<rparr>)"

text \<open>\<open>rids\<close> are the random identifiers of the requests. Throttling is a feature for tests and off.\<close>

definition init_conn_handler ::
  "nat \<Rightarrow> 64 word list \<Rightarrow> 'pid \<Rightarrow> one_shot_message list \<Rightarrow> bool
   \<Rightarrow> ('pid, 'addr, 'ch, 'h) network_controller \<Rightarrow> 'pid conn_handler" where
  "init_conn_handler now rids p msgs terminate_asap nc =
     \<lparr>ch_conf = nc_conf nc,
      ch_stateful = (\<lambda>pid. Option.bind (nc_supported nc pid) (\<lambda>(cfg, _). init_stateful cfg)),
      ch_one_shot = (\<lambda>pid. Option.bind (nc_supported nc pid) (\<lambda>(cfg, _). init_one_shot cfg)),
      ch_created_at = now, ch_peer = p, ch_events = [], ch_fault = None, ch_throttle = ThrottleDisable,
      ch_requests = map_of (rev (zip rids (map OsPending msgs))), ch_terminate_asap = terminate_asap,
      ch_queues = (\<lambda>_. []), ch_next_sink = 0\<rparr>"

definition handle_established_inbound ::
  "nat \<Rightarrow> 64 word list \<Rightarrow> 'pid \<Rightarrow> ('pid, 'addr, 'ch, 'h) network_controller \<Rightarrow> 'pid conn_handler" where
  "handle_established_inbound now rids p nc = init_conn_handler now rids p [] False nc"

definition handle_established_outbound ::
  "nat \<Rightarrow> 64 word list \<Rightarrow> 'pid \<Rightarrow> ('pid, 'addr, 'ch, 'h) network_controller \<Rightarrow> 'pid conn_handler" where
  "handle_established_outbound now rids p nc =
     (case nc_enabled nc p of
        Some (PeerPendingConnect tasks terminate_asap) \<Rightarrow> init_conn_handler now rids p tasks terminate_asap nc
      | _ \<Rightarrow> init_conn_handler now rids p [] False nc)"

section \<open>Events of the swarm\<close>

datatype 'pid swarm_event =
    SwConnectionEstablished 'pid nat
  | SwConnectionClosed 'pid nat "conn_handler_error option"
  | SwDialFailure "'pid option"
  | SwOther

text \<open>\<open>order\<close> lists the supported protocols, whose handlers are told of a new connection.\<close>

definition on_established ::
  "protocol_id list \<Rightarrow> 'pid \<Rightarrow> nat \<Rightarrow> ('pid, 'addr, 'ch, 'h) network_controller
   \<Rightarrow> ('pid, 'addr, 'ch, 'h) network_controller res" where
  "on_established order p c nc =
     (case nc_enabled nc p of
        Some (PeerPendingConnect tasks _) \<Rightarrow>
          let nc = fold (\<lambda>msg. push_action (NotifyHandler p c (TryDeliverOnce msg))) tasks nc;
              nc = call_peers (ConnectionEstablished p c) nc;
              nc = set_peer p (Some (PeerConnected [c] Map.empty)) nc;
              nc = fold (\<lambda>pid nc. case nc_supported nc pid of
                     Some (_, han) \<Rightarrow> call_handler han (EvConnected p) nc | None \<Rightarrow> nc) order nc
          in Inr (push_action (GenerateEvent (ConnectedWithOutboundPeer p)) nc)
      | Some (PeerConnected conns prots) \<Rightarrow>
          if c \<in> set conns then Inl AssertFailed
          else Inr (push_action (CloseConnection p c) (set_peer p (Some (PeerConnected (conns @ [c]) prots)) nc))
      | Some (PeerPendingDisconnect _) \<Rightarrow> Inr (push_action (CloseConnection p c) nc)
      | Some (PeerPendingApprove _) \<Rightarrow> Inr (push_action (CloseConnection p c) nc)
      | None \<Rightarrow> Inr (set_peer p (Some (PeerPendingApprove c)) (call_peers (IncomingConnection p c) nc)))"

definition loss_reason :: "conn_handler_error option \<Rightarrow> connection_loss_reason" where
  "loss_reason fault = (case fault of Some err \<Rightarrow> Reset err | None \<Rightarrow> ResetByPeer)"

definition on_conn_closed ::
  "'pid \<Rightarrow> nat \<Rightarrow> conn_handler_error option \<Rightarrow> ('pid, 'addr, 'ch, 'h) network_controller
   \<Rightarrow> ('pid, 'addr, 'ch, 'h) network_controller res" where
  "on_conn_closed p c fault nc =
     (let lost = (\<lambda>nc. push_action (GenerateEvent (Disconnected p (loss_reason fault)))
                   (call_peers (ConnectionLost p (loss_reason fault)) nc))
      in case nc_enabled nc p of
           Some (PeerConnected conns prots) \<Rightarrow>
             res_bind (unwrap (position (\<lambda>c'. c' = c) conns)) (\<lambda>ix.
               let conns' = take ix conns @ drop (Suc ix) conns
               in Inr (lost (set_peer p (if conns' = [] then None else Some (PeerConnected conns' prots)) nc)))
         | Some (PeerPendingDisconnect _) \<Rightarrow> Inr (lost (set_peer p None nc))
         | _ \<Rightarrow> Inr nc)"

fun on_swarm_event ::
  "protocol_id list \<Rightarrow> 'pid swarm_event \<Rightarrow> ('pid, 'addr, 'ch, 'h) network_controller
   \<Rightarrow> ('pid, 'addr, 'ch, 'h) network_controller res" where
  "on_swarm_event order (SwConnectionEstablished p c) nc = on_established order p c nc"
| "on_swarm_event order (SwConnectionClosed p c fault) nc = on_conn_closed p c fault nc"
| "on_swarm_event order (SwDialFailure (Some p)) nc = Inr (call_peers (DialFailure p) nc)"
| "on_swarm_event order (SwDialFailure None) nc = Inr nc"
| "on_swarm_event order SwOther nc = Inr nc"

section \<open>Events of connection handlers\<close>

definition on_protocol_opened ::
  "'pid \<Rightarrow> protocol_tag \<Rightarrow> sink_id \<Rightarrow> raw_message option \<Rightarrow> ('pid, 'addr, 'ch, 'h) network_controller
   \<Rightarrow> ('pid, 'addr, 'ch, 'h) network_controller" where
  "on_protocol_opened p tag sink hs nc =
     (case nc_enabled nc p of
        Some (PeerConnected conns prots) \<Rightarrow>
          let pid = tag_protocol_id tag; ver = tag_protocol_ver tag
          in (case prots pid of
                Some (PendingEnableP, han) \<Rightarrow>
                  push_action (GenerateEvent (ProtocolEnabled p pid ver))
                    (set_peer p (Some (PeerConnected conns (prots(pid \<mapsto> (EnabledP ver sink, han)))))
                      (call_handler han (EvEnabled p ver sink hs) nc))
              | _ \<Rightarrow> nc)
      | _ \<Rightarrow> nc)"

definition on_opened_by_peer ::
  "'pid \<Rightarrow> nat \<Rightarrow> protocol_tag \<Rightarrow> raw_message option \<Rightarrow> ('pid, 'addr, 'ch, 'h) network_controller
   \<Rightarrow> ('pid, 'addr, 'ch, 'h) network_controller res" where
  "on_opened_by_peer p c tag hs nc =
     (case nc_enabled nc p of
        Some (PeerConnected conns prots) \<Rightarrow>
          let pid = tag_protocol_id tag
          in res_bind (unwrap (nc_supported nc pid)) (\<lambda>(_, han).
               case prots pid of
                 None \<Rightarrow>
                   Inr (push_action (GenerateEvent (ProtocolPendingApprove p pid))
                     (call_handler han (EvRequested p (tag_protocol_ver tag) hs)
                       (set_peer p (Some (PeerConnected conns (prots(pid \<mapsto> (PendingApproveP, han))))) nc)))
               | Some _ \<Rightarrow> Inr (push_action (NotifyHandler p c (Close pid)) nc))
      | _ \<Rightarrow> Inr nc)"

definition on_protocol_closed ::
  "'pid \<Rightarrow> protocol_id \<Rightarrow> ('pid, 'addr, 'ch, 'h) network_controller \<Rightarrow> ('pid, 'addr, 'ch, 'h) network_controller" where
  "on_protocol_closed p pid nc =
     (case nc_enabled nc p of
        Some (PeerConnected conns prots) \<Rightarrow> set_peer p (Some (PeerConnected conns (prots(pid := None)))) nc
      | _ \<Rightarrow> nc)"

fun on_connection_handler_event ::
  "'pid \<Rightarrow> nat \<Rightarrow> conn_handler_out \<Rightarrow> ('pid, 'addr, 'ch, 'h) network_controller
   \<Rightarrow> ('pid, 'addr, 'ch, 'h) network_controller res" where
  "on_connection_handler_event p c (OutOpened tag sink hs) nc = Inr (on_protocol_opened p tag sink hs nc)"
| "on_connection_handler_event p c (OpenedByPeer tag hs) nc = on_opened_by_peer p c tag hs nc"
| "on_connection_handler_event p c (ClosedByPeer pid) nc = Inr (on_protocol_closed p pid nc)"
| "on_connection_handler_event p c (RefusedToOpen pid) nc = Inr (on_protocol_closed p pid nc)"
| "on_connection_handler_event p c (OutClosed pid) nc = Inr (on_protocol_closed p pid nc)"
| "on_connection_handler_event p c ClosedAllProtocols nc =
     (if nc_enabled nc p = None then Inl AssertFailed else Inr (set_peer p None nc))"
| "on_connection_handler_event p c (OutOneShotMessage tag content) nc =
     Inr (case nc_supported nc (tag_protocol_id tag) of
            Some (_, han) \<Rightarrow> call_handler han (EvMessage p (tag_protocol_ver tag) content) nc
          | None \<Rightarrow> nc)"
| "on_connection_handler_event p c (OutMessage tag content) nc =
     Inr (case nc_enabled nc p of
            Some (PeerConnected conns prots) \<Rightarrow>
              (case prots (tag_protocol_id tag) of
                 Some (_, han) \<Rightarrow> call_handler han (EvMessage p (tag_protocol_ver tag) content) nc
               | None \<Rightarrow> nc)
          | _ \<Rightarrow> nc)"

section \<open>Commands of the peer manager\<close>

fun dial_opts :: "('pid, 'addr) peer_destination \<Rightarrow> ('pid, 'addr) to_swarm" where
  "dial_opts (PeerId p) = Dial p []"
| "dial_opts (PeerIdWithAddr p a) = Dial p [a]"

definition first_conn :: "nat list \<Rightarrow> nat res" where
  "first_conn conns = unwrap (case conns of [] \<Rightarrow> None | c # _ \<Rightarrow> Some c)"

definition on_start_protocol ::
  "protocol_id \<Rightarrow> 'pid \<Rightarrow> ('pid, 'addr, 'ch, 'h) network_controller
   \<Rightarrow> ('pid, 'addr, 'ch, 'h) network_controller res" where
  "on_start_protocol pid p nc =
     (case nc_enabled nc p of
        Some (PeerConnected conns prots) \<Rightarrow>
          res_bind (unwrap (nc_supported nc pid)) (\<lambda>(_, han).
            case prots pid of
              Some _ \<Rightarrow> Inr nc
            | None \<Rightarrow>
                Inr (push_action (GenerateEvent (ProtocolPendingEnable p pid))
                  (call_handler han (EvRequestedLocal p)
                    (set_peer p (Some (PeerConnected conns (prots(pid \<mapsto> (PendingEnableP, han))))) nc))))
      | _ \<Rightarrow> Inr nc)"

text \<open>One command; the flag says whether the loop continues without looking at requests.\<close>

fun on_manager_out ::
  "('pid, 'addr) peer_manager_out \<Rightarrow> ('pid, 'addr, 'ch, 'h) network_controller
   \<Rightarrow> (('pid, 'addr, 'ch, 'h) network_controller \<times> bool) res" where
  "on_manager_out (Connect dest) nc =
     (let p = dest_peer_id dest
      in Inr (if nc_enabled nc p = None
              then push_action (dial_opts dest) (set_peer p (Some (PeerPendingConnect [] False)) nc) else nc, True))"
| "on_manager_out (Drop p) nc =
     (case nc_enabled nc p of
        Some (PeerConnected conns prots) \<Rightarrow>
          res_bind (first_conn conns) (\<lambda>c.
            Inr (push_action (GenerateEvent (Disconnected p (Reset UnacceptablePeer)))
                   (push_action (NotifyHandler p c CloseAllProtocols) nc), True))
      | _ \<Rightarrow> Inr (nc, True))"
| "on_manager_out (AcceptIncomingConnection p c) nc =
     (case nc_enabled nc p of
        Some (PeerPendingApprove _) \<Rightarrow>
          Inr (push_action (GenerateEvent (ConnectedWithInboundPeer p))
                 (set_peer p (Some (PeerConnected [c] Map.empty)) nc), False)
      | _ \<Rightarrow> Inr (nc, False))"
| "on_manager_out (Reject p c) nc =
     (case nc_enabled nc p of
        Some (PeerPendingApprove _) \<Rightarrow>
          Inr (push_action (NotifyHandler p c CloseAllProtocols) (set_peer p None nc), True)
      | _ \<Rightarrow> Inr (nc, True))"
| "on_manager_out (StartProtocol pid p) nc =
     res_bind (on_start_protocol pid p nc) (\<lambda>nc. Inr (nc, True))"
| "on_manager_out (NotifyPeerPunished p reason) nc =
     Inr (push_action (GenerateEvent (PeerPunished p reason)) nc, True)"

section \<open>Requests of protocol handlers\<close>

definition on_send_one_shot ::
  "'pid \<Rightarrow> 'addr option \<Rightarrow> protocol_tag \<Rightarrow> raw_message \<Rightarrow> ('pid, 'addr, 'ch, 'h) network_controller
   \<Rightarrow> ('pid, 'addr, 'ch, 'h) network_controller res" where
  "on_send_one_shot p addr_hint tag content nc =
     (let msg = \<lparr>os_protocol = tag, os_content = content\<rparr>
      in case nc_enabled nc p of
           Some (PeerConnected conns _) \<Rightarrow>
             res_bind (first_conn conns) (\<lambda>c. Inr (push_action (NotifyHandler p c (TryDeliverOnce msg)) nc))
         | Some (PeerPendingApprove c) \<Rightarrow> Inr (push_action (NotifyHandler p c (TryDeliverOnce msg)) nc)
         | Some (PeerPendingConnect tasks asap) \<Rightarrow>
             Inr (set_peer p (Some (PeerPendingConnect (tasks @ [msg]) asap)) nc)
         | Some (PeerPendingDisconnect _) \<Rightarrow> Inr nc
         | None \<Rightarrow>
             Inr (set_peer p (Some (PeerPendingConnect [msg] True))
               (push_action (Dial p (case addr_hint of None \<Rightarrow> [] | Some a \<Rightarrow> [a])) nc)))"

definition on_enable_protocol ::
  "protocol_id \<Rightarrow> 'pid \<Rightarrow> poly_ver_handshake_spec \<Rightarrow> ('pid, 'addr, 'ch, 'h) network_controller
   \<Rightarrow> ('pid, 'addr, 'ch, 'h) network_controller res" where
  "on_enable_protocol pid p hs nc =
     (case nc_enabled nc p of
        Some (PeerConnected conns prots) \<Rightarrow>
          res_bind (unwrap (nc_supported nc pid)) (\<lambda>(_, prot_handler).
            let pending = (\<lambda>han. Some (PeerConnected conns (prots(pid \<mapsto> (PendingEnableP, han)))))
            in case prots pid of
                 Some (st, han) \<Rightarrow>
                   if st = PendingEnableP \<or> st = PendingApproveP
                   then res_bind (first_conn conns) (\<lambda>c.
                          Inr (push_action (NotifyHandler p c (Open pid hs)) (set_peer p (pending han) nc)))
                   else Inr nc
               | None \<Rightarrow>
                   res_bind (first_conn conns) (\<lambda>c.
                     Inr (push_action (GenerateEvent (ProtocolPendingEnable p pid))
                       (push_action (NotifyHandler p c (Open pid hs))
                         (call_peers (ForceEnabled p pid) (set_peer p (pending prot_handler) nc))))))
      | _ \<Rightarrow> Inr nc)"

fun on_request ::
  "('pid, 'addr) network_controller_in \<Rightarrow> ('pid, 'addr, 'ch, 'h) network_controller
   \<Rightarrow> ('pid, 'addr, 'ch, 'h) network_controller res" where
  "on_request (SendOneShot p addr_hint tag content) nc = on_send_one_shot p addr_hint tag content nc"
| "on_request (SetPeerProtocols p pids) nc = Inr (nc\<lparr>nc_peers := nc_peers nc @ [Request (SetProtocols p pids)]\<rparr>)"
| "on_request (EnableProtocol pid p hs) nc = on_enable_protocol pid p hs nc"
| "on_request (BanPeerReq p) nc = Inr nc"

section \<open>Polling\<close>

text \<open>
  The loop of \<open>poll\<close>. Each iteration that finds no pending action takes one answer of the peer
  manager; the result is \<open>None\<close> when the answers run out before the loop returns, \<open>Some None\<close> is
  \<open>Poll::Pending\<close>.
\<close>

fun nc_poll ::
  "('pid, 'addr) peer_manager_out poll_option list \<Rightarrow> ('pid, 'addr, 'ch, 'h) network_controller
   \<Rightarrow> (('pid, 'addr, 'ch, 'h) network_controller \<times> ('pid, 'addr) to_swarm option option) res" where
  "nc_poll [] nc =
     (case nc_actions nc of
        a # as \<Rightarrow> Inr (nc\<lparr>nc_actions := as\<rparr>, Some (Some a))
      | [] \<Rightarrow> Inr (nc, None))"
| "nc_poll (i # is) nc =
     (case nc_actions nc of
        a # as \<Rightarrow> Inr (nc\<lparr>nc_actions := as\<rparr>, Some (Some a))
      | [] \<Rightarrow>
          res_bind (case i of
              PollReady out \<Rightarrow> on_manager_out out nc
            | PollPending \<Rightarrow> Inr (nc, False)
            | PollEnd \<Rightarrow> Inl AssertFailed) (\<lambda>(nc, continue).
          if continue then nc_poll is nc
          else (case nc_requests nc of
                  r # rs \<Rightarrow> res_bind (on_request r (nc\<lparr>nc_requests := rs\<rparr>)) (nc_poll is)
                | [] \<Rightarrow> Inr (nc, Some None))))"

section \<open>The controller as a machine\<close>

text \<open>
  What happens to a controller: events of the swarm and of handlers, requests put in its mailbox, and
  polls.
\<close>

datatype ('pid, 'addr) nc_event =
    SwarmEvent "'pid swarm_event"
  | HandlerEvent 'pid nat conn_handler_out
  | MailboxRequest "('pid, 'addr) network_controller_in"
  | PollEvent "('pid, 'addr) peer_manager_out poll_option list"

fun nc_step ::
  "protocol_id list \<Rightarrow> ('pid, 'addr, 'ch, 'h) network_controller \<Rightarrow> ('pid, 'addr) nc_event
   \<Rightarrow> ('pid, 'addr, 'ch, 'h) network_controller res" where
  "nc_step order nc (SwarmEvent e) = on_swarm_event order e nc"
| "nc_step order nc (HandlerEvent p c e) = on_connection_handler_event p c e nc"
| "nc_step order nc (MailboxRequest r) = Inr (nc\<lparr>nc_requests := nc_requests nc @ [r]\<rparr>)"
| "nc_step order nc (PollEvent is) = res_bind (nc_poll is nc) (\<lambda>(nc, _). Inr nc)"

end
