(* ===== verification/Conn_Correct.thy ===== *)
theory Conn_Correct
  imports Conn_Handler
begin

text \<open>
  Correctness of substream negotiation and of connection handlers: handshakes and approvals reach the
  other side, the state of a handler stays well-formed, outgoing messages are neither lost nor
  reordered by polling, one-shot messages are requested once, and three inputs on which a handler does
  not do what its comments promise.
\<close>

section \<open>Maps over versions\<close>

lemma map_of_ver_insert: "map_of (ver_insert k v xs) = (map_of xs)(k \<mapsto> v)"
  by (induction k v xs rule: ver_insert.induct) auto

lemma map_of_btree_of: "map_of (btree_of xs) = map_of (rev xs)"
proof -
  have "map_of (fold (\<lambda>(k, v). ver_insert k v) xs ys) = map_of (rev xs @ ys)" for ys
    by (induction xs arbitrary: ys) (auto simp: map_of_ver_insert map_add_def fun_eq_iff split: option.split)
  from this [of "[]"] show ?thesis by (simp add: btree_of_def)
qed

lemma map_of_btree_of_distinct:
  assumes "distinct (map fst xs)" "(k, v) \<in> set xs"
  shows "map_of (btree_of xs) k = Some v"
  using assms by (simp add: map_of_btree_of rev_map [symmetric])

section \<open>Negotiation\<close>

text \<open>
  What the code relies on in the framing of messages: a message that is not too long is read back, and
  a short message is preceded by one byte with its length.
\<close>

definition framing_ok :: "framing \<Rightarrow> bool" where
  "framing_ok fr \<longleftrightarrow>
     (\<forall>m rest size. length m \<le> size \<longrightarrow>
        read_length_prefixed fr size (write_length_prefixed fr m @ rest) = Some (m, rest)) \<and>
     (\<forall>m. length m < 128 \<longrightarrow> uvi_encode fr m = word_of_nat (length m) # m)"

text \<open>A socket that takes what it is given.\<close>

definition writable :: "socket_env \<Rightarrow> bool" where
  "writable env \<longleftrightarrow> sk_ready env \<and> sk_send env \<and> sk_flush env = IoReady"

lemma approval_is_sent:
  assumes "writable env" "si_approve s = Some NotSent"
  shows "poll_process_handshake env (send_approve s) =
    (s\<lparr>si_approve := Some Sent, si_written := si_written s @ [approve_bytes]\<rparr>, False)"
  using assms by (simp add: writable_def send_approve_def poll_process_handshake.simps)

text \<open>
  C25. Negotiating a substream with a handshake works: what the dialer writes is read by the listener as
  exactly that handshake, and once the listener approves, what it writes is accepted by the dialer. The
  dialer reads the length of the approval in place of the approval and leaves the latter unread.
\<close>

theorem negotiation_roundtrip:
  assumes fr: "framing_ok fr"
    and outs: "distinct (map fst outs)" "(ver, spec_out, Some hs) \<in> set outs"
    and ins: "distinct (map fst ins)" "(ver, spec_in) \<in> set ins"
    and required: "approve_required spec_in" and size: "length hs \<le> max_message_size spec_in"
    and env: "writable env"
    and tag: "tag = new_tag pid ver"
  shows "\<exists>sent up. 
    (\<forall>answer. \<exists>r. upgrade_outbound fr (new_upgrade_out pid outs) answer tag = Inr (sent, r)) \<and>
    upgrade_inbound fr (new_upgrade_in pid ins) (sent @ rest) tag = Inr (Some (up, rest)) \<and>
    iu_tag up = tag \<and> iu_handshake up = Some hs \<and>
    (\<forall>msgs. si_written (fst (poll_process_handshake env (send_approve (iu_substream up)))) = msgs \<longrightarrow>
      (\<exists>done. upgrade_outbound fr (new_upgrade_out pid outs) (concat (map (uvi_encode fr) msgs)) tag =
        Inr (sent, Some (done, approve_bytes)) \<and> ou_tag done = tag \<and>
        so_max_len (ou_substream done) = max_message_size spec_out))"
proof -
  have o: "map_of (uo_versions (new_upgrade_out pid outs)) ver = Some (max_message_size spec_out, Some hs)"
    unfolding new_upgrade_out_def
    by (simp, rule map_of_btree_of_distinct) (use outs in \<open>force simp: comp_def case_prod_beta\<close>)+
  have i: "map_of (ui_versions (new_upgrade_in pid ins)) ver = Some (inbound_spec spec_in)"
    unfolding new_upgrade_in_def
    by (simp, rule map_of_btree_of_distinct) (use ins in \<open>force simp: comp_def case_prod_beta\<close>)+
  have v: "tag_protocol_ver tag = ver" by (simp add: tag tag_protocol_ver_def new_tag_def)
  have enc: "uvi_encode fr approve_bytes = [1, 1]" using fr by (simp add: framing_ok_def approve_bytes_def)
  have rd: "read_length_prefixed fr (max_message_size spec_in) (write_length_prefixed fr hs @ rest) = Some (hs, rest)"
    using fr size by (simp add: framing_ok_def)
  show ?thesis
    by (intro exI [of _ "write_length_prefixed fr hs"] exI)
      (auto simp: upgrade_outbound_def upgrade_inbound_def o i v rd enc [unfolded approve_bytes_def] required inbound_spec_def
        approval_is_sent [OF env] read_approve_def approve_size_def approve_bytes_def)
qed

section \<open>Well-formed handlers\<close>

abbreviation pstate :: "'pid conn_handler \<Rightarrow> protocol_id \<Rightarrow> protocol_state option" where
  "pstate h pid \<equiv> Option.bind (ch_stateful h pid) sp_state"

fun state_sink :: "protocol_state \<Rightarrow> sink_id option" where
  "state_sink (Opened i out sink) = Some sink"
| "state_sink (InboundClosedByPeer out sink) = Some sink"
| "state_sink _ = None"

definition sink_of :: "'pid conn_handler \<Rightarrow> protocol_id \<Rightarrow> sink_id option" where
  "sink_of h pid = Option.bind (pstate h pid) state_sink"

definition conn_wf :: "'pid conn_handler \<Rightarrow> bool" where
  "conn_wf h \<longleftrightarrow>
     (\<forall>pid. ch_stateful h pid \<noteq> None \<longrightarrow> pstate h pid \<noteq> None) \<and>
     (\<forall>pid s. sink_of h pid = Some s \<longrightarrow> s < ch_next_sink h) \<and>
     (\<forall>pid pid' s. sink_of h pid = Some s \<longrightarrow> sink_of h pid' = Some s \<longrightarrow> pid = pid')"

lemma set_state_simps [simp]:
  "ch_stateful (set_state pid st h) =
     (ch_stateful h)(pid := map_option (\<lambda>p. p\<lparr>sp_state := st\<rparr>) (ch_stateful h pid))"
  "ch_next_sink (set_state pid st h) = ch_next_sink h" "ch_queues (set_state pid st h) = ch_queues h"
  "ch_events (set_state pid st h) = ch_events h" "ch_requests (set_state pid st h) = ch_requests h"
  "ch_throttle (set_state pid st h) = ch_throttle h" "ch_conf (set_state pid st h) = ch_conf h"
  by (simp_all add: set_state_def)

lemma push_event_simps [simp]:
  "ch_stateful (push_event e h) = ch_stateful h" "ch_next_sink (push_event e h) = ch_next_sink h"
  "ch_queues (push_event e h) = ch_queues h" "ch_events (push_event e h) = ch_events h @ [e]"
  "ch_requests (push_event e h) = ch_requests h" "ch_conf (push_event e h) = ch_conf h"
  by (simp_all add: push_event_def)

lemma new_channel_simps [simp]:
  "ch_stateful (new_channel h) = ch_stateful h" "ch_next_sink (new_channel h) = Suc (ch_next_sink h)"
  "ch_queues (new_channel h) = (ch_queues h)(ch_next_sink h := [])" "ch_events (new_channel h) = ch_events h"
  "ch_requests (new_channel h) = ch_requests h"
  by (simp_all add: new_channel_def)

lemma sink_of_set_state:
  "sink_of (set_state pid (Some st) h) pid' =
     (if pid' = pid then (if ch_stateful h pid = None then None else state_sink st) else sink_of h pid')"
  by (auto simp: sink_of_def split: option.split)

lemma pstate_set_state:
  "pstate (set_state pid (Some st) h) pid' =
     (if pid' = pid then (if ch_stateful h pid = None then None else Some st) else pstate h pid')"
  by (auto split: option.split)

text \<open>A handler is well-formed when its protocols, sinks and next sink are.\<close>

lemma conn_wf_cong:
  "conn_wf h \<Longrightarrow> ch_stateful h' = ch_stateful h \<Longrightarrow> ch_next_sink h' = ch_next_sink h \<Longrightarrow> conn_wf h'"
  by (simp add: conn_wf_def sink_of_def)

lemma conn_wf_push [simp]: "conn_wf (push_event e h) \<longleftrightarrow> conn_wf h"
  by (simp add: conn_wf_def sink_of_def)

lemma conn_wf_set_state:
  assumes "conn_wf h" "state_sink st = None \<or> state_sink st = sink_of h pid"
  shows "conn_wf (set_state pid (Some st) h)"
proof -
  have inj: "pid' = pid" if "sink_of h pid' = Some s" "sink_of h pid = Some s" for pid' s
    using assms(1) that by (auto simp: conn_wf_def)
  show ?thesis
    using assms unfolding conn_wf_def sink_of_set_state pstate_set_state
    by (auto simp: set_state_def dest: inj split: if_splits)
qed

lemma conn_wf_new_sink:
  assumes "conn_wf h" "state_sink st = Some (ch_next_sink h)"
  shows "conn_wf (set_state pid (Some st) (push_event e (new_channel h)))"
proof -
  have "sink_of (push_event e (new_channel h)) = sink_of h" by (simp add: sink_of_def fun_eq_iff)
  with assms show ?thesis
    unfolding conn_wf_def sink_of_set_state pstate_set_state
    by (auto simp: less_Suc_eq split: if_splits)
qed

lemma on_open_wf: "conn_wf h \<Longrightarrow> conn_wf (on_open pid hs h)"
  by (auto simp: on_open_def Let_def intro!: conn_wf_set_state split: option.split protocol_state.split)

lemma on_behaviour_event_wf: "conn_wf h \<Longrightarrow> conn_wf (on_behaviour_event rid e h)"
proof (cases e)
  case CloseAllProtocols
  assume "conn_wf h"
  have none: "sink_of (on_behaviour_event rid CloseAllProtocols h) pid = None" for pid
    by (cases "ch_stateful h pid") (simp_all add: sink_of_def)
  show ?thesis unfolding CloseAllProtocols conn_wf_def none
    by (auto split: option.splits)
qed (auto simp: on_open_wf intro: conn_wf_set_state conn_wf_cong)

lemma on_negotiated_inbound_wf: "conn_wf h \<Longrightarrow> conn_wf (on_negotiated_inbound up h)"
  by (auto simp: on_negotiated_inbound_def Let_def intro!: conn_wf_set_state conn_wf_new_sink
      split: option.split protocol_state.split)

lemma on_negotiated_outbound_wf: "conn_wf h \<Longrightarrow> conn_wf (on_negotiated_outbound up info h)"
  by (auto simp: on_negotiated_outbound_def Let_def intro!: conn_wf_set_state conn_wf_new_sink
      split: option.split protocol_state.split)

lemma on_dial_upgrade_error_wf: "conn_wf h \<Longrightarrow> conn_wf (on_dial_upgrade_error tag h)"
  by (auto simp: on_dial_upgrade_error_def Let_def intro!: conn_wf_set_state
      split: option.split protocol_state.split)

lemma on_connection_event_wf: "conn_wf h \<Longrightarrow> conn_wf (on_connection_event e h)"
  by (cases e) (auto simp: on_negotiated_inbound_wf on_negotiated_outbound_wf on_dial_upgrade_error_wf
      intro: conn_wf_cong)

lemma send_protocol_wf:
  assumes "conn_wf h" "send_protocol env pid delays h = (h', delays', r)"
  shows "conn_wf h'"
proof -
  have "conn_wf (set_state pid (Some st) (h\<lparr>ch_throttle := th, ch_queues := q\<rparr>))"
    if "state_sink st = sink_of h pid" for st th q
  proof (rule conn_wf_set_state)
    show "conn_wf (h\<lparr>ch_throttle := th, ch_queues := q\<rparr>)" by (rule conn_wf_cong [OF assms(1)]) simp_all
    show "state_sink st = None \<or> state_sink st = sink_of (h\<lparr>ch_throttle := th, ch_queues := q\<rparr>) pid"
      using that by (simp add: sink_of_def)
  qed
  with assms show ?thesis
    by (auto simp: send_protocol_def Let_def sink_of_def split: option.splits protocol_state.splits prod.splits)
qed

lemma send_all_wf:
  "conn_wf h \<Longrightarrow> send_all env pids delays h = (h', r) \<Longrightarrow> conn_wf h'"
  by (induction env pids delays h rule: send_all.induct)
    (auto dest: send_protocol_wf split: prod.splits if_splits)

lemma flush_all_wf:
  "conn_wf h \<Longrightarrow> flush_all env pids h = (h', r) \<Longrightarrow> conn_wf h'"
  by (induction env pids h rule: flush_all.induct)
    (auto simp: Let_def intro!: conn_wf_set_state split: option.splits protocol_state.splits if_splits)

lemma read_protocol_wf:
  "conn_wf h \<Longrightarrow> read_protocol env pid h = (h', r) \<Longrightarrow> conn_wf h'"
  by (auto simp: read_protocol_def Let_def sink_of_def intro!: conn_wf_set_state
      split: option.splits protocol_state.splits prod.splits read_poll.splits bool.splits)

lemma read_all_wf:
  "conn_wf h \<Longrightarrow> read_all env pids h = (h', r) \<Longrightarrow> conn_wf h'"
  by (induction env pids h rule: read_all.induct)
    (auto dest: read_protocol_wf split: prod.splits option.splits)

lemma fire_one_shot_simps [simp]:
  "ch_stateful (fire_one_shot rid h) = ch_stateful h" "ch_next_sink (fire_one_shot rid h) = ch_next_sink h"
  "ch_queues (fire_one_shot rid h) = ch_queues h"
  by (simp_all add: fire_one_shot_def Let_def split: option.split one_shot_request.split)

lemma fire_one_shots_simps [simp]:
  "ch_stateful (fire_one_shots rids h) = ch_stateful h" "ch_next_sink (fire_one_shots rids h) = ch_next_sink h"
  "ch_queues (fire_one_shots rids h) = ch_queues h"
  by (induction rids arbitrary: h) (simp_all add: fire_one_shots_def)

lemma conn_poll_wf:
  assumes "conn_wf h" "conn_poll env h = (h', r)"
  shows "conn_wf h'"
proof -
  let ?h = "fire_one_shots (pe_requests env) h"
  have h: "conn_wf ?h" by (rule conn_wf_cong [OF assms(1)]) simp_all
  have upd: "conn_wf (k\<lparr>ch_events := es\<rparr>)" "conn_wf (k\<lparr>ch_fault := f\<rparr>)" if "conn_wf k" for k :: "'a conn_handler" and es f
    by (rule conn_wf_cong [OF that]; simp)+
  show ?thesis
    using assms(2) upd send_all_wf [OF h] flush_all_wf read_all_wf
    by (auto simp: conn_poll_def Let_def h split: list.splits prod.splits send_result.splits option.splits)
      blast+
qed

section \<open>Runs\<close>

datatype conn_op =
    Command "64 word" conn_handler_in
  | ConnEvent connection_event
  | ConnPoll poll_env
  | Enqueue sink_id stream_notification

fun conn_step :: "conn_op \<Rightarrow> 'pid conn_handler \<Rightarrow> 'pid conn_handler" where
  "conn_step (Command rid c) h = on_behaviour_event rid c h"
| "conn_step (ConnEvent e) h = on_connection_event e h"
| "conn_step (ConnPoll env) h = fst (conn_poll env h)"
| "conn_step (Enqueue sink n) h = enqueue sink n h"

lemma conn_step_wf: "conn_wf h \<Longrightarrow> conn_wf (conn_step op h)"
  by (cases op) (auto simp: on_behaviour_event_wf on_connection_event_wf enqueue_def
      intro: conn_poll_wf [OF _ prod.collapse [symmetric]] conn_wf_cong)

text \<open>What does not change: the protocols, their versions and their specifications.\<close>

definition statics ::
  "'pid conn_handler \<Rightarrow> protocol_id \<rightharpoonup> protocol_ver \<times> stateful_protocol_spec \<times> (protocol_ver \<times> stateful_protocol_spec) list" where
  "statics h pid = map_option (\<lambda>p. (sp_ver p, sp_spec p, sp_all_versions p)) (ch_stateful h pid)"

lemma statics_cong: "ch_stateful h' = ch_stateful h \<Longrightarrow> statics h' = statics h"
  by (simp add: statics_def fun_eq_iff)

lemma statics_set_state [simp]: "statics (set_state pid st h) = statics h"
  by (auto simp: statics_def fun_eq_iff option.map_comp comp_def)

lemma statics_push [simp]: "statics (push_event e h) = statics h" "statics (new_channel h) = statics h"
  by (simp_all add: statics_def fun_eq_iff)

lemma statics_update [simp]:
  "statics (h\<lparr>ch_throttle := th\<rparr>) = statics h" "statics (h\<lparr>ch_queues := q\<rparr>) = statics h"
  "statics (h\<lparr>ch_events := es\<rparr>) = statics h" "statics (h\<lparr>ch_fault := f\<rparr>) = statics h"
  "statics (h\<lparr>ch_requests := rs\<rparr>) = statics h"
  by (simp_all add: statics_def fun_eq_iff)

lemma statics_send: "send_protocol env pid delays h = (h', delays', r) \<Longrightarrow> statics h' = statics h"
  by (auto simp: send_protocol_def Let_def split: option.splits protocol_state.splits prod.splits)

lemma statics_send_all: "send_all env pids delays h = (h', r) \<Longrightarrow> statics h' = statics h"
  by (induction env pids delays h rule: send_all.induct) (auto dest!: statics_send split: prod.splits if_splits)

lemma statics_flush: "flush_all env pids h = (h', r) \<Longrightarrow> statics h' = statics h"
  by (induction env pids h rule: flush_all.induct)
    (auto simp: Let_def split: option.splits protocol_state.splits if_splits)

lemma statics_read: "read_protocol env pid h = (h', r) \<Longrightarrow> statics h' = statics h"
  by (auto simp: read_protocol_def Let_def
      split: option.splits protocol_state.splits prod.splits read_poll.splits bool.splits)

lemma statics_read_all: "read_all env pids h = (h', r) \<Longrightarrow> statics h' = statics h"
  by (induction env pids h rule: read_all.induct) (auto dest!: statics_read split: prod.splits option.splits)

lemma statics_poll: "statics (fst (conn_poll env h)) = statics h"
proof -
  have "statics (fire_one_shots (pe_requests env) h) = statics h" by (rule statics_cong) simp
  then show ?thesis
    by (auto simp: conn_poll_def Let_def split: list.split prod.split send_result.split option.split
        dest!: statics_send_all statics_flush intro: statics_read_all [OF prod.collapse [symmetric], THEN trans])
qed

lemma statics_step: "statics (conn_step op h) = statics h"
proof (cases op)
  case (Command rid c)
  then show ?thesis
    by (cases c) (auto simp: on_open_def Let_def statics_def fun_eq_iff option.map_comp comp_def
        split: option.split protocol_state.split)
next
  case (ConnEvent e)
  then show ?thesis
    by (cases e) (auto simp: on_negotiated_inbound_def on_negotiated_outbound_def on_dial_upgrade_error_def Let_def
        split: option.split protocol_state.split)
qed (simp_all add: statics_poll enqueue_def)


section \<open>Outgoing messages\<close>

definition messages :: "stream_notification list \<Rightarrow> raw_message list" where
  "messages q = List.map_filter (\<lambda>n. case n of StreamMessage m \<Rightarrow> Some m | ForceClose \<Rightarrow> None) q"

lemma messages_simps [simp]:
  "messages [] = []" "messages (StreamMessage m # q) = m # messages q" "messages (ForceClose # q) = messages q"
  "messages (q @ q') = messages q @ messages q'"
  by (simp_all add: messages_def List.map_filter_def)

text \<open>The messages handed to the outbound substream of a protocol, followed by those still queued.\<close>

fun out_of :: "protocol_state \<Rightarrow> substream_out option" where
  "out_of (Opened i out sink) = Some out"
| "out_of (InboundClosedByPeer out sink) = Some out"
| "out_of _ = None"

definition sent :: "'pid conn_handler \<Rightarrow> protocol_id \<Rightarrow> raw_message list option" where
  "sent h pid = map_option so_sent (Option.bind (pstate h pid) out_of)"

definition outgoing :: "'pid conn_handler \<Rightarrow> protocol_id \<Rightarrow> raw_message list option" where
  "outgoing h pid =
     (case (sent h pid, sink_of h pid) of
        (Some ms, Some s) \<Rightarrow> Some (ms @ messages (ch_queues h s)) | _ \<Rightarrow> None)"

lemma send_loop_conserves:
  "send_loop th delays ready q out = (th', delays', q', out', r) \<Longrightarrow>
   so_sent out' @ messages q' = so_sent out @ messages q \<and> (\<exists>ms. so_sent out' = so_sent out @ ms)"
proof (induction q arbitrary: th delays ready out)
  case Nil
  then show ?case by (auto simp: send_loop.simps Let_def)
next
  case (Cons n rest)
  show ?case
  proof (cases n)
    case (StreamMessage msg)
    have "so_sent out' @ messages q' = so_sent out @ messages (n # rest) \<and> (\<exists>ms. so_sent out' = so_sent out @ ms)"
      if "send_loop th1 delays1 ready1 rest (start_send msg out) = (th', delays', q', out', r)" for th1 delays1 ready1
      using Cons.IH [OF that] by (auto simp: start_send_def StreamMessage)
    with Cons.prems StreamMessage show ?thesis
      by (subst (asm) send_loop.simps)
        (auto simp: Let_def split: if_splits list.splits bool.splits)
  next
    case ForceClose
    with Cons.prems show ?thesis by (auto simp: send_loop.simps Let_def)
  qed
qed

text \<open>
  What a step may do to the outgoing messages of another step: keep the sink and the messages, or drop
  the sink.
\<close>

definition keeps_outgoing :: "'pid conn_handler \<Rightarrow> 'pid conn_handler \<Rightarrow> bool" where
  "keeps_outgoing h h' \<longleftrightarrow>
     (\<forall>pid s. sink_of h' pid = Some s \<longrightarrow> s < ch_next_sink h \<longrightarrow>
        sink_of h pid = Some s \<and> outgoing h' pid = outgoing h pid) \<and> ch_next_sink h \<le> ch_next_sink h'"

lemma keeps_outgoing_refl [simp]: "keeps_outgoing h h"
  by (simp add: keeps_outgoing_def)

lemma keeps_outgoing_trans:
  assumes "keeps_outgoing h h'" "keeps_outgoing h' h''"
  shows "keeps_outgoing h h''"
proof -
  have "sink_of h pid = Some s \<and> outgoing h'' pid = outgoing h pid"
    if "sink_of h'' pid = Some s" "s < ch_next_sink h" for pid s
  proof -
    have "s < ch_next_sink h'" using assms(1) that(2) by (simp add: keeps_outgoing_def)
    with assms(2) that(1) have "sink_of h' pid = Some s" "outgoing h'' pid = outgoing h' pid"
      by (simp_all add: keeps_outgoing_def)
    with assms(1) that(2) show ?thesis by (simp add: keeps_outgoing_def)
  qed
  with assms show ?thesis by (simp add: keeps_outgoing_def)
qed

lemma keeps_outgoing_cong:
  "ch_stateful h' = ch_stateful h \<Longrightarrow> ch_queues h' = ch_queues h \<Longrightarrow> ch_next_sink h' = ch_next_sink h \<Longrightarrow>
   keeps_outgoing h h'"
  by (simp add: keeps_outgoing_def outgoing_def sent_def sink_of_def cong: option.case_cong)

lemma keeps_outgoing_push [simp]: "keeps_outgoing h (push_event e h)"
  by (rule keeps_outgoing_cong) simp_all

text \<open>A protocol whose new state has no sink, or its old sink and substream.\<close>

lemma sent_set_state:
  "sent (set_state pid (Some st) h) pid' =
     (if pid' = pid then (if ch_stateful h pid = None then None else map_option so_sent (out_of st)) else sent h pid')"
  by (auto simp: sent_def split: option.split)

lemma keeps_outgoing_set_state:
  assumes "state_sink st = None \<or>
    (\<exists>st0. pstate h pid = Some st0 \<and> state_sink st = state_sink st0 \<and> out_of st = out_of st0)"
  shows "keeps_outgoing h (set_state pid (Some st) h)"
proof -
  let ?h = "set_state pid (Some st) h"
  consider "state_sink st = None"
    | st0 where "pstate h pid = Some st0" "state_sink st = state_sink st0" "out_of st = out_of st0"
    using assms by (elim disjE exE conjE) (erule (2) that | erule that)+
  then show ?thesis
  proof cases
    case 1
    then show ?thesis
      unfolding keeps_outgoing_def outgoing_def sink_of_set_state sent_set_state by (auto split: option.split)
  next
    case 2
    then have "sink_of ?h = sink_of h" "sent ?h = sent h"
      by (auto simp: fun_eq_iff sink_of_set_state sent_set_state) (auto simp: sink_of_def sent_def)
    then show ?thesis by (simp add: keeps_outgoing_def outgoing_def cong: option.case_cong)
  qed
qed

lemma outgoing_other:
  assumes "conn_wf h" "sink_of h pid = Some s" "pid' \<noteq> pid"
  shows "outgoing (set_state pid st (h\<lparr>ch_throttle := th, ch_queues := (ch_queues h)(s := q)\<rparr>)) pid' = outgoing h pid'"
    "sink_of (set_state pid st (h\<lparr>ch_throttle := th, ch_queues := (ch_queues h)(s := q)\<rparr>)) pid' = sink_of h pid'"
proof -
  let ?h = "set_state pid st (h\<lparr>ch_throttle := th, ch_queues := (ch_queues h)(s := q)\<rparr>)"
  show sk: "sink_of ?h pid' = sink_of h pid'" using assms(3) by (simp add: sink_of_def)
  have "sent ?h pid' = sent h pid'" using assms(3) by (simp add: sent_def)
  moreover have "sink_of h pid' \<noteq> Some s" using assms by (auto simp: conn_wf_def)
  ultimately show "outgoing ?h pid' = outgoing h pid'"
    by (auto simp: outgoing_def sk split: option.split)
qed

lemma send_protocol_keeps:
  assumes wf: "conn_wf h" and send: "send_protocol env pid delays h = (h', delays', r)"
  shows "keeps_outgoing h h'"
proof -
  have step: "keeps_outgoing h (set_state pid (Some st') (h\<lparr>ch_throttle := th, ch_queues := (ch_queues h)(sink := q)\<rparr>))"
    if loop: "send_loop (ch_throttle h) delays (pe_ready env pid) (ch_queues h sink) out = (th, delays'', q, out', r')"
      and p: "ch_stateful h pid = Some p" "sp_state p = Some st"
      and st: "state_sink st = Some sink" "out_of st = Some out" "state_sink st' = Some sink" "out_of st' = Some out'"
    for p st st' sink out out' th delays'' q r'
  proof -
    let ?h = "set_state pid (Some st') (h\<lparr>ch_throttle := th, ch_queues := (ch_queues h)(sink := q)\<rparr>)"
    have sk: "sink_of h pid = Some sink" using p st by (simp add: sink_of_def)
    have own: "sink_of ?h pid = Some sink" "outgoing ?h pid = outgoing h pid"
      using p st send_loop_conserves [OF loop] by (auto simp: sink_of_def outgoing_def sent_def)
    show ?thesis
      unfolding keeps_outgoing_def
    proof (intro conjI allI impI)
      fix pid' s
      assume "sink_of ?h pid' = Some s"
      then show "sink_of h pid' = Some s" "outgoing ?h pid' = outgoing h pid'"
        using own sk outgoing_other [OF wf sk, where pid' = pid' and st = "Some st'" and th = th and q = q] by (cases "pid' = pid"; simp)+
    qed simp
  qed
  show ?thesis
    using send
    by (auto simp: send_protocol_def Let_def intro: step split: option.splits protocol_state.splits prod.splits)
qed

lemma send_all_keeps:
  "conn_wf h \<Longrightarrow> send_all env pids delays h = (h', r) \<Longrightarrow> keeps_outgoing h h'"
proof (induction env pids delays h rule: send_all.induct)
  case (2 env pid pids delays h)
  obtain h1 delays1 r1 where s: "send_protocol env pid delays h = (h1, delays1, r1)" by (cases "send_protocol env pid delays h")
  have k: "keeps_outgoing h h1" "conn_wf h1"
    using send_protocol_keeps send_protocol_wf "2.prems"(1) s by blast+
  show ?case
  proof (cases "r1 = SendBreak")
    case True
    then show ?thesis
      using "2.IH" [OF s [symmetric] refl refl] "2.prems"(2) k s keeps_outgoing_trans by auto
  qed (use "2.prems"(2) s k in auto)
qed simp

lemma flush_all_keeps: "flush_all env pids h = (h', r) \<Longrightarrow> keeps_outgoing h h'"
  by (induction env pids h rule: flush_all.induct)
    (auto simp: Let_def intro!: keeps_outgoing_set_state split: option.splits protocol_state.splits if_splits)

lemma read_protocol_keeps: "read_protocol env pid h = (h', r) \<Longrightarrow> keeps_outgoing h h'"
  by (auto simp: read_protocol_def Let_def intro!: keeps_outgoing_set_state
      split: option.splits protocol_state.splits prod.splits read_poll.splits bool.splits)

lemma read_all_keeps: "read_all env pids h = (h', r) \<Longrightarrow> keeps_outgoing h h'"
  by (induction env pids h rule: read_all.induct)
    (auto dest!: read_protocol_keeps intro: keeps_outgoing_trans split: prod.splits option.splits)

lemma conn_poll_keeps:
  assumes "conn_wf h"
  shows "keeps_outgoing h (fst (conn_poll env h))"
proof -
  let ?h = "fire_one_shots (pe_requests env) h"
  have h: "keeps_outgoing h ?h" "conn_wf ?h"
    by (rule keeps_outgoing_cong; simp) (rule conn_wf_cong [OF assms]; simp)
  obtain h1 r1 where s: "send_all env (pe_protocols env) (pe_delay env) ?h = (h1, r1)" by fastforce
  obtain h2 r2 where f: "flush_all env (pe_protocols env) h1 = (h2, r2)" by fastforce
  obtain h3 r3 where r: "read_all env (pe_protocols env) h2 = (h3, r3)" by fastforce
  have k: "keeps_outgoing h h1" "keeps_outgoing h h2" "keeps_outgoing h h3"
    using h send_all_keeps [OF h(2) s] flush_all_keeps [OF f] read_all_keeps [OF r]
    by (meson keeps_outgoing_trans)+
  moreover have "keeps_outgoing h (h1\<lparr>ch_fault := x\<rparr>)" "keeps_outgoing h (?h\<lparr>ch_events := es\<rparr>)" for x es
    by (rule keeps_outgoing_trans [OF k(1)], rule keeps_outgoing_cong; simp)
      (rule keeps_outgoing_trans [OF h(1)], rule keeps_outgoing_cong; simp)
  ultimately show ?thesis
    by (auto simp: conn_poll_def Let_def s f r split: list.split send_result.split option.split)
qed

lemma on_behaviour_event_keeps: "keeps_outgoing h (on_behaviour_event rid c h)"
proof (cases c)
  case (Open pid hs)
  then show ?thesis
    by (auto simp: on_open_def Let_def intro!: keeps_outgoing_trans [OF keeps_outgoing_push keeps_outgoing_set_state]
        split: option.split protocol_state.split)
next
  case (Close pid)
  then show ?thesis
    by (auto intro!: keeps_outgoing_trans [OF keeps_outgoing_set_state keeps_outgoing_push])
next
  case CloseAllProtocols
  have "sink_of (on_behaviour_event rid CloseAllProtocols h) pid = None" for pid
    by (cases "ch_stateful h pid") (simp_all add: sink_of_def)
  then show ?thesis by (simp add: CloseAllProtocols keeps_outgoing_def)
next
  case (TryDeliverOnce msg)
  show ?thesis unfolding TryDeliverOnce by (rule keeps_outgoing_cong) simp_all
qed

lemma keeps_outgoing_new_sink:
  "conn_wf h \<Longrightarrow> state_sink st = Some (ch_next_sink h) \<Longrightarrow>
   keeps_outgoing h (set_state pid (Some st) (push_event e (new_channel h)))"
  unfolding keeps_outgoing_def outgoing_def sink_of_set_state sent_set_state
  by (auto simp: sink_of_def sent_def split: option.split)

lemma on_connection_event_keeps: "conn_wf h \<Longrightarrow> keeps_outgoing h (on_connection_event e h)"
  by (cases e)
    (auto simp: on_negotiated_inbound_def on_negotiated_outbound_def on_dial_upgrade_error_def Let_def
      intro!: keeps_outgoing_set_state keeps_outgoing_new_sink keeps_outgoing_trans [OF keeps_outgoing_push keeps_outgoing_set_state]
      intro: keeps_outgoing_cong split: option.split protocol_state.split)

text \<open>The messages that a list of operations puts on a sink.\<close>

definition enqueued :: "sink_id \<Rightarrow> conn_op list \<Rightarrow> raw_message list" where
  "enqueued s ops =
     messages (List.map_filter (\<lambda>op. case op of Enqueue s' n \<Rightarrow> if s' = s then Some n else None | _ \<Rightarrow> None) ops)"

lemma conn_step_outgoing:
  assumes "conn_wf h" "s < ch_next_sink h" "sink_of (conn_step op h) pid = Some s"
  shows "sink_of h pid = Some s \<and> s < ch_next_sink (conn_step op h) \<and>
    outgoing (conn_step op h) pid = map_option (\<lambda>ms. ms @ enqueued s [op]) (outgoing h pid)"
proof (cases op)
  case (Enqueue s' n)
  then show ?thesis
    using assms(2,3)
    by (auto simp: enqueue_def sink_of_def outgoing_def sent_def enqueued_def List.map_filter_def
        split: option.splits stream_notification.split)
next
  case (Command rid c)
  then show ?thesis using on_behaviour_event_keeps [of h rid c] assms(2,3)
    by (auto simp: keeps_outgoing_def enqueued_def List.map_filter_def option.map_ident)
next
  case (ConnEvent e)
  then show ?thesis using on_connection_event_keeps [OF assms(1), of e] assms(2,3)
    by (auto simp: keeps_outgoing_def enqueued_def List.map_filter_def option.map_ident)
next
  case (ConnPoll env)
  then show ?thesis using conn_poll_keeps [OF assms(1), of env] assms(2,3)
    by (auto simp: keeps_outgoing_def enqueued_def List.map_filter_def option.map_ident)
qed

lemma conn_step_next_sink:
  assumes "conn_wf h"
  shows "ch_next_sink h \<le> ch_next_sink (conn_step op h)"
  using on_behaviour_event_keeps on_connection_event_keeps [OF assms] conn_poll_keeps [OF assms]
  by (cases op) (auto simp: keeps_outgoing_def enqueue_def)

lemma enqueued_Cons: "enqueued s (op # ops) = enqueued s [op] @ enqueued s ops"
proof -
  have "enqueued s (ops1 @ ops2) = enqueued s ops1 @ enqueued s ops2" for ops1 ops2
    by (simp add: enqueued_def List.map_filter_def)
  from this [of "[op]" ops] show ?thesis by simp
qed


section \<open>One-shot messages\<close>

fun conn_outputs :: "conn_op list \<Rightarrow> 'pid conn_handler \<Rightarrow> conn_handler_event list" where
  "conn_outputs [] h = []"
| "conn_outputs (op # ops) h =
     (case op of ConnPoll env \<Rightarrow> (case snd (conn_poll env h) of Some e \<Rightarrow> [e] | None \<Rightarrow> []) | _ \<Rightarrow> []) @
     conn_outputs ops (conn_step op h)"

fun is_request :: "64 word \<Rightarrow> conn_handler_event \<Rightarrow> bool" where
  "is_request rid (OutboundSubstreamRequest (Inr u) tag timeout) \<longleftrightarrow> osu_id u = rid"
| "is_request rid _ \<longleftrightarrow> False"

definition one_shot_event :: "'pid conn_handler \<Rightarrow> 64 word \<Rightarrow> one_shot_message \<Rightarrow> conn_handler_event" where
  "one_shot_event h rid msg = OutboundSubstreamRequest
     (Inr \<lparr>osu_protocol = os_protocol msg, osu_id = rid, osu_message = os_content msg\<rparr>)
     (os_protocol msg) (open_timeout (ch_conf h))"

text \<open>The substream requests for an identifier that are queued, or still to be made.\<close>

definition tickets :: "64 word \<Rightarrow> 'pid conn_handler \<Rightarrow> conn_handler_event list" where
  "tickets rid h = filter (is_request rid) (ch_events h) @
     (case ch_requests h rid of Some (OsPending msg) \<Rightarrow> [one_shot_event h rid msg] | _ \<Rightarrow> [])"

definition same_requests :: "'pid conn_handler \<Rightarrow> 'pid conn_handler \<Rightarrow> bool" where
  "same_requests h h' \<longleftrightarrow>
     ch_events h' = ch_events h \<and> ch_requests h' = ch_requests h \<and> ch_conf h' = ch_conf h"

lemma same_requests_refl [simp]: "same_requests h h"
  by (simp add: same_requests_def)

lemma same_requests_trans: "same_requests h h' \<Longrightarrow> same_requests h' h'' \<Longrightarrow> same_requests h h''"
  by (simp add: same_requests_def)

lemma same_requests_set_state [simp]: "same_requests h (set_state pid st h)"
  by (simp add: same_requests_def)

lemma send_protocol_requests: "send_protocol env pid delays h = (h', delays', r) \<Longrightarrow> same_requests h h'"
  by (auto simp: send_protocol_def Let_def same_requests_def split: option.splits protocol_state.splits prod.splits)

lemma send_all_requests: "send_all env pids delays h = (h', r) \<Longrightarrow> same_requests h h'"
  by (induction env pids delays h rule: send_all.induct)
    (auto dest!: send_protocol_requests intro: same_requests_trans split: prod.splits if_splits)

lemma flush_all_requests:
  "flush_all env pids h = (h', r) \<Longrightarrow> same_requests h h' \<and> (\<forall>e. r = Some e \<longrightarrow> \<not> is_request rid e)"
  by (induction env pids h rule: flush_all.induct)
    (auto simp: Let_def split: option.splits protocol_state.splits if_splits)

lemma read_protocol_requests:
  "read_protocol env pid h = (h', r) \<Longrightarrow> same_requests h h' \<and> (\<forall>e. r = Some e \<longrightarrow> \<not> is_request rid e)"
  by (auto simp: read_protocol_def Let_def
      split: option.splits protocol_state.splits prod.splits read_poll.splits bool.splits)

lemma read_all_requests:
  "read_all env pids h = (h', r) \<Longrightarrow> same_requests h h' \<and> (\<forall>e. r = Some e \<longrightarrow> \<not> is_request rid e)"
proof (induction env pids h rule: read_all.induct)
  case (2 env pid pids h)
  obtain h1 r1 where r: "read_protocol env pid h = (h1, r1)" by fastforce
  show ?case
    using 2 r read_protocol_requests [OF r, of rid] by (cases r1) (auto intro: same_requests_trans)
qed simp

lemma tickets_cong: "same_requests h h' \<Longrightarrow> tickets rid h' = tickets rid h"
  by (simp add: tickets_def same_requests_def one_shot_event_def cong: option.case_cong one_shot_request.case_cong)

lemma tickets_fire: "tickets rid (fire_one_shot rid' h) = tickets rid h"
  by (auto simp: tickets_def fire_one_shot_def Let_def one_shot_event_def push_event_def
      split: option.split one_shot_request.split)

lemma tickets_fire_all [simp]: "tickets rid (fire_one_shots rids h) = tickets rid h"
  by (induction rids arbitrary: h) (simp_all add: fire_one_shots_def tickets_fire)

lemma tickets_poll:
  "tickets rid h = filter (is_request rid) (case snd (conn_poll env h) of Some e \<Rightarrow> [e] | None \<Rightarrow> []) @
     tickets rid (fst (conn_poll env h))"
proof (cases "ch_events (fire_one_shots (pe_requests env) h)")
  case Nil
  let ?h = "fire_one_shots (pe_requests env) h"
  obtain h1 r1 where s: "send_all env (pe_protocols env) (pe_delay env) ?h = (h1, r1)" by fastforce
  obtain h2 r2 where f: "flush_all env (pe_protocols env) h1 = (h2, r2)" by fastforce
  obtain h3 r3 where r: "read_all env (pe_protocols env) h2 = (h3, r3)" by fastforce
  have t: "tickets rid h1 = tickets rid h" "tickets rid h2 = tickets rid h" "tickets rid h3 = tickets rid h"
    using tickets_cong [OF send_all_requests [OF s], of rid] tickets_cong [OF flush_all_requests [OF f, THEN conjunct1], of rid]
      tickets_cong [OF read_all_requests [OF r, THEN conjunct1], of rid] by simp_all
  moreover have "tickets rid (h1\<lparr>ch_fault := x\<rparr>) = tickets rid h1" for x
    by (rule tickets_cong) (simp add: same_requests_def)
  ultimately show ?thesis
    using flush_all_requests [OF f, of rid] read_all_requests [OF r, of rid]
    by (auto simp: conn_poll_def Let_def Nil s f r split: send_result.split option.split)
next
  case (Cons e es)
  have "tickets rid h = tickets rid (fire_one_shots (pe_requests env) h)" by simp
  also have "\<dots> = filter (is_request rid) [e] @ tickets rid (fst (conn_poll env h))"
    using Cons by (simp add: tickets_def conn_poll_def Let_def one_shot_event_def split: option.split one_shot_request.split)
  finally show ?thesis using Cons by (simp add: conn_poll_def Let_def)
qed

text \<open>The operations that leave the request of an identifier alone.\<close>

fun leaves_request :: "64 word \<Rightarrow> conn_op \<Rightarrow> bool" where
  "leaves_request rid (Command rid' (TryDeliverOnce msg)) \<longleftrightarrow> rid' \<noteq> rid"
| "leaves_request rid _ \<longleftrightarrow> True"

lemma on_open_requests:
  "ch_requests (on_open pid hs h) = ch_requests h" "ch_conf (on_open pid hs h) = ch_conf h"
  "filter (is_request rid) (ch_events (on_open pid hs h)) = filter (is_request rid) (ch_events h)"
  by (auto simp: on_open_def Let_def split: option.split protocol_state.split)

lemma connection_event_requests:
  "ch_requests (on_connection_event e h) =
     (case e of NegotiatedOutboundOneShot rid \<Rightarrow> (ch_requests h)(rid := None) | _ \<Rightarrow> ch_requests h)"
  "ch_conf (on_connection_event e h) = ch_conf h"
  "filter (is_request rid) (ch_events (on_connection_event e h)) = filter (is_request rid) (ch_events h)"
  by (cases e; auto simp: on_negotiated_inbound_def on_negotiated_outbound_def on_dial_upgrade_error_def Let_def
      new_channel_def split: option.split protocol_state.split)+

lemma tickets_step:
  assumes "leaves_request rid op"
  shows "\<exists>rest. tickets rid h = filter (is_request rid) (conn_outputs [op] h) @ tickets rid (conn_step op h) @ rest"
proof (cases op)
  case (Command rid' c)
  with assms show ?thesis
    by (cases c) (auto simp: tickets_def on_open_requests one_shot_event_def split: option.split one_shot_request.split)
next
  case (ConnEvent e)
  show ?thesis
  proof (cases "ch_requests (on_connection_event e h) rid = ch_requests h rid")
    case True
    then show ?thesis
      by (auto simp: ConnEvent tickets_def connection_event_requests(2,3) one_shot_event_def
          split: option.split one_shot_request.split)
  next
    case False
    then have "ch_requests (on_connection_event e h) rid = None"
      by (auto simp: connection_event_requests(1) split: connection_event.splits if_splits)
    then show ?thesis by (auto simp: ConnEvent tickets_def connection_event_requests(3))
  qed
next
  case (ConnPoll env)
  then show ?thesis using tickets_poll [of rid h env] by (auto split: option.split)
next
  case (Enqueue s n)
  have "tickets rid (enqueue s n h) = tickets rid h" by (rule tickets_cong) (simp add: same_requests_def enqueue_def)
  then show ?thesis by (simp add: Enqueue)
qed

lemma tickets_run:
  assumes "list_all (leaves_request rid) ops"
  shows "\<exists>rest. tickets rid h = filter (is_request rid) (conn_outputs ops h) @ rest"
  using assms
proof (induction ops arbitrary: h)
  case (Cons op ops)
  then obtain rest where "tickets rid (conn_step op h) = filter (is_request rid) (conn_outputs ops (conn_step op h)) @ rest"
    by auto
  moreover obtain rest' where
    "tickets rid h = filter (is_request rid) (conn_outputs [op] h) @ tickets rid (conn_step op h) @ rest'"
    using tickets_step Cons.prems by fastforce
  ultimately show ?case by auto
qed simp

text \<open>Polling often enough hands out everything that is queued.\<close>

definition settled :: "64 word list \<Rightarrow> 'pid conn_handler \<Rightarrow> bool" where
  "settled rids h \<longleftrightarrow> (\<forall>rid \<in> set rids. ch_requests h rid \<in> {None, Some Confirming})"

lemma fire_one_shot_requests:
  "ch_requests (fire_one_shot rid h) = (ch_requests h)(rid := map_option (\<lambda>_. Confirming) (ch_requests h rid))"
  by (auto simp: fire_one_shot_def Let_def split: option.split one_shot_request.split)

lemma settled_fire: "settled rids (fire_one_shots rids h)"
proof (induction rids rule: rev_induct)
  case (snoc rid rids)
  then show ?case by (auto simp: fire_one_shots_def settled_def fire_one_shot_requests)
qed (simp add: settled_def)

lemma fire_settled: "settled rids h \<Longrightarrow> fire_one_shots rids h = h"
proof (induction rids)
  case (Cons rid rids)
  have "fire_one_shot rid h = h"
    using Cons.prems by (auto simp: settled_def fire_one_shot_def Let_def fun_upd_idem)
  with Cons show ?case by (simp add: fire_one_shots_def settled_def)
qed (simp add: fire_one_shots_def)

lemma settled_outputs:
  "settled (pe_requests env) h \<Longrightarrow>
   conn_outputs (replicate (length (ch_events h)) (ConnPoll env)) h = ch_events h"
proof (induction "ch_events h" arbitrary: h)
  case (Cons e es)
  have "conn_poll env h = (h\<lparr>ch_events := es\<rparr>, Some e)"
    using Cons.prems Cons.hyps(2) [symmetric] by (simp add: conn_poll_def Let_def fire_settled)
  moreover have "settled (pe_requests env) (h\<lparr>ch_events := es\<rparr>)" using Cons.prems by (simp add: settled_def)
  ultimately show ?case
    using Cons.hyps(1) [of "h\<lparr>ch_events := es\<rparr>"] Cons.hyps(2) [symmetric] by simp
qed simp

lemma polls_hand_out:
  "conn_outputs (replicate (length (ch_events (fire_one_shots (pe_requests env) h))) (ConnPoll env)) h =
     ch_events (fire_one_shots (pe_requests env) h)"
proof (cases "ch_events (fire_one_shots (pe_requests env) h)")
  case (Cons e es)
  let ?h = "fire_one_shots (pe_requests env) h"
  have "conn_poll env h = (?h\<lparr>ch_events := es\<rparr>, Some e)"
    using Cons by (simp add: conn_poll_def Let_def)
  moreover have "settled (pe_requests env) (?h\<lparr>ch_events := es\<rparr>)"
    using settled_fire [of "pe_requests env" h] by (simp add: settled_def)
  ultimately show ?thesis
    using settled_outputs [of env "?h\<lparr>ch_events := es\<rparr>"] Cons by simp
qed simp

lemma tickets_delivered:
  assumes "filter (is_request rid) (ch_events h) = []"
  shows "tickets rid (on_behaviour_event rid (TryDeliverOnce msg) h) = [one_shot_event h rid msg]"
  using assms by (simp add: tickets_def one_shot_event_def)

lemma one_shot_at_most_once:
  assumes "filter (is_request rid) (ch_events h) = []" "list_all (leaves_request rid) ops"
  shows "filter (is_request rid) (conn_outputs ops (on_behaviour_event rid (TryDeliverOnce msg) h)) \<in>
    {[], [one_shot_event h rid msg]}"
  using tickets_run [OF assms(2), of "on_behaviour_event rid (TryDeliverOnce msg) h"]
    tickets_delivered [OF assms(1), of msg] by (auto simp: Cons_eq_append_conv)

lemma one_shot_requested:
  assumes "filter (is_request rid) (ch_events h) = []" "rid \<in> set (pe_requests env)"
  shows "\<exists>n. filter (is_request rid)
    (conn_outputs (replicate n (ConnPoll env)) (on_behaviour_event rid (TryDeliverOnce msg) h)) =
    [one_shot_event h rid msg]"
proof -
  let ?h = "on_behaviour_event rid (TryDeliverOnce msg) h"
  let ?f = "fire_one_shots (pe_requests env) ?h"
  have "tickets rid ?f = [one_shot_event h rid msg]"
    using tickets_delivered [OF assms(1), of msg] by simp
  moreover have "ch_requests ?f rid \<in> {None, Some Confirming}"
    using settled_fire [of "pe_requests env" ?h] assms(2) by (simp add: settled_def)
  ultimately have "filter (is_request rid) (ch_events ?f) = [one_shot_event h rid msg]"
    by (auto simp: tickets_def)
  then show ?thesis using polls_hand_out [of env ?h] by metis
qed

text \<open>
  C28. A one-shot message given to a handler makes it ask for a substream at most once, with that
  message, whatever happens afterwards; and it does ask once it is polled often enough.
\<close>

theorem one_shot_requested_once:
  assumes "filter (is_request rid) (ch_events h) = []"
  shows "(\<forall>ops. list_all (leaves_request rid) ops \<longrightarrow>
      filter (is_request rid) (conn_outputs ops (on_behaviour_event rid (TryDeliverOnce msg) h)) \<in>
        {[], [one_shot_event h rid msg]}) \<and>
    (\<forall>env. rid \<in> set (pe_requests env) \<longrightarrow>
      (\<exists>n. filter (is_request rid)
        (conn_outputs (replicate n (ConnPoll env)) (on_behaviour_event rid (TryDeliverOnce msg) h)) =
        [one_shot_event h rid msg]))"
  using one_shot_at_most_once [OF assms] one_shot_requested [OF assms] by blast

text \<open>A request stays until it is confirmed, whatever else happens.\<close>

lemma fire_all_requests_dom: "ch_requests (fire_one_shots rids h) rid = None \<longleftrightarrow> ch_requests h rid = None"
  by (induction rids arbitrary: h) (simp_all add: fire_one_shots_def fire_one_shot_requests)

lemma conn_poll_requests_dom: "ch_requests (fst (conn_poll env h)) rid = None \<longleftrightarrow> ch_requests h rid = None"
proof -
  let ?h = "fire_one_shots (pe_requests env) h"
  obtain h1 r1 where s: "send_all env (pe_protocols env) (pe_delay env) ?h = (h1, r1)" by fastforce
  obtain h2 r2 where f: "flush_all env (pe_protocols env) h1 = (h2, r2)" by fastforce
  obtain h3 r3 where r: "read_all env (pe_protocols env) h2 = (h3, r3)" by fastforce
  have "ch_requests h1 = ch_requests ?h" "ch_requests h2 = ch_requests ?h" "ch_requests h3 = ch_requests ?h"
    using send_all_requests [OF s] flush_all_requests [OF f] read_all_requests [OF r]
    by (simp_all add: same_requests_def)
  then show ?thesis
    by (auto simp: conn_poll_def Let_def s f r fire_all_requests_dom
        split: list.split send_result.split option.split)
qed

lemma request_kept:
  assumes "ch_requests h rid \<noteq> None" "ConnEvent (NegotiatedOutboundOneShot rid) \<notin> set ops"
  shows "ch_requests (fold conn_step ops h) rid \<noteq> None"
  using assms
proof (induction ops arbitrary: h)
  case (Cons op ops)
  have "ch_requests (conn_step op h) rid \<noteq> None"
  proof (cases op)
    case (Command rid' c)
    then show ?thesis using Cons.prems(1) by (cases c) (auto simp: on_open_requests(1))
  next
    case (ConnEvent e)
    then show ?thesis using Cons.prems by (cases e) (auto simp: connection_event_requests(1) simp del: on_connection_event.simps)
  next
    case (ConnPoll env)
    then show ?thesis using Cons.prems(1) conn_poll_requests_dom [of env h rid] by simp
  qed (use Cons.prems(1) in \<open>simp add: enqueue_def\<close>)
  then show ?case using Cons.IH [of "conn_step op h"] Cons.prems(2) by simp
qed simp

text \<open>
  A one-shot message whose delivery fails keeps its connection alive for ever: after the failure, at
  any time, the handler still wants the connection.
\<close>

theorem failed_one_shot_keeps_connection:
  assumes "ConnEvent (NegotiatedOutboundOneShot rid) \<notin> set ops" "rid \<in> set rids"
  shows "connection_keep_alive now order rids
    (fold conn_step (ops @ [ConnEvent (DialUpgradeError (os_protocol msg))])
      (on_behaviour_event rid (TryDeliverOnce msg) h)) = KeepAliveYes"
proof -
  have "ch_requests (fold conn_step (ops @ [ConnEvent (DialUpgradeError (os_protocol msg))])
      (on_behaviour_event rid (TryDeliverOnce msg) h)) rid \<noteq> None"
    by (rule request_kept) (use assms in auto)
  then show ?thesis using assms(2) by (auto simp: connection_keep_alive_def)
qed

section \<open>Simultaneous opening\<close>

fun is_opened :: "protocol_id \<Rightarrow> conn_handler_event \<Rightarrow> bool" where
  "is_opened pid (NotifyBehaviour (OutOpened tag sink hs)) \<longleftrightarrow> tag_protocol_id tag = pid"
| "is_opened pid _ \<longleftrightarrow> False"

text \<open>States from which a protocol is not opened unless the controller asks.\<close>

fun quiet_state :: "protocol_state \<Rightarrow> bool" where
  "quiet_state Closed \<longleftrightarrow> True"
| "quiet_state (PartiallyOpenedByPeer s) \<longleftrightarrow> True"
| "quiet_state _ \<longleftrightarrow> False"

definition quiet :: "'pid conn_handler \<Rightarrow> protocol_id \<Rightarrow> bool" where
  "quiet h pid \<longleftrightarrow> (\<exists>st. pstate h pid = Some st \<and> quiet_state st)"

definition stays_quiet :: "protocol_id \<Rightarrow> 'pid conn_handler \<Rightarrow> 'pid conn_handler \<Rightarrow> bool" where
  "stays_quiet pid h h' \<longleftrightarrow>
     (quiet h pid \<longrightarrow> quiet h' pid \<and> filter (is_opened pid) (ch_events h') = filter (is_opened pid) (ch_events h))"

lemma stays_quiet_refl [simp]: "stays_quiet pid h h"
  by (simp add: stays_quiet_def)

lemma stays_quiet_trans: "stays_quiet pid h h' \<Longrightarrow> stays_quiet pid h' h'' \<Longrightarrow> stays_quiet pid h h''"
  by (simp add: stays_quiet_def)

lemma stays_quiet_cong:
  "ch_stateful h' = ch_stateful h \<Longrightarrow> filter (is_opened pid) (ch_events h') = filter (is_opened pid) (ch_events h) \<Longrightarrow>
   stays_quiet pid h h'"
  by (simp add: stays_quiet_def quiet_def)

text \<open>A step that sets the state of a protocol, after other changes.\<close>

lemma stays_quiet_set:
  assumes "pid' = pid \<Longrightarrow> quiet h pid \<Longrightarrow> quiet_state st" "ch_stateful k = ch_stateful h"
    and "quiet h pid \<Longrightarrow> filter (is_opened pid) (ch_events k) = filter (is_opened pid) (ch_events h)"
  shows "stays_quiet pid h (set_state pid' (Some st) k)"
  using assms unfolding stays_quiet_def quiet_def pstate_set_state by auto

lemma send_protocol_quiet: "send_protocol env pid' delays h = (h', delays', r) \<Longrightarrow> stays_quiet pid h h'"
  by (auto simp: send_protocol_def Let_def quiet_def intro!: stays_quiet_set
      split: option.splits protocol_state.splits prod.splits)

lemma send_all_quiet: "send_all env pids delays h = (h', r) \<Longrightarrow> stays_quiet pid h h'"
  by (induction env pids delays h rule: send_all.induct)
    (auto dest!: send_protocol_quiet intro: stays_quiet_trans split: prod.splits if_splits)

lemma flush_all_quiet:
  "flush_all env pids h = (h', r) \<Longrightarrow> stays_quiet pid h h' \<and> (\<forall>e. r = Some e \<longrightarrow> \<not> is_opened pid e)"
  by (induction env pids h rule: flush_all.induct)
    (auto simp: Let_def quiet_def intro!: stays_quiet_set split: option.splits protocol_state.splits if_splits)

lemma read_protocol_quiet:
  "read_protocol env pid' h = (h', r) \<Longrightarrow> stays_quiet pid h h' \<and> (\<forall>e. r = Some e \<longrightarrow> \<not> is_opened pid e)"
  by (auto simp: read_protocol_def Let_def quiet_def intro!: stays_quiet_set
      split: option.splits protocol_state.splits prod.splits read_poll.splits bool.splits)

lemma read_all_quiet:
  "read_all env pids h = (h', r) \<Longrightarrow> stays_quiet pid h h' \<and> (\<forall>e. r = Some e \<longrightarrow> \<not> is_opened pid e)"
proof (induction env pids h rule: read_all.induct)
  case (2 env pid' pids h)
  obtain h1 r1 where r: "read_protocol env pid' h = (h1, r1)" by fastforce
  show ?case
    using 2 r read_protocol_quiet [OF r, of pid] by (cases r1) (auto intro: stays_quiet_trans)
qed simp

lemma fire_all_opened:
  "filter (is_opened pid) (ch_events (fire_one_shots rids h)) = filter (is_opened pid) (ch_events h)"
proof (induction rids arbitrary: h)
  case (Cons rid rids)
  have "filter (is_opened pid) (ch_events (fire_one_shot rid h)) = filter (is_opened pid) (ch_events h)"
    by (simp add: fire_one_shot_def Let_def split: option.split one_shot_request.split)
  then show ?case using Cons.IH [of "fire_one_shot rid h"] by (simp add: fire_one_shots_def)
qed (simp add: fire_one_shots_def)

lemma conn_poll_quiet:
  assumes "quiet h pid" "filter (is_opened pid) (ch_events h) = []"
  shows "quiet (fst (conn_poll env h)) pid \<and> filter (is_opened pid) (ch_events (fst (conn_poll env h))) = [] \<and>
    (\<forall>e. snd (conn_poll env h) = Some e \<longrightarrow> \<not> is_opened pid e)"
proof -
  let ?h = "fire_one_shots (pe_requests env) h"
  obtain h1 r1 where s: "send_all env (pe_protocols env) (pe_delay env) ?h = (h1, r1)" by fastforce
  obtain h2 r2 where f: "flush_all env (pe_protocols env) h1 = (h2, r2)" by fastforce
  obtain h3 r3 where r: "read_all env (pe_protocols env) h2 = (h3, r3)" by fastforce
  have q: "quiet ?h pid" "filter (is_opened pid) (ch_events ?h) = []"
    using assms by (simp_all add: quiet_def fire_all_opened)
  then have k: "quiet h1 pid" "filter (is_opened pid) (ch_events h1) = []" "quiet h2 pid"
      "filter (is_opened pid) (ch_events h2) = []" "quiet h3 pid" "filter (is_opened pid) (ch_events h3) = []"
    using send_all_quiet [OF s, of pid] flush_all_quiet [OF f, of pid] read_all_quiet [OF r, of pid]
    by (simp_all add: stays_quiet_def)
  have upd: "quiet (k\<lparr>ch_fault := x\<rparr>) pid = quiet k pid" "quiet (k\<lparr>ch_events := es\<rparr>) pid = quiet k pid"
    for k :: "'a conn_handler" and x es by (simp_all add: quiet_def)
  show ?thesis
    using k q flush_all_quiet [OF f, of pid] read_all_quiet [OF r, of pid]
    by (auto simp: conn_poll_def Let_def s f r upd filter_empty_conv split: list.split send_result.split option.split)
qed

lemma conn_step_quiet:
  assumes "\<And>rid hs. op \<noteq> Command rid (Open pid hs)" "quiet h pid" "filter (is_opened pid) (ch_events h) = []"
  shows "quiet (conn_step op h) pid \<and> filter (is_opened pid) (ch_events (conn_step op h)) = [] \<and>
    filter (is_opened pid) (conn_outputs [op] h) = []"
proof (cases op)
  case (Command rid c)
  have "stays_quiet pid h (on_behaviour_event rid c h)"
  proof (cases c)
    case (Open pid' hs)
    with assms(1) Command have "pid' \<noteq> pid" by blast
    with Open show ?thesis
      by (auto simp: on_open_def Let_def intro!: stays_quiet_set split: option.split protocol_state.split)
  next
    case (Close pid')
    have "stays_quiet pid h (set_state pid' (Some Closed) h)" by (rule stays_quiet_set) simp_all
    then show ?thesis using Close
      by (auto intro: stays_quiet_trans [OF _ stays_quiet_cong])
  next
    case CloseAllProtocols
    then show ?thesis by (auto simp: stays_quiet_def quiet_def bind_eq_Some_conv)
  qed (auto intro: stays_quiet_cong)
  then show ?thesis using assms(2,3) Command by (simp add: stays_quiet_def)
next
  case (ConnEvent e)
  have "stays_quiet pid h (on_connection_event e h)"
    using assms(2)
    by (cases e)
      (auto simp: on_negotiated_inbound_def on_negotiated_outbound_def on_dial_upgrade_error_def Let_def quiet_def
        intro!: stays_quiet_set intro: stays_quiet_cong split: option.split protocol_state.split)
  then show ?thesis using assms(2,3) ConnEvent by (simp add: stays_quiet_def)
next
  case (ConnPoll env)
  then show ?thesis using conn_poll_quiet [OF assms(2,3), of env] by (auto split: option.split)
next
  case (Enqueue s n)
  then show ?thesis using assms(2,3) by (simp add: enqueue_def quiet_def)
qed

lemma conn_run_quiet:
  assumes "\<And>rid hs. Command rid (Open pid hs) \<notin> set ops" "quiet h pid" "filter (is_opened pid) (ch_events h) = []"
  shows "filter (is_opened pid) (conn_outputs ops h) = []"
  using assms
proof (induction ops arbitrary: h)
  case (Cons op ops)
  have "quiet (conn_step op h) pid \<and> filter (is_opened pid) (ch_events (conn_step op h)) = [] \<and>
    filter (is_opened pid) (conn_outputs [op] h) = []"
    by (rule conn_step_quiet) (use Cons.prems in auto)
  with Cons.IH [of "conn_step op h"] Cons.prems(1) show ?case by auto
qed simp

text \<open>
  C29. When the peer opens a protocol while the handler is opening it too, the command of the controller is
  never answered: the protocol is not reported as opened, whatever happens, until another command comes.
\<close>

theorem simultaneous_open_unanswered:
  assumes "pstate h pid = Some Opening" "filter (is_opened pid) (ch_events h) = []"
    and "tag_protocol_id (iu_tag up) = pid" "tag_protocol_id info = pid"
    and "\<And>rid hs. Command rid (Open pid hs) \<notin> set ops"
  shows "filter (is_opened pid) (conn_outputs (ConnEvent (NegotiatedInbound up) #
    ConnEvent (NegotiatedOutbound out info) # ops) h) = []"
proof -
  let ?h1 = "on_negotiated_inbound up h"
  let ?h = "on_negotiated_outbound out info ?h1"
  obtain p where p: "ch_stateful h pid = Some p" "sp_state p = Some Opening"
    using assms(1) by (auto simp: bind_eq_Some_conv)
  have "?h1 = set_state pid (Some (PartiallyOpenedByPeer (iu_substream up))) h"
    using p assms(3) by (simp add: on_negotiated_inbound_def Let_def)
  moreover from this have "?h = ?h1" using p assms(4) by (simp add: on_negotiated_outbound_def Let_def)
  ultimately have "quiet ?h pid" "filter (is_opened pid) (ch_events ?h) = []"
    using p assms(2) by (simp_all add: quiet_def)
  from conn_run_quiet [OF assms(5) this] show ?thesis by simp
qed

section \<open>Witnesses\<close>

definition ex_conf :: conn_handler_conf where
  "ex_conf = \<lparr>async_msg_buffer_size = 10, sync_msg_buffer_size = 10, open_timeout = 5, initial_keep_alive = 100\<rparr>"

definition ex_spec :: stateful_protocol_spec where
  "ex_spec = \<lparr>max_message_size = 100, approve_required = True\<rparr>"

definition ex_handler :: "protocol_state \<Rightarrow> nat conn_handler" where
  "ex_handler st =
     \<lparr>ch_conf = ex_conf,
      ch_stateful = [1 \<mapsto> \<lparr>sp_ver = 1, sp_spec = ex_spec, sp_state = Some st, sp_all_versions = [(1, ex_spec)]\<rparr>],
      ch_one_shot = Map.empty, ch_created_at = 0, ch_peer = 7, ch_events = [], ch_fault = None,
      ch_throttle = ThrottleDisable, ch_requests = Map.empty, ch_terminate_asap = False, ch_queues = (\<lambda>_. []),
      ch_next_sink = 1\<rparr>"

definition ex_socket :: socket_env where
  "ex_socket = \<lparr>sk_ready = True, sk_send = True, sk_flush = IoReady, sk_next = ReadPending, sk_close = IoReady\<rparr>"

definition ex_env :: "64 word list \<Rightarrow> poll_env" where
  "ex_env rids = \<lparr>pe_requests = rids, pe_protocols = [1], pe_ready = (\<lambda>_. [True, False]), pe_flush = (\<lambda>_. IoReady),
     pe_socket = (\<lambda>_. ex_socket), pe_delay = []\<rparr>"

definition ex_opened :: protocol_state where
  "ex_opened = Opened \<lparr>si_max_len = 100, si_approve = Some Sent, si_written = []\<rparr> \<lparr>so_max_len = 100, so_sent = []\<rparr> 0"

definition ex_ops :: "conn_op list" where
  "ex_ops = [Enqueue 0 (StreamMessage [7]), Enqueue 0 (StreamMessage [8]), ConnPoll (ex_env [])]"

lemmas conn_eval = ex_handler_def ex_env_def ex_socket_def ex_opened_def ex_conf_def ex_spec_def ex_ops_def
  conn_poll_def fire_one_shots_def fire_one_shot_def send_protocol_def send_loop.simps read_protocol_def
  poll_next_in.simps start_send_def set_state_def enqueue_def Let_def

text \<open>A framing with lengths in unary.\<close>

definition ex_framing :: framing where
  "ex_framing = \<lparr>write_length_prefixed = (\<lambda>m. replicate (length m) 1 @ [0] @ m),
     read_length_prefixed = (\<lambda>size bs.
       let n = length (takeWhile (\<lambda>b. b = 1) bs); r = drop (Suc n) bs
       in if n \<le> size \<and> n \<le> length r then Some (take n r, drop n r) else None),
     uvi_encode = (\<lambda>m. word_of_nat (length m) # m)\<rparr>"

lemma ex_framing_ok: "framing_ok ex_framing"
proof -
  have "takeWhile (\<lambda>b. b = 1) (replicate n (1::8 word) @ 0 # ms) = replicate n 1" for n ms
    by (induction n) simp_all
  then show ?thesis by (simp add: framing_ok_def ex_framing_def Let_def)
qed

lemma ex_handler_wf: "conn_wf (ex_handler ex_opened)"
  by (auto simp: conn_wf_def sink_of_def conn_eval split: if_splits)

lemma ex_sink: "sink_of (ex_handler ex_opened) 1 = Some 0" "outgoing (ex_handler ex_opened) 1 = Some []"
  by (simp_all add: sink_of_def outgoing_def sent_def conn_eval)

lemma ex_run_sink: "sink_of (fold conn_step ex_ops (ex_handler ex_opened)) 1 = Some 0"
  by (simp add: sink_of_def conn_eval)



theorem negotiation_roundtrip_witness:
  "\<exists>sent up.
    (\<forall>answer. \<exists>r. upgrade_outbound ex_framing (new_upgrade_out 1 [(1, ex_spec, Some [9])]) answer (new_tag 1 1) = Inr (sent, r)) \<and>
    upgrade_inbound ex_framing (new_upgrade_in 1 [(1, ex_spec)]) (sent @ [5]) (new_tag 1 1) = Inr (Some (up, [5])) \<and>
    iu_handshake up = Some [9]"
  using negotiation_roundtrip [of ex_framing "[(1, ex_spec, Some [9])]" 1 ex_spec "[9]" "[(1, ex_spec)]" ex_spec
    ex_socket "new_tag 1 1" 1 "[5]"] ex_framing_ok
  by (fastforce simp: ex_spec_def ex_socket_def writable_def)

theorem one_shot_requested_once_witness:
  "filter (is_request 3) (conn_outputs [ConnPoll (ex_env [3]), ConnPoll (ex_env [3])]
     (on_behaviour_event 3 (TryDeliverOnce \<lparr>os_protocol = new_tag 2 1, os_content = [4]\<rparr>) (ex_handler Closed))) \<in>
     {[], [one_shot_event (ex_handler Closed) 3 \<lparr>os_protocol = new_tag 2 1, os_content = [4]\<rparr>]} \<and>
   (\<exists>n. filter (is_request 3) (conn_outputs (replicate n (ConnPoll (ex_env [3])))
     (on_behaviour_event 3 (TryDeliverOnce \<lparr>os_protocol = new_tag 2 1, os_content = [4]\<rparr>) (ex_handler Closed))) =
     [one_shot_event (ex_handler Closed) 3 \<lparr>os_protocol = new_tag 2 1, os_content = [4]\<rparr>])"
proof -
  have "filter (is_request 3) (ch_events (ex_handler Closed)) = []" by (simp add: ex_handler_def)
  moreover have "list_all (leaves_request 3) [ConnPoll (ex_env [3]), ConnPoll (ex_env [3])]" "3 \<in> set (pe_requests (ex_env [3]))"
    by (simp_all add: ex_env_def)
  ultimately show ?thesis using one_shot_requested_once by blast
qed

theorem failed_one_shot_keeps_connection_witness:
  "connection_keep_alive 1000 [1] [3] (fold conn_step ([ConnPoll (ex_env [3])] @ [ConnEvent (DialUpgradeError (new_tag 2 1))])
     (on_behaviour_event 3 (TryDeliverOnce \<lparr>os_protocol = new_tag 2 1, os_content = [4]\<rparr>) (ex_handler Closed))) = KeepAliveYes"
  using failed_one_shot_keeps_connection [of 3 "[ConnPoll (ex_env [3])]" "[3]" 1000 "[1]"
    "\<lparr>os_protocol = new_tag 2 1, os_content = [4]\<rparr>" "ex_handler Closed"] by simp

theorem simultaneous_open_unanswered_witness:
  "filter (is_opened 1) (conn_outputs [ConnEvent (NegotiatedInbound \<lparr>iu_tag = new_tag 1 1, iu_handshake = None,
       iu_substream = \<lparr>si_max_len = 100, si_approve = None, si_written = []\<rparr>\<rparr>),
     ConnEvent (NegotiatedOutbound \<lparr>ou_tag = new_tag 1 1, ou_substream = \<lparr>so_max_len = 100, so_sent = []\<rparr>\<rparr> (new_tag 1 1)),
     ConnPoll (ex_env []), ConnPoll (ex_env [])] (ex_handler Opening)) = []"
  by (rule simultaneous_open_unanswered) (simp_all add: ex_handler_def new_tag_def tag_protocol_id_def)

end
