(* ===== verification/Network_Correct.thy ===== *)
theory Network_Correct
  imports Network Conn_Correct
begin

text \<open>
  Correctness of the network controller, alone and together with connection handlers and the peer
  manager: its state stays well-formed, the inputs on which it panics, opening a protocol end to end,
  and the interactions in which peers are lost, messages are sent twice or the node goes down.
\<close>

section \<open>Well-formed controllers\<close>

definition peer_wf :: "(protocol_id \<rightharpoonup> protocol_config \<times> 'h) \<Rightarrow> 'h connected_peer \<Rightarrow> bool" where
  "peer_wf supported cp \<longleftrightarrow>
     (case cp of
        PeerConnected conns prots \<Rightarrow>
          conns \<noteq> [] \<and> distinct conns \<and>
          (\<forall>pid st han. prots pid = Some (st, han) \<longrightarrow>
             st \<noteq> PendingDisableP \<and> (\<exists>cfg. supported pid = Some (cfg, han)))
      | PeerPendingDisconnect _ \<Rightarrow> False
      | _ \<Rightarrow> True)"

definition nc_wf :: "('pid, 'addr, 'ch, 'h) network_controller \<Rightarrow> bool" where
  "nc_wf nc \<longleftrightarrow> (\<forall>p cp. nc_enabled nc p = Some cp \<longrightarrow> peer_wf (nc_supported nc) cp)"

lemma controller_updates [simp]:
  "nc_enabled (push_action a nc) = nc_enabled nc" "nc_enabled (call_peers e nc) = nc_enabled nc"
  "nc_enabled (call_handler han ev nc) = nc_enabled nc" "nc_enabled (set_peer p cp nc) = (nc_enabled nc)(p := cp)"
  "nc_supported (push_action a nc) = nc_supported nc" "nc_supported (call_peers e nc) = nc_supported nc"
  "nc_supported (call_handler han ev nc) = nc_supported nc" "nc_supported (set_peer p cp nc) = nc_supported nc"
  "nc_actions (push_action a nc) = nc_actions nc @ [a]" "nc_actions (call_peers e nc) = nc_actions nc"
  "nc_actions (call_handler han ev nc) = nc_actions nc" "nc_actions (set_peer p cp nc) = nc_actions nc"
  "nc_events (push_action a nc) = nc_events nc" "nc_events (call_peers e nc) = nc_events nc"
  "nc_events (call_handler han ev nc) = nc_events nc @ [(han, ev)]" "nc_events (set_peer p cp nc) = nc_events nc"
  "nc_peers (push_action a nc) = nc_peers nc" "nc_peers (call_peers e nc) = nc_peers nc @ [Notification e]"
  "nc_peers (call_handler han ev nc) = nc_peers nc" "nc_peers (set_peer p cp nc) = nc_peers nc"
  "nc_requests (push_action a nc) = nc_requests nc" "nc_requests (call_peers e nc) = nc_requests nc"
  "nc_requests (call_handler han ev nc) = nc_requests nc" "nc_requests (set_peer p cp nc) = nc_requests nc"
  by (simp_all add: push_action_def call_peers_def call_handler_def set_peer_def)

lemma nc_wf_cong:
  "nc_enabled nc' = nc_enabled nc \<Longrightarrow> nc_supported nc' = nc_supported nc \<Longrightarrow> nc_wf nc' \<longleftrightarrow> nc_wf nc"
  by (simp add: nc_wf_def)

lemma nc_wf_simps [simp]:
  "nc_wf (push_action a nc) \<longleftrightarrow> nc_wf nc" "nc_wf (call_peers e nc) \<longleftrightarrow> nc_wf nc"
  "nc_wf (call_handler han ev nc) \<longleftrightarrow> nc_wf nc" "nc_wf (nc\<lparr>nc_requests := rs\<rparr>) \<longleftrightarrow> nc_wf nc"
  "nc_wf (nc\<lparr>nc_peers := ps\<rparr>) \<longleftrightarrow> nc_wf nc" "nc_wf (nc\<lparr>nc_actions := as\<rparr>) \<longleftrightarrow> nc_wf nc"
  "nc_wf (nc\<lparr>nc_events := es\<rparr>) \<longleftrightarrow> nc_wf nc"
  by (rule nc_wf_cong; simp)+

lemma nc_wf_set_peer:
  "nc_wf nc \<Longrightarrow> (\<And>c. cp = Some c \<Longrightarrow> peer_wf (nc_supported nc) c) \<Longrightarrow> nc_wf (set_peer p cp nc)"
  by (auto simp: nc_wf_def)

lemma nc_wfD:
  assumes "nc_wf nc" "nc_enabled nc p = Some (PeerConnected conns prots)"
  shows "conns \<noteq> []" "distinct conns"
    "prots pid = Some (st, han) \<Longrightarrow> st \<noteq> PendingDisableP \<and> (\<exists>cfg. nc_supported nc pid = Some (cfg, han))"
    "peer_wf (nc_supported nc) (PeerConnected conns prots)"
  using assms by (fastforce simp: nc_wf_def peer_wf_def)+

lemma peer_wf_update:
  "peer_wf supported (PeerConnected conns prots) \<Longrightarrow> supported pid = Some (cfg, han) \<Longrightarrow> st \<noteq> PendingDisableP \<Longrightarrow>
   peer_wf supported (PeerConnected conns (prots(pid \<mapsto> (st, han))))"
  by (auto simp: peer_wf_def)

lemma fold_push_action:
  "fold (\<lambda>msg. push_action (f msg)) msgs nc = nc\<lparr>nc_actions := nc_actions nc @ map f msgs\<rparr>"
  by (induction msgs arbitrary: nc) (simp_all add: push_action_def)

text \<open>Telling the handlers of all protocols changes their mailboxes only.\<close>

definition tell_all ::
  "protocol_id list \<Rightarrow> 'pid protocol_event \<Rightarrow> (protocol_id \<rightharpoonup> protocol_config \<times> 'h) \<Rightarrow> ('h \<times> 'pid protocol_event) list" where
  "tell_all order ev supported = List.map_filter (\<lambda>pid. map_option (\<lambda>(_, han). (han, ev)) (supported pid)) order"

lemma fold_call_handler:
  "fold (\<lambda>pid nc. case nc_supported nc pid of Some (_, han) \<Rightarrow> call_handler han ev nc | None \<Rightarrow> nc) order nc =
     nc\<lparr>nc_events := nc_events nc @ tell_all order ev (nc_supported nc)\<rparr>"
  by (induction order arbitrary: nc)
    (auto simp: tell_all_def List.map_filter_def call_handler_def split: option.split)

definition keeps_wf :: "('pid, 'addr, 'ch, 'h) network_controller \<Rightarrow> ('pid, 'addr, 'ch, 'h) network_controller \<Rightarrow> bool" where
  "keeps_wf nc nc' \<longleftrightarrow> (nc_wf nc \<longrightarrow> nc_wf nc') \<and> nc_supported nc' = nc_supported nc"

lemma keeps_wf_trans: "keeps_wf nc nc' \<Longrightarrow> keeps_wf nc' nc'' \<Longrightarrow> keeps_wf nc nc''"
  by (simp add: keeps_wf_def)

lemma keeps_wf_simps [simp]:
  "keeps_wf nc nc" "keeps_wf nc (push_action a nc') \<longleftrightarrow> keeps_wf nc nc'"
  "keeps_wf nc (call_peers e nc') \<longleftrightarrow> keeps_wf nc nc'" "keeps_wf nc (call_handler han ev nc') \<longleftrightarrow> keeps_wf nc nc'"
  "keeps_wf nc (nc'\<lparr>nc_actions := as\<rparr>) \<longleftrightarrow> keeps_wf nc nc'" "keeps_wf nc (nc'\<lparr>nc_events := es\<rparr>) \<longleftrightarrow> keeps_wf nc nc'"
  "keeps_wf nc (nc'\<lparr>nc_requests := rs\<rparr>) \<longleftrightarrow> keeps_wf nc nc'" "keeps_wf nc (nc'\<lparr>nc_peers := ps\<rparr>) \<longleftrightarrow> keeps_wf nc nc'"
  by (simp_all add: keeps_wf_def)

text \<open>One rule for all changes of the entry of a peer.\<close>

lemma keeps_wf_set_peer:
  assumes "keeps_wf nc nc'" "\<And>c. nc_wf nc \<Longrightarrow> cp = Some c \<Longrightarrow> peer_wf (nc_supported nc) c"
  shows "keeps_wf nc (set_peer p cp nc')"
  using assms by (auto simp: keeps_wf_def intro!: nc_wf_set_peer)

lemma peer_wf_simps [simp]:
  "peer_wf s (PeerConnected [c] Map.empty)" "peer_wf s (PeerPendingApprove c)" "peer_wf s (PeerPendingConnect ts b)"
  by (simp_all add: peer_wf_def)

lemma on_established_wf:
  assumes "on_established order p c nc = Inr nc'"
  shows "keeps_wf nc nc'"
proof -
  have "peer_wf (nc_supported nc) (PeerConnected (conns @ [c]) prots)"
    if "nc_wf nc" "nc_enabled nc p = Some (PeerConnected conns prots)" "c \<notin> set conns" for conns prots
    using nc_wfD(4) [OF that(1,2)] that(3) by (simp add: peer_wf_def)
  then show ?thesis
    using assms
    by (auto simp: on_established_def Let_def fold_push_action fold_call_handler
        intro!: keeps_wf_set_peer split: option.splits connected_peer.splits if_splits)
qed

lemma wf_update:
  assumes "nc_wf nc" "nc_enabled nc p = Some (PeerConnected conns prots)" "st \<noteq> PendingDisableP"
  shows "nc_supported nc pid = Some (cfg, han) \<Longrightarrow> peer_wf (nc_supported nc) (PeerConnected conns (prots(pid \<mapsto> (st, han))))"
    "prots pid = Some (st0, han) \<Longrightarrow> peer_wf (nc_supported nc) (PeerConnected conns (prots(pid \<mapsto> (st, han))))"
    "peer_wf (nc_supported nc) (PeerConnected conns (prots(pid := None)))"
  using nc_wfD [OF assms(1,2)] assms(3) by (auto simp: peer_wf_def)

lemma on_conn_closed_wf:
  assumes "on_conn_closed p c fault nc = Inr nc'"
  shows "keeps_wf nc nc'"
proof (cases "\<exists>conns prots. nc_enabled nc p = Some (PeerConnected conns prots)")
  case True
  then obtain conns prots where e: "nc_enabled nc p = Some (PeerConnected conns prots)" by blast
  with assms obtain ix where nc': "nc' = push_action (GenerateEvent (Disconnected p (loss_reason fault)))
      (call_peers (ConnectionLost p (loss_reason fault))
        (set_peer p (if take ix conns @ drop (Suc ix) conns = [] then None
                     else Some (PeerConnected (take ix conns @ drop (Suc ix) conns) prots)) nc))"
    unfolding on_conn_closed_def by (auto simp: res_simps Let_def simp del: append_is_Nil_conv)
  have "peer_wf (nc_supported nc) (PeerConnected (take ix conns @ drop (Suc ix) conns) prots)"
    if wf: "nc_wf nc" and ne: "take ix conns @ drop (Suc ix) conns \<noteq> []"
  proof -
    have "distinct (take ix conns @ drop (Suc ix) conns)"
      using nc_wfD(2) [OF wf e] set_take_disj_set_drop_if_distinct [of conns ix "Suc ix"] by simp
    with ne nc_wfD(4) [OF wf e] show ?thesis unfolding peer_wf_def by simp
  qed
  then show ?thesis unfolding nc' by (auto intro!: keeps_wf_set_peer simp del: append_is_Nil_conv)
next
  case False
  with assms show ?thesis
    by (auto simp: on_conn_closed_def Let_def intro!: keeps_wf_set_peer split: option.splits connected_peer.splits)
qed

lemma on_swarm_event_wf: "on_swarm_event order e nc = Inr nc' \<Longrightarrow> keeps_wf nc nc'"
  by (induction order e nc rule: on_swarm_event.induct) (auto dest: on_established_wf on_conn_closed_wf)

lemma handler_event_wf: "on_connection_handler_event p c e nc = Inr nc' \<Longrightarrow> keeps_wf nc nc'"
  by (induction p c e nc rule: on_connection_handler_event.induct)
    (auto simp: on_protocol_opened_def on_opened_by_peer_def on_protocol_closed_def Let_def res_simps
      intro!: keeps_wf_set_peer intro: wf_update(3) [where st = PendingEnableP] wf_update(1,2)
      split: option.splits connected_peer.splits if_splits enabled_protocol.splits)

lemma on_manager_out_wf: "on_manager_out out nc = Inr (nc', k) \<Longrightarrow> keeps_wf nc nc'"
  by (induction out nc rule: on_manager_out.induct)
    (auto simp: on_start_protocol_def Let_def res_simps intro!: keeps_wf_set_peer intro: wf_update(1,2)
      split: option.splits connected_peer.splits if_splits)

lemma on_enable_protocol_wf:
  assumes "on_enable_protocol pid p hs nc = Inr nc'"
  shows "keeps_wf nc nc'"
proof (cases "\<exists>conns prots. nc_enabled nc p = Some (PeerConnected conns prots)")
  case True
  then obtain conns prots where e: "nc_enabled nc p = Some (PeerConnected conns prots)" by blast
  show ?thesis
  proof (cases "prots pid")
    case None
    with assms e show ?thesis
      by (auto simp: on_enable_protocol_def Let_def res_simps intro!: keeps_wf_set_peer intro: wf_update(1))
  next
    case (Some x)
    obtain st han where "x = (st, han)" by (cases x)
    with assms e Some show ?thesis
      by (auto simp: on_enable_protocol_def Let_def res_simps intro!: keeps_wf_set_peer intro: wf_update(2)
          split: if_splits)
  qed
next
  case False
  with assms show ?thesis by (auto simp: on_enable_protocol_def split: option.splits connected_peer.splits)
qed

lemma on_request_wf: "on_request r nc = Inr nc' \<Longrightarrow> keeps_wf nc nc'"
  by (induction r nc rule: on_request.induct)
    (auto simp: on_send_one_shot_def Let_def res_simps on_enable_protocol_wf intro!: keeps_wf_set_peer
      split: option.splits connected_peer.splits)

text \<open>A property that commands and requests keep is kept by a poll.\<close>

lemma nc_poll_induct:
  assumes "nc_poll is nc = Inr (nc', r)" "P nc"
    and "\<And>nc out nc1 k. P nc \<Longrightarrow> PollReady out \<in> set is \<Longrightarrow> on_manager_out out nc = Inr (nc1, k) \<Longrightarrow> P nc1"
    and "\<And>nc q qs nc1. P nc \<Longrightarrow> nc_requests nc = q # qs \<Longrightarrow> on_request q (nc\<lparr>nc_requests := qs\<rparr>) = Inr nc1 \<Longrightarrow> P nc1"
    and "\<And>nc a as. P nc \<Longrightarrow> nc_actions nc = a # as \<Longrightarrow> P (nc\<lparr>nc_actions := as\<rparr>)"
  shows "P nc'"
  using assms
proof (induction "is" arbitrary: nc)
  case Nil
  show ?case
  proof (cases "nc_actions nc")
    case (Cons a as)
    then show ?thesis using Nil.prems(1) Nil.prems(5) [OF Nil.prems(2) Cons] by simp
  qed (use Nil.prems(1,2) in simp)
next
  case (Cons i "is")
  show ?case
  proof (cases "nc_actions nc")
    case Nil
    from Cons.prems(1) Nil obtain nc1 k where
      m: "(case i of PollReady out \<Rightarrow> on_manager_out out nc | PollPending \<Rightarrow> Inr (nc, False) | PollEnd \<Rightarrow> Inl AssertFailed) = Inr (nc1, k)"
      and rest: "(if k then nc_poll is nc1 else (case nc_requests nc1 of
          r # rs \<Rightarrow> res_bind (on_request r (nc1\<lparr>nc_requests := rs\<rparr>)) (nc_poll is) | [] \<Rightarrow> Inr (nc1, Some None))) = Inr (nc', r)"
      by (auto simp: res_simps)
    have p1: "P nc1"
    proof (cases i)
      case (PollReady out)
      show ?thesis by (rule Cons.prems(3) [OF Cons.prems(2)]) (use m PollReady in simp_all)
    qed (use m Cons.prems(2) in simp_all)
    have ih: "P nc'" if "nc_poll is nc2 = Inr (nc', r)" "P nc2" for nc2
      by (rule Cons.IH [OF that Cons.prems(3) Cons.prems(4,5)]) simp_all
    show ?thesis
    proof (cases "k \<or> nc_requests nc1 = []")
      case True
      then show ?thesis using rest p1 ih [of nc1] by (cases k) simp_all
    next
      case False
      then obtain q qs where q: "nc_requests nc1 = q # qs" by (auto simp: neq_Nil_conv)
      with rest False obtain nc2 where "on_request q (nc1\<lparr>nc_requests := qs\<rparr>) = Inr nc2" "nc_poll is nc2 = Inr (nc', r)"
        by (auto simp: res_simps)
      then show ?thesis using ih Cons.prems(4) [OF p1 q] by blast
    qed
  next
    case (Cons a as)
    then show ?thesis using Cons.prems(1) Cons.prems(5) [OF Cons.prems(2) Cons] by simp
  qed
qed

lemma nc_poll_wf: "nc_poll is nc = Inr (nc', r) \<Longrightarrow> keeps_wf nc nc'"
proof (erule nc_poll_induct [where P = "keeps_wf nc"])
  fix nc1 q qs nc2
  assume "keeps_wf nc nc1" "on_request q (nc1\<lparr>nc_requests := qs\<rparr>) = Inr nc2"
  then show "keeps_wf nc nc2" using on_request_wf by (fastforce simp: keeps_wf_def)
next
  fix nc1 out nc2 k
  assume "keeps_wf nc nc1" "on_manager_out out nc1 = Inr (nc2, k)"
  then show "keeps_wf nc nc2" using keeps_wf_trans on_manager_out_wf by blast
qed simp_all

lemma nc_step_wf: "nc_step order nc ev = Inr nc' \<Longrightarrow> keeps_wf nc nc'"
  by (cases ev) (auto simp: res_simps dest: on_swarm_event_wf handler_event_wf nc_poll_wf)

interpretation nc_machine: event_machine "nc_step order" nc_wf "\<lambda>_. True"
  by unfold_locales (use nc_step_wf in \<open>auto simp: keeps_wf_def\<close>)

lemma new_controller_wf: "nc_wf (new_controller cf supported)"
  by (simp add: nc_wf_def new_controller_def)

text \<open>
  C31. After any events a controller is well-formed, unless it panicked: a peer that is connected has at
  least one connection and no connection twice, its protocols are supported, with the handlers they are
  supported with, and the states for pending disconnection and disabling are never used.
\<close>

theorem controller_well_formed:
  assumes "res_fold (nc_step order) (new_controller cf supported) evs = Inr nc"
  shows "nc_wf nc"
  using nc_machine.run_inv [OF new_controller_wf _ assms] by simp

section \<open>Panics\<close>

definition connected_on :: "('pid, 'addr, 'ch, 'h) network_controller \<Rightarrow> 'pid \<Rightarrow> nat list option" where
  "connected_on nc p = (case nc_enabled nc p of Some (PeerConnected conns prots) \<Rightarrow> Some conns | _ \<Rightarrow> None)"

lemma first_conn_ok: "conns \<noteq> [] \<Longrightarrow> first_conn conns = Inr (hd conns)"
  by (cases conns) (simp_all add: first_conn_def)

lemma on_conn_closed_panics:
  "on_conn_closed p c fault nc = Inl e \<longleftrightarrow>
   e = UnwrapNone \<and> (\<exists>conns. connected_on nc p = Some conns \<and> c \<notin> set conns)"
  by (auto simp: on_conn_closed_def connected_on_def Let_def res_simps position_None_iff
      split: option.splits connected_peer.splits)

lemma on_established_panics:
  "on_established order p c nc = Inl e \<longleftrightarrow>
   e = AssertFailed \<and> (\<exists>conns. connected_on nc p = Some conns \<and> c \<in> set conns)"
  by (auto simp: on_established_def connected_on_def Let_def split: option.splits connected_peer.splits)

lemma handler_event_panics:
  "on_connection_handler_event p c ev nc = Inl e \<longleftrightarrow>
   (e = AssertFailed \<and> ev = ClosedAllProtocols \<and> nc_enabled nc p = None) \<or>
   (e = UnwrapNone \<and> connected_on nc p \<noteq> None \<and>
     (\<exists>tag hs. ev = OpenedByPeer tag hs \<and> nc_supported nc (tag_protocol_id tag) = None))"
  by (cases ev) (auto simp: on_opened_by_peer_def connected_on_def Let_def res_simps
      split: option.splits connected_peer.splits)

lemma on_manager_out_panics:
  assumes "nc_wf nc"
  shows "on_manager_out out nc = Inl e \<longleftrightarrow>
    e = UnwrapNone \<and> (\<exists>pid p. out = StartProtocol pid p \<and> connected_on nc p \<noteq> None \<and> nc_supported nc pid = None)"
proof (cases out)
  case (Drop p)
  then show ?thesis
    using nc_wfD(1) [OF assms, of p]
    by (auto simp: first_conn_ok split: option.splits connected_peer.splits)
qed (auto simp: on_start_protocol_def connected_on_def Let_def res_simps
    split: option.splits connected_peer.splits)

lemma on_request_panics:
  assumes "nc_wf nc"
  shows "on_request r nc = Inl e \<longleftrightarrow>
    e = UnwrapNone \<and> (\<exists>pid p hs. r = EnableProtocol pid p hs \<and> connected_on nc p \<noteq> None \<and> nc_supported nc pid = None)"
proof (cases r)
  case (SendOneShot p a tag m)
  then show ?thesis
    using nc_wfD(1) [OF assms, of p]
    by (auto simp: on_send_one_shot_def Let_def first_conn_ok split: option.splits connected_peer.splits)
next
  case (EnableProtocol pid p hs)
  then show ?thesis
    using nc_wfD(1) [OF assms, of p]
    by (auto simp: on_enable_protocol_def connected_on_def Let_def first_conn_ok res_simps
        split: option.splits connected_peer.splits if_splits)
qed simp_all

text \<open>
  C32. The inputs on which a well-formed controller panics, exactly: a connection that is established
  twice, a connection that is closed without being known as one of the peer, the answer that all
  protocols were closed from a peer that is not known, and protocols that are not supported.
\<close>

theorem controller_panics_exactly:
  assumes "nc_wf nc"
  shows "(on_swarm_event order (SwConnectionEstablished p c) nc = Inl e \<longleftrightarrow>
      e = AssertFailed \<and> (\<exists>conns. connected_on nc p = Some conns \<and> c \<in> set conns)) \<and>
    (on_swarm_event order (SwConnectionClosed p c fault) nc = Inl e \<longleftrightarrow>
      e = UnwrapNone \<and> (\<exists>conns. connected_on nc p = Some conns \<and> c \<notin> set conns)) \<and>
    (on_connection_handler_event p c ev nc = Inl e \<longleftrightarrow>
      (e = AssertFailed \<and> ev = ClosedAllProtocols \<and> nc_enabled nc p = None) \<or>
      (e = UnwrapNone \<and> connected_on nc p \<noteq> None \<and>
        (\<exists>tag hs. ev = OpenedByPeer tag hs \<and> nc_supported nc (tag_protocol_id tag) = None))) \<and>
    (on_manager_out out nc = Inl e \<longleftrightarrow>
      e = UnwrapNone \<and> (\<exists>pid p. out = StartProtocol pid p \<and> connected_on nc p \<noteq> None \<and> nc_supported nc pid = None)) \<and>
    (on_request r nc = Inl e \<longleftrightarrow>
      e = UnwrapNone \<and>
      (\<exists>pid p hs. r = EnableProtocol pid p hs \<and> connected_on nc p \<noteq> None \<and> nc_supported nc pid = None))"
  by (simp only: on_swarm_event.simps on_established_panics on_conn_closed_panics handler_event_panics
      on_manager_out_panics [OF assms] on_request_panics [OF assms] simp_thms)

section \<open>Peers that take the node down\<close>

lemma manager_rejects:
  assumes "peer (state pm) p = Some (NotConnectedPeer q)" "get_reputation p (state pm) = Some rep"
    and "rep < min_reputation (pm_conf pm)" "mailbox pm = []" "out_queue pm = []"
  shows "\<exists>pm'. poll_next ord now conn_ready prot_ready (mailbox_send (Notification (IncomingConnection p c)) pm) =
    Inr (pm', Some (Reject p c))"
  using assms by (simp add: poll_next_def mailbox_send_def on_incoming_connection_def push_out_def Let_def)

lemma handler_answers_close_all:
  "conn_outputs [Command rid CloseAllProtocols, ConnPoll env] (handle_established_inbound t rids p nc) =
     [NotifyBehaviour ClosedAllProtocols]"
proof -
  let ?h = "on_behaviour_event rid CloseAllProtocols (handle_established_inbound t rids p nc)"
  have "fire_one_shots (pe_requests env) ?h = ?h"
    by (rule fire_settled) (simp add: settled_def handle_established_inbound_def init_conn_handler_def)
  then have "conn_poll env ?h = (?h\<lparr>ch_events := []\<rparr>, Some (NotifyBehaviour ClosedAllProtocols))"
    by (simp add: conn_poll_def Let_def handle_established_inbound_def init_conn_handler_def push_event_def)
  then show ?thesis by simp
qed

text \<open>
  C33. A peer whose reputation is too low takes the node down by connecting. The controller reports the
  connection, the peer manager rejects it, the controller forgets the peer and tells the handler of the
  connection to close all protocols, the handler does and says so, and the controller panics because it
  does not know the peer.
\<close>

theorem rejected_peer_crashes_node:
  assumes "peer (state pm) p = Some (NotConnectedPeer q)" "get_reputation p (state pm) = Some rep"
    and "rep < min_reputation (pm_conf pm)" "mailbox pm = []" "out_queue pm = []"
    and "nc_enabled nc p = None" "nc_actions nc = []"
  shows "\<exists>nc1 pm1 nc2.
    on_swarm_event order (SwConnectionEstablished p c) nc = Inr nc1 \<and>
    nc_peers nc1 = nc_peers nc @ [Notification (IncomingConnection p c)] \<and>
    poll_next ord now conn_ready prot_ready (mailbox_send (Notification (IncomingConnection p c)) pm) =
      Inr (pm1, Some (Reject p c)) \<and>
    nc_poll [PollReady (Reject p c)] nc1 = Inr (nc2, Some (Some (NotifyHandler p c CloseAllProtocols))) \<and>
    conn_outputs [Command rid CloseAllProtocols, ConnPoll env] (handle_established_inbound now rids p nc) =
      [NotifyBehaviour ClosedAllProtocols] \<and>
    on_connection_handler_event p c ClosedAllProtocols nc2 = Inl AssertFailed"
  using manager_rejects [OF assms(1-5), of ord now conn_ready prot_ready c] handler_answers_close_all [of rid env now rids p nc]
    assms(6,7)
  by (auto simp: on_established_def)

text \<open>
  A peer that opens two connections at once takes the node down: the second one is closed without
  being recorded, and when the first one has been accepted before the closing completes, the controller
  panics because it does not know the connection that was closed.
\<close>

theorem second_connection_crashes_node:
  assumes "nc_enabled nc p = None" "nc_actions nc = []" "nc_requests nc = []" "c2 \<noteq> c1"
  shows "\<exists>nc'. res_fold (nc_step order) nc
      [SwarmEvent (SwConnectionEstablished p c1), SwarmEvent (SwConnectionEstablished p c2), PollEvent [],
       PollEvent [PollReady (AcceptIncomingConnection p c1)]] = Inr nc' \<and>
    nc_step order nc' (SwarmEvent (SwConnectionClosed p c2 fault)) = Inl UnwrapNone"
  using assms by (simp add: on_established_def on_conn_closed_panics connected_on_def)

section \<open>One-shot messages across components\<close>

lemma outbound_handler_requests:
  assumes "nc_enabled nc p = Some (PeerPendingConnect [msg] asap)" "rid1 \<noteq> rid2" "pe_requests env = [rid1, rid2]"
  shows "conn_outputs [Command rid2 (TryDeliverOnce msg), ConnPoll env, ConnPoll env]
      (handle_established_outbound t [rid1] p nc) =
    [one_shot_event (handle_established_outbound t [rid1] p nc) rid1 msg,
     one_shot_event (handle_established_outbound t [rid1] p nc) rid2 msg]"
proof -
  let ?h = "handle_established_outbound t [rid1] p nc"
  let ?h' = "on_behaviour_event rid2 (TryDeliverOnce msg) ?h"
  have "ch_events (fire_one_shots [rid1, rid2] ?h') = [one_shot_event ?h rid1 msg, one_shot_event ?h rid2 msg]"
    using assms(1,2)
    by (simp add: fire_one_shots_def fire_one_shot_def Let_def one_shot_event_def push_event_def
        handle_established_outbound_def init_conn_handler_def)
  with polls_hand_out [of env ?h'] assms(3) show ?thesis by (simp add: numeral_2_eq_2)
qed

text \<open>
  A one-shot message to a peer that is not connected is sent twice: the handler of the new connection
  is created with it, and is told to deliver it once more when the connection is established, after
  which it asks for two substreams for the same message.
\<close>

theorem one_shot_sent_twice:
  assumes "nc_enabled nc p = None" "rid1 \<noteq> rid2" "pe_requests env = [rid1, rid2]"
    and "msg = \<lparr>os_protocol = tag, os_content = content\<rparr>"
  shows "\<exists>nc1 nc2. on_request (SendOneShot p hint tag content) nc = Inr nc1 \<and>
    on_swarm_event order (SwConnectionEstablished p c) nc1 = Inr nc2 \<and>
    NotifyHandler p c (TryDeliverOnce msg) \<in> set (nc_actions nc2) \<and>
    conn_outputs [Command rid2 (TryDeliverOnce msg), ConnPoll env, ConnPoll env]
        (handle_established_outbound t [rid1] p nc1) =
      [one_shot_event (handle_established_outbound t [rid1] p nc1) rid1 msg,
       one_shot_event (handle_established_outbound t [rid1] p nc1) rid2 msg]"
proof -
  let ?nc = "set_peer p (Some (PeerPendingConnect [msg] True)) (push_action (Dial p (case hint of None \<Rightarrow> [] | Some a \<Rightarrow> [a])) nc)"
  have "on_request (SendOneShot p hint tag content) nc = Inr ?nc"
    using assms(1,4) by (simp add: on_send_one_shot_def)
  moreover have "\<exists>nc2. on_established order p c ?nc = Inr nc2 \<and>
      NotifyHandler p c (TryDeliverOnce msg) \<in> set (nc_actions nc2)"
    by (simp add: on_established_def Let_def fold_push_action fold_call_handler)
  moreover have "nc_enabled ?nc p = Some (PeerPendingConnect [msg] True)" by simp
  ultimately show ?thesis using outbound_handler_requests [OF _ assms(2,3), of ?nc p msg True t] by auto
qed

section \<open>Peers that cannot be dialled\<close>

text \<open>The controller waits for a connection to the peer and does not dial it again.\<close>

definition waiting_for :: "'pid \<Rightarrow> ('pid, 'addr, 'ch, 'h) network_controller \<Rightarrow> bool" where
  "waiting_for p nc \<longleftrightarrow>
     (\<exists>tasks asap. nc_enabled nc p = Some (PeerPendingConnect tasks asap)) \<and> (\<forall>as. Dial p as \<notin> set (nc_actions nc))"

fun not_established :: "'pid \<Rightarrow> ('pid, 'addr) nc_event \<Rightarrow> bool" where
  "not_established p (SwarmEvent (SwConnectionEstablished q c)) \<longleftrightarrow> q \<noteq> p"
| "not_established p (HandlerEvent q c ev) \<longleftrightarrow> q \<noteq> p"
| "not_established p _ \<longleftrightarrow> True"

lemma waiting_cong:
  "nc_enabled nc' p = nc_enabled nc p \<Longrightarrow> set (nc_actions nc') \<inter> range (Dial p) = set (nc_actions nc) \<inter> range (Dial p) \<Longrightarrow>
   waiting_for p nc \<Longrightarrow> waiting_for p nc'"
  by (auto simp: waiting_for_def)

lemma waiting_swarm:
  assumes "waiting_for p nc" "not_established p (SwarmEvent e :: ('a, 'b) nc_event)" "on_swarm_event order e nc = Inr nc'"
  shows "waiting_for p nc'"
  using assms
  by (induction order e nc rule: on_swarm_event.induct)
    (auto simp: waiting_for_def on_established_def on_conn_closed_def Let_def res_simps fold_push_action
      fold_call_handler split: option.splits connected_peer.splits if_splits)

lemma waiting_handler:
  "waiting_for p nc \<Longrightarrow> q \<noteq> p \<Longrightarrow> on_connection_handler_event q c e nc = Inr nc' \<Longrightarrow> waiting_for p nc'"
  by (cases e)
    (auto simp: waiting_for_def on_protocol_opened_def on_opened_by_peer_def on_protocol_closed_def Let_def res_simps
      split: option.splits connected_peer.splits if_splits enabled_protocol.splits)

lemma waiting_manager:
  assumes "waiting_for p nc" "on_manager_out out nc = Inr (nc', k)"
  shows "waiting_for p nc'"
proof (cases out)
  case (Connect dest)
  have "\<exists>as. dial_opts dest = Dial (dest_peer_id dest) as" by (cases dest) simp_all
  with assms Connect show ?thesis by (auto simp: waiting_for_def Let_def split: if_splits)
qed (use assms in \<open>auto simp: waiting_for_def on_start_protocol_def Let_def res_simps
    split: option.splits connected_peer.splits\<close>)

lemma waiting_request:
  assumes "waiting_for p nc" "on_request r nc = Inr nc'"
  shows "waiting_for p nc'"
proof (cases r)
  case (EnableProtocol pid q hs)
  show ?thesis
  proof (cases "\<exists>conns prots. nc_enabled nc q = Some (PeerConnected conns prots)")
    case True
    then obtain conns prots where e: "nc_enabled nc q = Some (PeerConnected conns prots)" by blast
    with assms(1) have "q \<noteq> p" by (auto simp: waiting_for_def)
    with assms e EnableProtocol show ?thesis
      by (cases "prots pid")
        (auto simp: waiting_for_def on_enable_protocol_def Let_def res_simps split: if_splits prod.splits)
  next
    case False
    with assms EnableProtocol show ?thesis
      by (auto simp: on_enable_protocol_def split: option.splits connected_peer.splits)
  qed
qed (use assms in \<open>auto simp: waiting_for_def on_send_one_shot_def Let_def res_simps
    split: option.splits connected_peer.splits\<close>)

lemma waiting_poll:
  assumes "waiting_for p nc" "nc_poll is nc = Inr (nc', r)"
  shows "waiting_for p nc'"
proof (rule nc_poll_induct [where P = "waiting_for p", OF assms(2,1)])
  fix nc1 q qs nc2
  assume w: "waiting_for p nc1" and q: "on_request q (nc1\<lparr>nc_requests := qs\<rparr>) = Inr nc2"
  have "waiting_for p (nc1\<lparr>nc_requests := qs\<rparr>)" using w by (simp add: waiting_for_def)
  then show "waiting_for p nc2" by (rule waiting_request [OF _ q])
next
  fix nc1 a as
  assume "waiting_for p nc1" "nc_actions nc1 = a # as"
  then show "waiting_for p (nc1\<lparr>nc_actions := as\<rparr>)" by (simp add: waiting_for_def)
next
  fix nc1 out nc2 k
  assume "waiting_for p nc1" "on_manager_out out nc1 = Inr (nc2, k)"
  then show "waiting_for p nc2" by (rule waiting_manager)
qed

interpretation waiting: event_machine "nc_step order" "waiting_for p" "not_established p"
proof unfold_locales
  fix nc ev nc'
  assume a: "waiting_for p nc" "not_established p ev" "nc_step order nc ev = Inr nc'"
  show "waiting_for p nc'"
  proof (cases ev)
    case (SwarmEvent e)
    with a(3) have "on_swarm_event order e nc = Inr nc'" by simp
    then show ?thesis using waiting_swarm [OF a(1)] a(2) SwarmEvent by blast
  next
    case (HandlerEvent q c e)
    with a(2,3) have "q \<noteq> p" "on_connection_handler_event q c e nc = Inr nc'" by simp_all
    then show ?thesis by (rule waiting_handler [OF a(1)])
  next
    case (MailboxRequest r)
    then show ?thesis using a by (auto simp: waiting_for_def)
  next
    case (PollEvent "is")
    with a(3) obtain r where "nc_poll is nc = Inr (nc', r)" by (auto simp: res_simps)
    then show ?thesis by (rule waiting_poll [OF a(1)])
  qed
qed

lemma dialled_waits:
  assumes "nc_enabled nc p = None" "nc_actions nc = []" "dest_peer_id dest = p"
  shows "\<exists>nc1 as. nc_poll [PollReady (Connect dest)] nc = Inr (nc1, Some (Some (Dial p as))) \<and> waiting_for p nc1"
proof -
  obtain as where "dial_opts dest = Dial p as" using assms(3) by (cases dest) auto
  with assms show ?thesis by (simp add: Let_def waiting_for_def) blast
qed


section \<open>Substreams that are opened again\<close>

lemma sink_stays_unused:
  assumes "conn_wf h" "s < ch_next_sink h" "\<And>pid. sink_of h pid \<noteq> Some s"
  shows "sink_of (fold conn_step ops h) pid \<noteq> Some s"
  using assms
proof (induction ops arbitrary: h)
  case (Cons op ops)
  have unused: "sink_of (conn_step op h) pid' \<noteq> Some s" for pid'
    using conn_step_outgoing [OF Cons.prems(1,2), of op pid'] Cons.prems(3) by blast
  have "ch_next_sink h \<le> ch_next_sink (conn_step op h)"
    by (rule conn_step_next_sink [OF Cons.prems(1)])
  then show ?case
    using Cons.IH [OF conn_step_wf [OF Cons.prems(1)] _ unused] Cons.prems(2) by simp
qed simp

text \<open>
  C35. When a peer closes its substream of an enabled protocol and opens it again, the handler of the
  connection replaces the sink, but the controller ignores the new one: the protocol keeps the old
  sink, and what is put on it is never read again.
\<close>

theorem reopened_substream_ignored:
  assumes "conn_wf h" "pstate h pid = Some (InboundClosedByPeer out s)" "tag_protocol_id (iu_tag up) = pid"
    and "nc_enabled nc p = Some (PeerConnected conns prots)" "prots pid = Some (EnabledP ver s, han)"
  shows "\<exists>s'. ch_events (on_connection_event (NegotiatedInbound up) h) =
      ch_events h @ [NotifyBehaviour (OutOpened (iu_tag up) s' (iu_handshake up))] \<and> s' \<noteq> s \<and>
    on_connection_handler_event p c (OutOpened (iu_tag up) s' (iu_handshake up)) nc = Inr nc \<and>
    (\<forall>ops pid'. sink_of (fold conn_step ops (on_connection_event (NegotiatedInbound up) h)) pid' \<noteq> Some s)"
proof -
  obtain q where q: "ch_stateful h pid = Some q" "sp_state q = Some (InboundClosedByPeer out s)"
    using assms(2) by (auto simp: bind_eq_Some_conv)
  let ?h = "on_connection_event (NegotiatedInbound up) h"
  let ?s = "ch_next_sink h"
  have sk: "sink_of h pid = Some s" using q by (simp add: sink_of_def)
  then have less: "s < ?s" using assms(1) by (simp add: conn_wf_def)
  have h: "sink_of ?h pid' = (if pid' = pid then Some ?s else sink_of h pid')" "ch_next_sink ?h = Suc ?s"
    "ch_events ?h = ch_events h @ [NotifyBehaviour (OutOpened (iu_tag up) ?s (iu_handshake up))]" for pid'
    using q assms(3) by (simp_all add: on_negotiated_inbound_def Let_def sink_of_def)
  have unused: "sink_of ?h pid' \<noteq> Some s" for pid'
    using h(1) [of pid'] less sk assms(1) by (auto simp: conn_wf_def)
  have "s < ch_next_sink ?h" using h(2) less by simp
  note sink_stays_unused [OF on_connection_event_wf [OF assms(1)] this unused]
  moreover have "on_connection_handler_event p c (OutOpened (iu_tag up) ?s (iu_handshake up)) nc = Inr nc"
    using assms(3-5) by (simp add: on_protocol_opened_def Let_def)
  ultimately show ?thesis using h(3) less by blast
qed

section \<open>Versions\<close>

fun is_message :: "conn_handler_event \<Rightarrow> bool" where
  "is_message (NotifyBehaviour (OutMessage tag m)) \<longleftrightarrow> True"
| "is_message _ \<longleftrightarrow> False"

definition tagged_by :: "'pid conn_handler \<Rightarrow> protocol_tag \<Rightarrow> bool" where
  "tagged_by h tag \<longleftrightarrow> (\<exists>x. statics h (tag_protocol_id tag) = Some (tag_protocol_ver tag, x))"

lemma read_protocol_message:
  "read_protocol env pid h = (h', Some (NotifyBehaviour (OutMessage tag m))) \<Longrightarrow> tagged_by h tag"
  by (auto simp: read_protocol_def Let_def tagged_by_def statics_def new_tag_def tag_protocol_id_def tag_protocol_ver_def
      split: option.splits protocol_state.splits prod.splits read_poll.splits bool.splits)

lemma read_all_message:
  "read_all env pids h = (h', Some (NotifyBehaviour (OutMessage tag m))) \<Longrightarrow> tagged_by h tag"
proof (induction env pids h rule: read_all.induct)
  case (2 env pid pids h)
  obtain h1 r1 where r: "read_protocol env pid h = (h1, r1)" by fastforce
  show ?case
  proof (cases r1)
    case None
    with 2 r have "tagged_by h1 tag" by simp
    then show ?thesis using statics_read [OF r] by (simp add: tagged_by_def)
  next
    case (Some e)
    with "2.prems" r show ?thesis using read_protocol_message [of env pid h h1 tag m] by simp
  qed
qed simp

lemma flush_no_message: "flush_all env pids h = (h', Some e) \<Longrightarrow> \<not> is_message e"
  by (induction env pids h rule: flush_all.induct)
    (auto simp: Let_def split: option.splits protocol_state.splits if_splits)

lemma fire_no_message:
  "filter is_message (ch_events (fire_one_shots rids h)) = filter is_message (ch_events h)"
proof (induction rids arbitrary: h)
  case (Cons rid rids)
  have "filter is_message (ch_events (fire_one_shot rid h)) = filter is_message (ch_events h)"
    by (simp add: fire_one_shot_def Let_def split: option.split one_shot_request.split)
  then show ?case using Cons.IH [of "fire_one_shot rid h"] by (simp add: fire_one_shots_def)
qed (simp add: fire_one_shots_def)

lemma conn_poll_message:
  assumes "filter is_message (ch_events h) = []"
  shows "filter is_message (ch_events (fst (conn_poll env h))) = [] \<and>
    (\<forall>tag m. snd (conn_poll env h) = Some (NotifyBehaviour (OutMessage tag m)) \<longrightarrow> tagged_by h tag)"
proof -
  let ?h = "fire_one_shots (pe_requests env) h"
  obtain h1 r1 where s: "send_all env (pe_protocols env) (pe_delay env) ?h = (h1, r1)" by fastforce
  obtain h2 r2 where f: "flush_all env (pe_protocols env) h1 = (h2, r2)" by fastforce
  obtain h3 r3 where r: "read_all env (pe_protocols env) h2 = (h3, r3)" by fastforce
  have ev: "ch_events h1 = ch_events ?h" "ch_events h2 = ch_events ?h" "ch_events h3 = ch_events ?h"
    using send_all_requests [OF s] flush_all_requests [OF f] read_all_requests [OF r]
    by (simp_all add: same_requests_def)
  have "statics h2 = statics h"
    using statics_send_all [OF s] statics_flush [OF f] statics_cong [of ?h h] by simp
  then have tag: "tagged_by h tag" if "r3 = Some (NotifyBehaviour (OutMessage tag m))" for tag m
    using read_all_message [of env "pe_protocols env" h2 h3 tag m] r that by (simp add: tagged_by_def)
  have none: "filter is_message (ch_events ?h) = []" using assms by (simp add: fire_no_message)
  then have "e # es = ch_events ?h \<Longrightarrow> \<not> is_message e \<and> filter is_message es = []" for e es
    by (metis filter.simps(2) list.distinct(1))
  moreover have "\<forall>tag m. r2 \<noteq> Some (NotifyBehaviour (OutMessage tag m))"
    using flush_no_message [of env "pe_protocols env" h1 h2] f by fastforce
  ultimately show ?thesis
    using none ev tag
    by (auto simp: conn_poll_def Let_def s f r split: list.split send_result.split option.split)
qed

lemma conn_step_message:
  assumes "filter is_message (ch_events h) = []"
  shows "filter is_message (ch_events (conn_step op h)) = []"
proof (cases op)
  case (Command rid c)
  then show ?thesis using assms
    by (cases c) (auto simp: on_open_def Let_def split: option.split protocol_state.split)
next
  case (ConnEvent e)
  then show ?thesis using assms
    by (cases e) (auto simp: on_negotiated_inbound_def on_negotiated_outbound_def on_dial_upgrade_error_def Let_def
        split: option.split protocol_state.split)
next
  case (ConnPoll env)
  then show ?thesis using conn_poll_message [OF assms, of env] by simp
next
  case (Enqueue s n)
  then show ?thesis using assms by (simp add: enqueue_def)
qed

lemma conn_run_message:
  assumes "filter is_message (ch_events h) = []" "NotifyBehaviour (OutMessage tag m) \<in> set (conn_outputs ops h)"
  shows "tagged_by h tag"
  using assms
proof (induction ops arbitrary: h)
  case (Cons op ops)
  show ?case
  proof (cases "NotifyBehaviour (OutMessage tag m) \<in> set (conn_outputs ops (conn_step op h))")
    case True
    with Cons.IH conn_step_message [OF Cons.prems(1)] have "tagged_by (conn_step op h) tag" by blast
    then show ?thesis using statics_step [of op h] by (simp add: tagged_by_def)
  next
    case False
    with Cons.prems(2) obtain env where "op = ConnPoll env" "snd (conn_poll env h) = Some (NotifyBehaviour (OutMessage tag m))"
      by (cases op) (auto split: option.splits)
    then show ?thesis using conn_poll_message [OF Cons.prems(1), of env] by simp
  qed
qed simp

lemma init_stateful_last:
  assumes "vers \<noteq> []"
  shows "init_stateful (StatefulConfig vers) = Some \<lparr>sp_ver = fst (last vers), sp_spec = snd (last vers),
    sp_state = Some Closed, sp_all_versions = vers\<rparr>"
proof -
  have "fold (\<lambda>(ver, spec) _. Some (f ver spec)) vers None = Some (f (fst (last vers)) (snd (last vers)))" for f
    using assms by (induction vers rule: rev_induct) (auto simp: case_prod_beta)
  then show ?thesis by (simp add: init_stateful_def)
qed

text \<open>
  The version that was negotiated is ignored: whatever happens on a connection, messages of a protocol
  are reported with the version that is listed last, so that an honest peer that uses any other version
  the node supports is reported for a ban by the protocol handler.
\<close>

theorem negotiated_version_ignored:
  assumes "nc_supported nc pid = Some (StatefulConfig vers, han)" "vers \<noteq> []"
    and "NotifyBehaviour (OutMessage tag m) \<in> set (conn_outputs evs (init_conn_handler t rids p msgs asap nc))"
    and "tag_protocol_id tag = pid"
    and "nc_enabled nc' p = Some (PeerConnected conns prots)" "prots pid = Some (st, han)"
    and "dec_msg cdc m = Some x" "msg_version cdc x \<noteq> fst (last vers)"
  shows "on_connection_handler_event p c (OutMessage tag m) nc' =
      Inr (call_handler han (EvMessage p (fst (last vers)) m) nc') \<and>
    handle_event ops cdc (EvMessage p (fst (last vers)) m) ph = Inr (call_network (BanPeerReq p) ph)"
proof -
  have "tagged_by (init_conn_handler t rids p msgs asap nc) tag"
    by (rule conn_run_message [OF _ assms(3)]) (simp add: init_conn_handler_def)
  then have "tag_protocol_ver tag = fst (last vers)"
    using assms(1,2,4) by (simp add: tagged_by_def statics_def init_conn_handler_def init_stateful_last)
  then show ?thesis using assms(4-8) by simp
qed

section \<open>Opening a protocol\<close>

lemma conn_poll_event:
  "settled (pe_requests env) h \<Longrightarrow> ch_events h = e # es \<Longrightarrow> conn_poll env h = (h\<lparr>ch_events := es\<rparr>, Some e)"
  by (simp add: conn_poll_def Let_def fire_settled)

lemma handler_opens:
  assumes "ch_stateful h pid = Some q" "sp_state q = Some Closed" "ch_events h = []" "ch_requests h = Map.empty"
    and "tag_protocol_id (iu_tag ui) = pid"
  shows "conn_outputs [Command rid (Open pid hs), ConnPoll env, ConnEvent (NegotiatedOutbound uo (new_tag pid (sp_ver q))),
      ConnEvent (NegotiatedInbound ui), ConnPoll env] h =
    [OutboundSubstreamRequest (Inl (new_upgrade_out pid (open_versions q hs))) (new_tag pid (sp_ver q)) (open_timeout (ch_conf h)),
     NotifyBehaviour (OutOpened (iu_tag ui) (ch_next_sink h) (iu_handshake ui))]"
proof -
  have tag: "tag_protocol_id (new_tag pid v) = pid" for v by (simp add: new_tag_def tag_protocol_id_def)
  have "settled rids k" if "ch_requests k = Map.empty" for rids and k :: "'a conn_handler" using that by (simp add: settled_def)
  then show ?thesis
    using assms
    by (simp add: on_open_def Let_def conn_poll_event on_negotiated_outbound_def on_negotiated_inbound_def tag
        set_state_def push_event_def new_channel_def)
qed

text \<open>
  C30. Opening a protocol works end to end: a request of a protocol handler makes the controller tell the
  connection, which asks for a substream with the handshakes, and once both substreams are negotiated
  reports it; the controller then enables the protocol and hands the sink of the connection and the
  handshake of the peer to the protocol handler.
\<close>

theorem protocol_opened_end_to_end:
  assumes nc: "nc_enabled nc p = Some (PeerConnected (c # cs) prots)" "prots pid = None"
      "nc_supported nc pid = Some (cfg, han)" "nc_actions nc = []" "nc_requests nc = [EnableProtocol pid p hs]"
    and h: "ch_stateful h pid = Some q" "sp_state q = Some Closed" "ch_events h = []" "ch_requests h = Map.empty"
    and ui: "tag_protocol_id (iu_tag ui) = pid"
  shows "\<exists>nc1 nc2 s. nc_poll [PollPending] nc = Inr (nc1, Some (Some (NotifyHandler p c (Open pid hs)))) \<and>
    conn_outputs [Command rid (Open pid hs), ConnPoll env, ConnEvent (NegotiatedOutbound uo (new_tag pid (sp_ver q))),
        ConnEvent (NegotiatedInbound ui), ConnPoll env] h =
      [OutboundSubstreamRequest (Inl (new_upgrade_out pid (open_versions q hs))) (new_tag pid (sp_ver q)) (open_timeout (ch_conf h)),
       NotifyBehaviour (OutOpened (iu_tag ui) s (iu_handshake ui))] \<and>
    on_connection_handler_event p c (OutOpened (iu_tag ui) s (iu_handshake ui)) nc1 = Inr nc2 \<and>
    nc_events nc2 = nc_events nc @ [(han, EvEnabled p (tag_protocol_ver (iu_tag ui)) s (iu_handshake ui))] \<and>
    nc_enabled nc2 p = Some (PeerConnected (c # cs) (prots(pid \<mapsto> (EnabledP (tag_protocol_ver (iu_tag ui)) s, han))))"
  using handler_opens [OF h ui, of rid hs env uo] nc ui
  by (simp add: on_enable_protocol_def first_conn_def on_protocol_opened_def Let_def)

section \<open>Witnesses\<close>

type_synonym ex_controller = "(nat, nat, nat, nat) network_controller"

definition ex_controller :: ex_controller where
  "ex_controller = new_controller ex_conf [1 \<mapsto> (StatefulConfig [(2, ex_spec), (1, ex_spec)], 5)]"

definition ex_connected :: "enabled_protocol \<Rightarrow> ex_controller" where
  "ex_connected st = ex_controller\<lparr>nc_enabled := [7 \<mapsto> PeerConnected [3] [1 \<mapsto> (st, 5)]]\<rparr>"

definition ex_manager :: "(nat, nat, nat) peer_manager" where
  "ex_manager = new_manager
     ((new_repo \<lparr>min_known_peers = 1, min_outbound = 1, max_inbound = 9, max_outbound = 9\<rparr> [])
        \<lparr>peers := [7 \<mapsto> (new_peer_info None False False)\<lparr>reputation := -50\<rparr>]\<rparr>)
     \<lparr>min_acceptable_reputation = -20, min_reputation = -10, conn_reset_outbound_backoff = 0, conn_alloc_interval = 1,
      prot_alloc_interval = 1, protocols_allocation = [], peer_manager_msg_buffer_size = 1\<rparr>"

definition ex_upgraded :: inbound_upgraded where
  "ex_upgraded = \<lparr>iu_tag = new_tag 1 2, iu_handshake = Some [4],
     iu_substream = \<lparr>si_max_len = 100, si_approve = Some NotSent, si_written = []\<rparr>\<rparr>"

definition ex_upgraded_out :: outbound_upgraded where
  "ex_upgraded_out = \<lparr>ou_tag = new_tag 1 2, ou_substream = \<lparr>so_max_len = 100, so_sent = []\<rparr>\<rparr>"

lemma ex_controller_simps [simp]:
  "nc_enabled ex_controller = Map.empty" "nc_actions ex_controller = []" "nc_requests ex_controller = []"
  "nc_supported ex_controller = [1 \<mapsto> (StatefulConfig [(2, ex_spec), (1, ex_spec)], 5)]"
  "nc_enabled (ex_connected st) = [7 \<mapsto> PeerConnected [3] [1 \<mapsto> (st, 5)]]" "nc_actions (ex_connected st) = []"
  "nc_requests (ex_connected st) = []"
  "nc_supported (ex_connected st) = [1 \<mapsto> (StatefulConfig [(2, ex_spec), (1, ex_spec)], 5)]"
  by (simp_all add: ex_controller_def new_controller_def ex_connected_def)

lemma ex_tags [simp]: "tag_protocol_id (new_tag p v) = p" "tag_protocol_ver (new_tag p v) = v"
  by (simp_all add: new_tag_def tag_protocol_id_def tag_protocol_ver_def)

theorem controller_well_formed_witness:
  "\<exists>nc :: ex_controller. res_fold (nc_step [1]) (new_controller ex_conf [1 \<mapsto> (StatefulConfig [(2, ex_spec), (1, ex_spec)], 5)])
     [SwarmEvent (SwConnectionEstablished 7 3), PollEvent [PollReady (AcceptIncomingConnection 7 3)]] = Inr nc \<and>
     connected_on nc 7 = Some [3] \<and> nc_wf nc"
proof -
  have "\<exists>nc. res_fold (nc_step [1]) (new_controller ex_conf [1 \<mapsto> (StatefulConfig [(2, ex_spec), (1, ex_spec)], 5)])
     [SwarmEvent (SwConnectionEstablished 7 3), PollEvent [PollReady (AcceptIncomingConnection 7 3)]] = Inr (nc :: ex_controller) \<and>
     connected_on nc 7 = Some [3]"
    by (simp add: on_established_def connected_on_def new_controller_def)
  then show ?thesis using controller_well_formed by blast
qed

theorem controller_panics_exactly_witness:
  "on_swarm_event [1] (SwConnectionClosed 7 4 None) (ex_connected PendingEnableP) = Inl UnwrapNone"
proof -
  have "nc_wf (ex_connected PendingEnableP)" by (auto simp: nc_wf_def peer_wf_def)
  from controller_panics_exactly [OF this, of "[1]" 7 4 UnwrapNone None] show ?thesis
    by (simp add: connected_on_def)
qed

theorem rejected_peer_crashes_node_witness:
  "\<exists>nc1 pm1 nc2.
    on_swarm_event [1] (SwConnectionEstablished 7 3) ex_controller = Inr nc1 \<and>
    poll_next sorted_list_of_set 0 False False (mailbox_send (Notification (IncomingConnection 7 3)) ex_manager) =
      Inr (pm1, Some (Reject 7 3)) \<and>
    nc_poll [PollReady (Reject 7 3)] nc1 = Inr (nc2, Some (Some (NotifyHandler 7 3 CloseAllProtocols))) \<and>
    on_connection_handler_event 7 3 ClosedAllProtocols nc2 = Inl AssertFailed"
proof -
  have pm: "peer (state ex_manager) 7 = Some (NotConnectedPeer 7)" "get_reputation 7 (state ex_manager) = Some (-50)"
    "-50 < min_reputation (pm_conf ex_manager)" "mailbox ex_manager = []" "out_queue ex_manager = []"
    by (simp_all add: ex_manager_def new_manager_def new_repo_def peer_def new_peer_info_def get_reputation_def)
  have nc: "nc_enabled ex_controller 7 = None" "nc_actions ex_controller = []" by simp_all
  show ?thesis
    using rejected_peer_crashes_node [OF pm nc, of "[1]" 3 sorted_list_of_set 0 False False 0 "ex_env []" "[]"] by blast
qed

theorem second_connection_crashes_node_witness:
  "\<exists>nc'. res_fold (nc_step [1]) ex_controller
      [SwarmEvent (SwConnectionEstablished 7 3), SwarmEvent (SwConnectionEstablished 7 4), PollEvent [],
       PollEvent [PollReady (AcceptIncomingConnection 7 3)]] = Inr nc' \<and>
    nc_step [1] nc' (SwarmEvent (SwConnectionClosed 7 4 None)) = Inl UnwrapNone"
  by (rule second_connection_crashes_node) simp_all

theorem one_shot_sent_twice_witness:
  "\<exists>nc1 nc2. on_request (SendOneShot 7 None (new_tag 2 1) [9]) ex_controller = Inr nc1 \<and>
    on_swarm_event [1] (SwConnectionEstablished 7 3) nc1 = Inr nc2 \<and>
    NotifyHandler 7 3 (TryDeliverOnce \<lparr>os_protocol = new_tag 2 1, os_content = [9]\<rparr>) \<in> set (nc_actions nc2) \<and>
    length (conn_outputs [Command 11 (TryDeliverOnce \<lparr>os_protocol = new_tag 2 1, os_content = [9]\<rparr>),
        ConnPoll (ex_env [10, 11]), ConnPoll (ex_env [10, 11])] (handle_established_outbound 0 [10] 7 nc1)) = 2"
proof -
  have "pe_requests (ex_env [10, 11]) = [10, 11]" "(10::64 word) \<noteq> 11" by (simp_all add: ex_env_def)
  from one_shot_sent_twice [OF _ this(2,1) refl, of ex_controller 7 None "new_tag 2 1" "[9]" "[1]" 3 0] show ?thesis
    by fastforce
qed


theorem reopened_substream_ignored_witness:
  "\<exists>s'. ch_events (on_connection_event (NegotiatedInbound ex_upgraded)
        (ex_handler (InboundClosedByPeer \<lparr>so_max_len = 100, so_sent = []\<rparr> 0))) =
      [NotifyBehaviour (OutOpened (iu_tag ex_upgraded) s' (iu_handshake ex_upgraded))] \<and> s' \<noteq> 0 \<and>
    on_connection_handler_event 7 3 (OutOpened (iu_tag ex_upgraded) s' (iu_handshake ex_upgraded)) (ex_connected (EnabledP 2 0)) =
      Inr (ex_connected (EnabledP 2 0))"
proof -
  let ?h = "ex_handler (InboundClosedByPeer \<lparr>so_max_len = 100, so_sent = []\<rparr> 0)"
  have "conn_wf ?h" by (auto simp: conn_wf_def sink_of_def ex_handler_def split: if_splits)
  moreover have "pstate ?h 1 = Some (InboundClosedByPeer \<lparr>so_max_len = 100, so_sent = []\<rparr> 0)"
    "tag_protocol_id (iu_tag ex_upgraded) = 1" "ch_events ?h = []"
    by (simp_all add: ex_handler_def ex_upgraded_def)
  ultimately show ?thesis
    using reopened_substream_ignored [of ?h 1 "\<lparr>so_max_len = 100, so_sent = []\<rparr>" 0 ex_upgraded "ex_connected (EnabledP 2 0)" 7 "[3]"
      "[1 \<mapsto> (EnabledP 2 0, 5)]" 2 5 3] by auto
qed

theorem protocol_opened_end_to_end_witness:
  "\<exists>nc1 nc2 s. nc_poll [PollPending] (ex_controller\<lparr>nc_enabled := [7 \<mapsto> PeerConnected [3] Map.empty],
        nc_requests := [EnableProtocol 1 7 (spec_of_list [(1, Some [4])])]\<rparr>) =
      Inr (nc1, Some (Some (NotifyHandler 7 3 (Open 1 (spec_of_list [(1, Some [4])]))))) \<and>
    on_connection_handler_event 7 3 (OutOpened (iu_tag ex_upgraded) s (iu_handshake ex_upgraded)) nc1 = Inr nc2 \<and>
    nc_enabled nc2 7 = Some (PeerConnected [3] [1 \<mapsto> (EnabledP 2 s, 5)])"
proof -
  let ?hs = "spec_of_list [(1, Some [4])]"
  let ?nc = "ex_controller\<lparr>nc_enabled := [7 \<mapsto> PeerConnected [3] Map.empty], nc_requests := [EnableProtocol 1 7 ?hs]\<rparr>"
  let ?q = "\<lparr>sp_ver = 1, sp_spec = ex_spec, sp_state = Some Closed, sp_all_versions = [(1, ex_spec)]\<rparr>"
  have nc: "nc_enabled ?nc 7 = Some (PeerConnected (3 # []) Map.empty)" "Map.empty 1 = None"
    "nc_supported ?nc 1 = Some (StatefulConfig [(2, ex_spec), (1, ex_spec)], 5)" "nc_actions ?nc = []"
    "nc_requests ?nc = [EnableProtocol 1 7 ?hs]" by simp_all
  have h: "ch_stateful (ex_handler Closed) 1 = Some ?q" "sp_state ?q = Some Closed" "ch_events (ex_handler Closed) = []"
    "ch_requests (ex_handler Closed) = Map.empty" "tag_protocol_id (iu_tag ex_upgraded) = 1"
    by (simp_all add: ex_handler_def ex_upgraded_def)
  have "tag_protocol_ver (iu_tag ex_upgraded) = 2" by (simp add: ex_upgraded_def)
  then show ?thesis
    using protocol_opened_end_to_end [OF nc h, of 0 "ex_env []" ex_upgraded_out] by metis
qed

definition ex_read :: poll_env where
  "ex_read = (ex_env [])\<lparr>pe_socket := (\<lambda>_. ex_socket\<lparr>sk_next := ReadMsg [8]\<rparr>)\<rparr>"

definition ex_session :: "conn_op list" where
  "ex_session = [ConnEvent (NegotiatedInbound ex_upgraded), Command 0 (Open 1 [1 \<mapsto> Some [4]]),
     ConnEvent (NegotiatedOutbound ex_upgraded_out (new_tag 1 1)), ConnPoll ex_read, ConnPoll ex_read, ConnPoll ex_read,
     ConnPoll ex_read]"

definition ex_codec :: "(raw_message, raw_message) codec" where
  "ex_codec = \<lparr>enc_msg = id, dec_msg = Some, msg_version = (\<lambda>_. 2), enc_hs = id, dec_hs = Some, hs_version = (\<lambda>_. 2)\<rparr>"

lemma ex_session_message:
  "NotifyBehaviour (OutMessage (new_tag 1 1) [8]) \<in> set (conn_outputs ex_session (init_conn_handler 0 [] 7 [] False ex_controller))"
  by (simp add: ex_session_def ex_read_def init_conn_handler_def init_stateful_last ex_upgraded_def ex_upgraded_out_def conn_eval
      on_negotiated_inbound_def on_negotiated_outbound_def on_open_def push_event_def new_channel_def handshake_for_def send_approve_def)

theorem negotiated_version_ignored_witness:
  "on_connection_handler_event 7 3 (OutMessage (new_tag 1 1) [8]) (ex_connected (EnabledP 2 0)) =
      Inr (call_handler 5 (EvMessage 7 1 [8]) (ex_connected (EnabledP 2 0))) \<and>
   (\<forall>(ops :: (nat, nat, nat, raw_message, raw_message, nat) behaviour_ops) ph.
      handle_event ops ex_codec (EvMessage 7 1 [8]) ph = Inr (call_network (BanPeerReq 7) ph))"
proof -
  have "nc_supported ex_controller 1 = Some (StatefulConfig [(2, ex_spec), (1, ex_spec)], 5)" by simp
  from negotiated_version_ignored [OF this _ ex_session_message, of "ex_connected (EnabledP 2 0)" "[3]"
      "[1 \<mapsto> (EnabledP 2 0, 5)]" "EnabledP 2 0" ex_codec "[8]" 3] show ?thesis
    by (simp add: ex_codec_def)
qed

end
