(* ===== verification/Discovery.thy ===== *)
theory Discovery
  imports Behaviour Peer_Manager
begin

text \<open>
  Discovery of peers (\<open>spectrum-network/src/protocol_handler/discovery.rs\<close> and
  \<open>discovery/message.rs\<close>), on top of the protocol handler and the peer manager: the behaviour, its
  contract as an instance of the locale of behaviours, and what a peer that asks for peers is sent.
  A task waits for the answer of the peer manager on a channel, which is a number; the answers that have
  arrived are the argument of a poll. The mailbox of the peer manager is the list of requests put into it.
\<close>

section \<open>Messages\<close>

datatype discovery_handshake = DiscoveryHandshakeV1 "protocol_id list" nat

datatype ('pid, 'addr) discovery_message = GetPeersMsg | PeersMsg "('pid, 'addr) peer_destination list"

definition discovery_v1 :: protocol_ver where
  "discovery_v1 = 1"

fun discovery_handshake_version :: "discovery_handshake \<Rightarrow> protocol_ver" where
  "discovery_handshake_version (DiscoveryHandshakeV1 ps height) = discovery_v1"

definition discovery_message_version :: "('pid, 'addr) discovery_message \<Rightarrow> protocol_ver" where
  "discovery_message_version m = discovery_v1"

section \<open>The behaviour\<close>

definition MAX_SHARED_PEERS :: nat where
  "MAX_SHARED_PEERS = 128"

record node_status =
  ns_supported_protocols :: "protocol_id list"
  ns_height :: nat

type_synonym ('pid, 'addr) discovery_out =
  "('pid, 'addr, discovery_handshake, ('pid, 'addr) discovery_message) behaviour_out"

record ('pid, 'addr) discovery =
  dv_status :: node_status
  dv_outbox :: "('pid, 'addr) discovery_out list"
  dv_tracked :: "'pid \<rightharpoonup> node_status"
  dv_tasks :: "(nat \<times> 'pid) list"
  dv_peers :: "('pid, 'addr, nat) peer_manager_in list"
  dv_next :: nat

definition new_discovery :: "node_status \<Rightarrow> ('pid, 'addr) discovery" where
  "new_discovery status =
     \<lparr>dv_status = status, dv_outbox = [], dv_tracked = Map.empty, dv_tasks = [], dv_peers = [], dv_next = 0\<rparr>"

definition dv_push :: "('pid, 'addr) discovery_out \<Rightarrow> ('pid, 'addr) discovery \<Rightarrow> ('pid, 'addr) discovery" where
  "dv_push out d = d\<lparr>dv_outbox := dv_outbox d @ [out]\<rparr>"

definition dv_make_poly_handshake :: "('pid, 'addr) discovery \<Rightarrow> (protocol_ver \<times> discovery_handshake option) list" where
  "dv_make_poly_handshake d =
     [(discovery_v1,
       Some (DiscoveryHandshakeV1 (ns_supported_protocols (dv_status d)) (ns_height (dv_status d))))]"

definition send_get_peers :: "'pid \<Rightarrow> ('pid, 'addr) discovery \<Rightarrow> ('pid, 'addr) discovery" where
  "send_get_peers p d = dv_push (Send p GetPeersMsg) d"

text \<open>\<open>send_peers\<close>: asks the peer manager and pushes a task that waits for the answer.\<close>

definition send_peers :: "'pid \<Rightarrow> ('pid, 'addr) discovery \<Rightarrow> ('pid, 'addr) discovery" where
  "send_peers p d =
     d\<lparr>dv_peers := dv_peers d @ [Request (GetPeers MAX_SHARED_PEERS (dv_next d))],
       dv_tasks := dv_tasks d @ [(dv_next d, p)], dv_next := Suc (dv_next d)\<rparr>"

definition dv_enable :: "'pid \<Rightarrow> ('pid, 'addr) discovery \<Rightarrow> ('pid, 'addr) discovery" where
  "dv_enable p d = dv_push (NetworkAction (EnablePeer p (dv_make_poly_handshake d))) d"

fun dv_inject_message ::
  "'pid \<Rightarrow> ('pid, 'addr) discovery_message \<Rightarrow> ('pid, 'addr) discovery \<Rightarrow> ('pid, 'addr) discovery" where
  "dv_inject_message p GetPeersMsg d = send_peers p d"
| "dv_inject_message p (PeersMsg ps) d = d\<lparr>dv_peers := dv_peers d @ [Request (AddPeers ps)]\<rparr>"

definition dv_protocol_requested ::
  "'pid \<Rightarrow> discovery_handshake option \<Rightarrow> ('pid, 'addr) discovery \<Rightarrow> ('pid, 'addr) discovery" where
  "dv_protocol_requested p hs d =
     dv_enable p
       (case hs of
          Some (DiscoveryHandshakeV1 ps height) \<Rightarrow>
            d\<lparr>dv_tracked := (dv_tracked d)(p \<mapsto> \<lparr>ns_supported_protocols = ps, ns_height = height\<rparr>)\<rparr>
        | None \<Rightarrow> d)"

definition dv_protocol_disabled :: "'pid \<Rightarrow> ('pid, 'addr) discovery \<Rightarrow> ('pid, 'addr) discovery" where
  "dv_protocol_disabled p d = d\<lparr>dv_tracked := (dv_tracked d)(p := None)\<rparr>"

text \<open>
  The answers that have arrived: \<open>None\<close> while the task waits, \<open>Some None\<close> when its channel was dropped.
  Tasks finish in the order they were pushed, so that one that waits holds up the others.
\<close>

type_synonym ('pid, 'addr) peer_answers = "nat \<Rightarrow> ('pid, 'addr) peer_destination list option option"

fun dv_drain ::
  "('pid, 'addr) peer_answers \<Rightarrow> (nat \<times> 'pid) list \<Rightarrow> (nat \<times> 'pid) list \<times> ('pid, 'addr) discovery_out list" where
  "dv_drain answers [] = ([], [])"
| "dv_drain answers ((n, p) # ts) =
     (case answers n of
        None \<Rightarrow> ((n, p) # ts, [])
      | Some (Some ps) \<Rightarrow>
          let (ts', outs) = dv_drain answers ts
          in (ts', Send p (PeersMsg (filter (\<lambda>dest. dest_peer_id dest \<noteq> p) ps)) # outs)
      | Some None \<Rightarrow> dv_drain answers ts)"

definition dv_poll ::
  "('pid, 'addr) peer_answers \<Rightarrow> ('pid, 'addr) discovery
   \<Rightarrow> ('pid, 'addr) discovery \<times> ('pid, 'addr) discovery_out poll_option" where
  "dv_poll answers d =
     (let (ts, outs) = dv_drain answers (dv_tasks d);
          d = d\<lparr>dv_tasks := ts, dv_outbox := dv_outbox d @ outs\<rparr>
      in case dv_outbox d of
           out # rest \<Rightarrow> (d\<lparr>dv_outbox := rest\<rparr>, PollReady out)
         | [] \<Rightarrow> (d, PollPending))"

definition discovery_ops ::
  "(('pid, 'addr) discovery, 'pid, 'addr, discovery_handshake, ('pid, 'addr) discovery_message,
    ('pid, 'addr) peer_answers) behaviour_ops" where
  "discovery_ops =
     \<lparr>beh_peer_connected = (\<lambda>d p. Inr (dv_enable p d)),
      beh_message = (\<lambda>d p m. Inr (dv_inject_message p m d)),
      beh_requested = (\<lambda>d p hs. Inr (dv_protocol_requested p hs d)),
      beh_requested_locally = (\<lambda>d p. Inr (dv_enable p d)),
      beh_enabled = (\<lambda>d p hs. Inr (send_get_peers p d)),
      beh_disabled = (\<lambda>d p. Inr (dv_protocol_disabled p d)),
      beh_poll = (\<lambda>answers d. Inr (dv_poll answers d))\<rparr>"

section \<open>The contract of behaviours\<close>

text \<open>The behaviour never asks for a ban.\<close>

definition dv_inv :: "('pid, 'addr) discovery \<Rightarrow> bool" where
  "dv_inv d \<longleftrightarrow> (\<forall>p. NetworkAction (BanPeer p) \<notin> set (dv_outbox d))"

lemma dv_drain_bans: "NetworkAction (BanPeer p) \<notin> set (snd (dv_drain answers ts))"
  by (induction answers ts rule: dv_drain.induct) (auto simp: Let_def case_prod_beta split: option.split)

lemma dv_poll_ok:
  assumes "dv_inv d"
  shows "dv_inv (fst (dv_poll answers d)) \<and> snd (dv_poll answers d) \<noteq> PollReady (NetworkAction (BanPeer p))"
proof (cases "dv_outbox d @ snd (dv_drain answers (dv_tasks d))")
  case Nil
  then show ?thesis by (simp add: dv_poll_def Let_def case_prod_beta dv_inv_def)
next
  case (Cons out rest)
  have "NetworkAction (BanPeer q) \<notin> set (dv_outbox d @ snd (dv_drain answers (dv_tasks d)))" for q
    using assms dv_drain_bans by (simp add: dv_inv_def)
  then have "NetworkAction (BanPeer q) \<noteq> out \<and> NetworkAction (BanPeer q) \<notin> set rest" for q
    unfolding Cons by simp
  then show ?thesis using Cons by (auto simp: dv_poll_def Let_def case_prod_beta dv_inv_def)
qed

interpretation discovery_behaviour: protocol_behaviour
  "discovery_ops :: (('pid, 'addr) discovery, 'pid, 'addr, _, _, _) behaviour_ops" dv_inv "\<lambda>_ _. True" "\<lambda>_. True" faulty
  for faulty
proof unfold_locales
  fix d :: "('pid, 'addr) discovery" and answers
  assume "dv_inv d"
  then show "\<exists>d' r. beh_poll discovery_ops answers d = Inr (d', r) \<and> dv_inv d' \<and>
      (\<forall>p. r = PollReady (NetworkAction (BanPeer p)) \<longrightarrow> p \<in> faulty)"
    using dv_poll_ok [of d answers] by (cases "dv_poll answers d") (auto simp: discovery_ops_def)
next
  fix d :: "('pid, 'addr) discovery" and p and m :: "('pid, 'addr) discovery_message"
  assume "dv_inv d"
  then show "\<exists>d'. beh_message discovery_ops d p m = Inr d' \<and> dv_inv d'"
    by (cases m) (auto simp: discovery_ops_def dv_inv_def send_peers_def)
qed (auto simp: discovery_ops_def dv_inv_def dv_enable_def dv_push_def dv_protocol_requested_def send_get_peers_def
    dv_protocol_disabled_def split: option.split discovery_handshake.split)

section \<open>Properties\<close>

lemma get_peers_known:
  "length (get_peers limit r) \<le> limit \<and> (\<forall>dest \<in> set (get_peers limit r). peers r (dest_peer_id dest) \<noteq> None)"
proof
  have "length (List.map_filter f xs) \<le> length xs" for f :: "'a \<times> reputation \<Rightarrow> ('a, 'b) peer_destination option" and xs
    by (simp add: List.map_filter_def)
  from le_trans [OF this] show "length (get_peers limit r) \<le> limit" by (simp add: get_peers_def)
  show "\<forall>dest \<in> set (get_peers limit r). peers r (dest_peer_id dest) \<noteq> None"
    by (auto simp: get_peers_def List.map_filter_def split: option.splits)
qed

text \<open>
  C36. A peer that asks for peers is sent at most 128 of them, all of them known to the peer manager and none
  of them the peer itself: the behaviour asks the peer manager, which answers on the channel of the task,
  and the next poll sends the answer.
\<close>

theorem shared_peers_bounded:
  assumes "dv_tasks d = []" "dv_outbox d = []"
    and "answers (dv_next d) = Some (Some ps)"
    and "responses pm' = responses pm @ [(dv_next d, PeersResponse ps)]"
    and "handle_input order now (last (dv_peers (dv_inject_message p GetPeersMsg d))) pm = Inr pm'"
  shows "\<exists>d' ds. dv_poll answers (dv_inject_message p GetPeersMsg d) = (d', PollReady (Send p (PeersMsg ds))) \<and>
    length ds \<le> 128 \<and> (\<forall>dest \<in> set ds. dest_peer_id dest \<noteq> p \<and> peers (state pm) (dest_peer_id dest) \<noteq> None)"
proof -
  have "ps = get_peers MAX_SHARED_PEERS (state pm)"
    using assms(4,5) by (auto simp: send_peers_def on_get_peers_def)
  moreover have "dv_drain answers (dv_tasks (dv_inject_message p GetPeersMsg d)) =
      ([], [Send p (PeersMsg (filter (\<lambda>dest. dest_peer_id dest \<noteq> p) ps))])"
    using assms(1,3) by (simp add: send_peers_def)
  moreover have "length (filter (\<lambda>dest. dest_peer_id dest \<noteq> p) (get_peers 128 (state pm))) \<le> 128"
    using get_peers_known [of 128 "state pm"] length_filter_le le_trans by blast
  ultimately show ?thesis
    using assms(2) get_peers_known [of 128 "state pm"]
    by (auto simp: dv_poll_def Let_def send_peers_def MAX_SHARED_PEERS_def)
qed

definition ex_known :: "(nat, nat, nat) peer_manager" where
  "ex_known = new_manager
     ((new_repo \<lparr>min_known_peers = 1, min_outbound = 1, max_inbound = 9, max_outbound = 9\<rparr> [])
        \<lparr>peers := [7 \<mapsto> new_peer_info None False False, 8 \<mapsto> new_peer_info (Some 3) False False],
         sorted_peers := [(8, 0), (7, 0)]\<rparr>)
     \<lparr>min_acceptable_reputation = -20, min_reputation = -10, conn_reset_outbound_backoff = 0, conn_alloc_interval = 1,
      prot_alloc_interval = 1, protocols_allocation = [], peer_manager_msg_buffer_size = 1\<rparr>"

theorem shared_peers_bounded_witness:
  "\<exists>d' ds. dv_poll [0 \<mapsto> Some [PeerIdWithAddr 8 (3::nat), PeerId 7]]
      (dv_inject_message 7 GetPeersMsg (new_discovery \<lparr>ns_supported_protocols = [1], ns_height = 0\<rparr>)) =
      (d', PollReady (Send 7 (PeersMsg ds))) \<and> length ds \<le> 128 \<and>
    (\<forall>dest \<in> set ds. dest_peer_id dest \<noteq> 7 \<and> peers (state ex_known) (dest_peer_id dest) \<noteq> None)"
proof -
  let ?d = "new_discovery \<lparr>ns_supported_protocols = [1], ns_height = 0\<rparr> :: (nat, nat) discovery"
  let ?ps = "[PeerIdWithAddr 8 3, PeerId 7] :: (nat, nat) peer_destination list"
  let ?pm = "ex_known\<lparr>responses := [(0, PeersResponse ?ps)]\<rparr>"
  have "dv_tasks ?d = []" "dv_outbox ?d = []" "[0 \<mapsto> Some ?ps] (dv_next ?d) = Some (Some ?ps)"
    "responses ?pm = responses ex_known @ [(dv_next ?d, PeersResponse ?ps)]"
    by (simp_all add: new_discovery_def ex_known_def new_manager_def)
  moreover have "handle_input sorted_list_of_set 0 (last (dv_peers (dv_inject_message 7 GetPeersMsg ?d))) ex_known = Inr ?pm"
    by (simp add: new_discovery_def send_peers_def on_get_peers_def get_peers_def MAX_SHARED_PEERS_def ex_known_def
        new_manager_def new_repo_def new_peer_info_def List.map_filter_def)
  ultimately show ?thesis by (rule shared_peers_bounded)
qed

end
