(* ===== verification/Sigma.thy ===== *)
theory Sigma
  imports Multicast "HOL-Library.Finite_Map"
begin

text \<open>
  Aggregation of Schnorr signatures (\<open>spectrum-sigma/src\<close>): the cryptographic functions
  (\<open>crypto.rs\<close>), the contributions that are aggregated and how they are verified (\<open>lib.rs\<close>), and the
  behaviour that goes through five stages, three rounds of Handel and two of multicasting
  (\<open>sigma_aggregation.rs\<close>). The elliptic curve, its encodings, the hash functions and single Schnorr
  signatures are libraries: they are the record \<open>sigma_group\<close>. Points are written additively.
\<close>

section \<open>Cryptography\<close>

text \<open>
  \<open>sg_even\<close> says which points are verifying keys: those with an even second coordinate. The identity,
  which is \<open>0\<close>, is no public key. \<open>sg_scalar\<close> is \<open>None\<close> for bytes that encode no scalar. \<open>sg_hash\<close> is
  the hash function the code is generic in, \<open>sg_blake\<close> is \<open>blake2b256_hash\<close>.
\<close>

record ('s, 'p, 'sig, 'pid) sigma_group =
  sg_generator :: 'p
  sg_mul :: "'p \<Rightarrow> 's \<Rightarrow> 'p"
  sg_even :: "'p \<Rightarrow> bool"
  sg_point_bytes :: "'p \<Rightarrow> bytes"
  sg_hash :: "bytes \<Rightarrow> bytes"
  sg_scalar :: "bytes \<Rightarrow> 's option"
  sg_blake :: "bytes \<Rightarrow> bytes"
  sg_sign :: "'s \<Rightarrow> bytes \<Rightarrow> 'sig"
  sg_check :: "'p \<Rightarrow> bytes \<Rightarrow> 'sig \<Rightarrow> bool"
  sg_peer_id :: "'p \<Rightarrow> 'pid"

text \<open>The conversion of a point to a public key, unwrapped.\<close>

definition public_key :: "'p::ab_group_add \<Rightarrow> 'p res" where
  "public_key p = (if p = 0 then Inl UnwrapNone else Inr p)"

definition hash_to_scalar :: "('s, 'p, 'sig, 'pid) sigma_group \<Rightarrow> bytes \<Rightarrow> 's res" where
  "hash_to_scalar G bs = unwrap (sg_scalar G (sg_hash G bs))"

definition individual_input :: "('s, 'p, 'sig, 'pid) sigma_group \<Rightarrow> 'p list \<Rightarrow> 'p \<Rightarrow> 's res" where
  "individual_input G committee pki =
     hash_to_scalar G (sg_hash G (concat (map (sg_point_bytes G) committee)) @ sg_point_bytes G pki)"

definition aggregate_pk ::
  "('s, 'p::ab_group_add, 'sig, 'pid) sigma_group \<Rightarrow> 'p list \<Rightarrow> 's list \<Rightarrow> 'p res" where
  "aggregate_pk G committee individual_inputs =
     res_bind (res_mapM (\<lambda>(i, xi). res_bind (index individual_inputs i) (\<lambda>ai. Inr (sg_mul G xi ai)))
       (enumerate 0 committee)) (\<lambda>ps. public_key (sum_list ps))"

definition aggregate_commitment :: "'p::ab_group_add list \<Rightarrow> 'p res" where
  "aggregate_commitment individual_commitments = public_key (sum_list individual_commitments)"

definition aggregate_response :: "'s::comm_ring_1 list \<Rightarrow> 's" where
  "aggregate_response individual_responses = sum_list individual_responses"

definition challenge :: "('s, 'p, 'sig, 'pid) sigma_group \<Rightarrow> 'p \<Rightarrow> 'p \<Rightarrow> bytes \<Rightarrow> 's res" where
  "challenge G aggr_pk aggr_commitment md =
     hash_to_scalar G (sg_point_bytes G aggr_pk @ sg_point_bytes G aggr_commitment @ md)"

definition schnorr_commitment :: "('s, 'p::ab_group_add, 'sig, 'pid) sigma_group \<Rightarrow> 's \<Rightarrow> 'p option" where
  "schnorr_commitment G sk =
     (let point = sg_mul G (sg_generator G) sk in if point = 0 \<or> \<not> sg_even G point then None else Some point)"

text \<open>The loop draws secrets until one has a commitment; \<open>None\<close> when it has not ended with the draws given.\<close>

fun schnorr_commitment_pair ::
  "('s, 'p::ab_group_add, 'sig, 'pid) sigma_group \<Rightarrow> 's list \<Rightarrow> ('s \<times> 'p) option" where
  "schnorr_commitment_pair G [] = None"
| "schnorr_commitment_pair G (sk # draws) =
     (case schnorr_commitment G sk of Some c \<Rightarrow> Some (sk, c) | None \<Rightarrow> schnorr_commitment_pair G draws)"

definition exclusion_proof :: "('s, 'p, 'sig, 'pid) sigma_group \<Rightarrow> 's \<Rightarrow> bytes \<Rightarrow> 'sig" where
  "exclusion_proof G sk md = sg_sign G sk md"

definition pre_commitment :: "('s, 'p, 'sig, 'pid) sigma_group \<Rightarrow> 'p \<Rightarrow> bytes" where
  "pre_commitment G pk = sg_blake G (sg_point_bytes G pk)"

definition response :: "'s::comm_ring_1 \<Rightarrow> 's \<Rightarrow> 's \<Rightarrow> 's \<Rightarrow> 's" where
  "response yi xi c ai = yi + c * ai * xi"

definition verify_response ::
  "('s, 'p::ab_group_add, 'sig, 'pid) sigma_group \<Rightarrow> 's \<Rightarrow> 's \<Rightarrow> 's \<Rightarrow> 'p \<Rightarrow> 'p \<Rightarrow> bool" where
  "verify_response G z a c y x \<longleftrightarrow> sg_mul G (sg_generator G) z = y + sg_mul G (sg_mul G x a) c"

type_synonym ('p, 'sig) exclusion_set = "(nat \<times> ('p \<times> 'sig) option) list"

definition partial_pk ::
  "('s, 'p::ab_group_add, 'sig, 'pid) sigma_group \<Rightarrow> 'p list \<Rightarrow> 's list \<Rightarrow> ('p, 'sig) exclusion_set \<Rightarrow> 'p" where
  "partial_pk G committee individual_inputs exclusion_set =
     sum_list (map (\<lambda>(i, x). sg_mul G x (individual_inputs ! i))
       (filter (\<lambda>(i, x). find (\<lambda>(ex_i, _). ex_i = i) exclusion_set = None) (enumerate 0 committee)))"

definition sigma_verify ::
  "('s::comm_ring_1, 'p::ab_group_add, 'sig, 'pid) sigma_group \<Rightarrow> 'p \<Rightarrow> 's \<Rightarrow> ('p, 'sig) exclusion_set
   \<Rightarrow> 'p list \<Rightarrow> bytes \<Rightarrow> threshold \<Rightarrow> bool res" where
  "sigma_verify G aggr_commitment aggr_response exclusion_set committee md threshold =
     res_bind (res_mapM (individual_input G committee) committee) (\<lambda>individual_inputs.
     res_bind (aggregate_pk G committee individual_inputs) (\<lambda>aggregate_x.
     let partial_x = partial_pk G committee individual_inputs exclusion_set;
         excluded_y = sum_list (map (\<lambda>(y, _). y) (List.map_filter snd exclusion_set))
     in res_bind (challenge G aggregate_x aggr_commitment md) (\<lambda>c.
        if sg_mul G (sg_generator G) aggr_response \<noteq> sg_mul G partial_x c + aggr_commitment - excluded_y
        then Inr False
        else if list_ex (\<lambda>(_, maybe_pair). case maybe_pair of Some (yi, prf) \<Rightarrow> \<not> sg_check G yi md prf | None \<Rightarrow> False)
                  exclusion_set
        then Inr False
        else res_bind (checked_sub (length committee) (length exclusion_set)) (\<lambda>num_succeeded.
             res_bind (threshold_min threshold (length committee)) (\<lambda>thr. Inr (thr \<le> num_succeeded))))))"

section \<open>Contributions\<close>

text \<open>
  A contribution is a finite map. Where the code iterates over its hash map the order is an argument,
  \<open>order\<close>, which enumerates a set of keys.
\<close>

type_synonym 'c contributions = "(peer_ix, 'c) fmap"

type_synonym key_order = "peer_ix set \<Rightarrow> peer_ix list"

definition contrib_unit :: "peer_ix \<Rightarrow> 'c \<Rightarrow> 'c contributions" where
  "contrib_unit pix c = fmupd pix c fmempty"

definition entries :: "key_order \<Rightarrow> 'c contributions \<Rightarrow> (peer_ix \<times> 'c) list" where
  "entries order m = map (\<lambda>k. (k, the (fmlookup m k))) (order (fmdom' m))"

definition contrib_values :: "key_order \<Rightarrow> 'c contributions \<Rightarrow> 'c list" where
  "contrib_values order m = map snd (entries order m)"

fun combine_loop :: "'c contributions \<Rightarrow> (peer_ix \<times> 'c) list \<Rightarrow> 'c contributions option" where
  "combine_loop bf [] = Some bf"
| "combine_loop bf ((k, v) # es) =
     (case fmlookup bf k of
        Some v0 \<Rightarrow> if v \<noteq> v0 then None else combine_loop bf es
      | None \<Rightarrow> combine_loop (fmupd k v bf) es)"

definition contrib_try_combine ::
  "key_order \<Rightarrow> 'c contributions \<Rightarrow> 'c contributions \<Rightarrow> 'c contributions option" where
  "contrib_try_combine order this that = combine_loop this (entries order that)"

definition contrib_weight :: "'c contributions \<Rightarrow> nat" where
  "contrib_weight m = card (fmdom' m)"

record commitments_verif_input =
  cv_pre_commitments :: "bytes contributions"
  cv_message_digest :: bytes

definition verify_commitments ::
  "('s, 'p, 'sig, 'pid) sigma_group \<Rightarrow> key_order \<Rightarrow> commitments_verif_input \<Rightarrow> ('p \<times> 'sig) contributions \<Rightarrow> bool" where
  "verify_commitments G order public_data m =
     list_all (\<lambda>(i, commitment, sig).
       case fmlookup (cv_pre_commitments public_data) i of
         Some pre \<Rightarrow> pre = sg_blake G (sg_point_bytes G commitment) \<and>
                     sg_check G commitment (cv_message_digest public_data) sig
       | None \<Rightarrow> False) (entries order m)"

record ('s, 'p) response_verif_input =
  rv_commitment :: 'p
  rv_pk :: 'p
  rv_individual_input :: 's

record ('s, 'p) responses_verif_input =
  rv_inputs :: "peer_ix \<rightharpoonup> ('s, 'p) response_verif_input"
  rv_challenge :: 's

definition new_responses_input ::
  "('p \<times> 'sig) contributions \<Rightarrow> (peer_ix \<rightharpoonup> 'p) \<Rightarrow> (peer_ix \<rightharpoonup> 's) \<Rightarrow> 's \<Rightarrow> ('s, 'p) responses_verif_input" where
  "new_responses_input commitments committee individual_inputs c =
     \<lparr>rv_inputs = (\<lambda>pix.
        case (fmlookup commitments pix, committee pix, individual_inputs pix) of
          (Some (yi, _), Some xi, Some ii) \<Rightarrow>
            Some \<lparr>rv_commitment = yi, rv_pk = xi, rv_individual_input = ii\<rparr>
        | _ \<Rightarrow> None),
      rv_challenge = c\<rparr>"

definition verify_responses ::
  "('s, 'p::ab_group_add, 'sig, 'pid) sigma_group \<Rightarrow> key_order \<Rightarrow> ('s, 'p) responses_verif_input
   \<Rightarrow> 's contributions \<Rightarrow> bool" where
  "verify_responses G order public_data m =
     list_all (\<lambda>(k, zi).
       case rv_inputs public_data k of
         Some inp \<Rightarrow> verify_response G zi (rv_individual_input inp) (rv_challenge public_data)
           (rv_commitment inp) (rv_pk inp)
       | None \<Rightarrow> False) (entries order m)"

text \<open>What Handel and multicasting call on contributions, for each stage.\<close>

definition contributions_ops :: "key_order \<Rightarrow> ('c contributions \<Rightarrow> bool) \<Rightarrow> 'c contributions contrib_ops" where
  "contributions_ops order ver =
     \<lparr>try_combine = contrib_try_combine order, weight = contrib_weight, verify = ver\<rparr>"

section \<open>Messages and the stash\<close>

datatype ('s, 'p, 'sig) sigma_message =
    PreCommitmentsMsg "bytes contributions handel_message"
  | CommitmentsMsg "('p \<times> 'sig) contributions handel_message"
  | BroadcastPreCommitmentsMsg "bytes contributions"
  | BroadcastCommitmentsMsg "('p \<times> 'sig) contributions"
  | ResponsesMsg "'s contributions handel_message"

datatype stage_tag = PreCommitTag | CommitTag | BroadcastPreCommitmentsTag | BroadcastCommitmentsTag | ResponseTag

fun tag_of :: "('s, 'p, 'sig) sigma_message \<Rightarrow> stage_tag" where
  "tag_of (PreCommitmentsMsg _) = PreCommitTag"
| "tag_of (CommitmentsMsg _) = CommitTag"
| "tag_of (BroadcastPreCommitmentsMsg _) = BroadcastPreCommitmentsTag"
| "tag_of (BroadcastCommitmentsMsg _) = BroadcastCommitmentsTag"
| "tag_of (ResponsesMsg _) = ResponseTag"

type_synonym ('s, 'p, 'sig, 'pid) message_stash = "stage_tag \<Rightarrow> 'pid \<rightharpoonup> ('s, 'p, 'sig) sigma_message"

definition new_stash :: "('s, 'p, 'sig, 'pid) message_stash" where
  "new_stash = (\<lambda>_. Map.empty)"

definition stash_message ::
  "'pid \<Rightarrow> ('s, 'p, 'sig) sigma_message \<Rightarrow> ('s, 'p, 'sig, 'pid) message_stash \<Rightarrow> ('s, 'p, 'sig, 'pid) message_stash" where
  "stash_message pid m st = st(tag_of m := (st (tag_of m))(pid \<mapsto> m))"

definition unstash ::
  "stage_tag \<Rightarrow> ('s, 'p, 'sig, 'pid) message_stash
   \<Rightarrow> ('s, 'p, 'sig, 'pid) message_stash \<times> ('pid \<rightharpoonup> ('s, 'p, 'sig) sigma_message)" where
  "unstash stage st = (st(stage := Map.empty), st stage)"

section \<open>Stages\<close>

text \<open>
  What the runtime gives to one iteration of a poll: the order of hash maps with peer indices and with
  peer ids as keys, whether trace messages are formatted, the timers of Handel, the clock, and the
  secrets the random generator draws.
\<close>

record ('s, 'pid) sigma_env =
  se_order :: key_order
  se_pid_order :: "'pid set \<Rightarrow> 'pid list"
  se_trace :: bool
  se_dissem :: bool
  se_activ :: bool
  se_proc :: bool
  se_now :: nat
  se_draws :: "'s list"

text \<open>The fields that the first four stages have in common.\<close>

record ('s, 'p, 'sig) sigma_host =
  sh_sk :: 's
  sh_ix :: peer_ix
  sh_committee :: "peer_ix \<rightharpoonup> 'p"
  sh_individual_inputs :: "peer_ix \<rightharpoonup> 's"
  sh_message_digest :: bytes
  sh_secret :: 's
  sh_commitment :: 'p
  sh_exclusion_proof :: 'sig

record ('s, 'p, 'sig, 'pid, 'addr) aggregate_pre_commitments =
  apc_host :: "('s, 'p, 'sig) sigma_host"
  apc_mcast_overlay :: "('pid, 'addr) dag_overlay"
  apc_multicasting_conf :: mcast_config
  apc_partitions :: "('pid, 'addr) binomial_peer_partitions"
  apc_handel :: "('pid, 'addr, bytes contributions) handel"

record ('s, 'p, 'sig, 'pid, 'addr) broadcast_pre_commitments =
  bpc_host :: "('s, 'p, 'sig) sigma_host"
  bpc_handel_partitions :: "('pid, 'addr) binomial_peer_partitions"
  bpc_mcast_overlay :: "('pid, 'addr) dag_overlay"
  bpc_multicasting_conf :: mcast_config
  bpc_mcast :: "('pid, 'addr, bytes contributions) dag_multicasting"

record ('s, 'p, 'sig, 'pid, 'addr) aggregate_commitments =
  ac_host :: "('s, 'p, 'sig) sigma_host"
  ac_mcast_overlay :: "('pid, 'addr) dag_overlay"
  ac_multicasting_conf :: mcast_config
  ac_partitions :: "('pid, 'addr) binomial_peer_partitions"
  ac_verif_input :: commitments_verif_input
  ac_handel :: "('pid, 'addr, ('p \<times> 'sig) contributions) handel"

record ('s, 'p, 'sig, 'pid, 'addr) broadcast_commitments =
  bc_host :: "('s, 'p, 'sig) sigma_host"
  bc_handel_partitions :: "('pid, 'addr) binomial_peer_partitions"
  bc_mcast :: "('pid, 'addr, ('p \<times> 'sig) contributions) dag_multicasting"

record ('s, 'p, 'sig, 'pid, 'addr) aggregate_responses =
  ar_message_digest :: bytes
  ar_aggr_commitment :: 'p
  ar_commitments :: "('p \<times> 'sig) contributions"
  ar_host_ix :: peer_ix
  ar_partitions :: "('pid, 'addr) binomial_peer_partitions"
  ar_verif_input :: "('s, 'p) responses_verif_input"
  ar_handel :: "('pid, 'addr, 's contributions) handel"

record ('s, 'p, 'sig) aggregate_certificate =
  cert_message_digest :: bytes
  cert_aggregate_commitment :: 'p
  cert_aggregate_response :: 's
  cert_exclusion_set :: "('p, 'sig) exclusion_set"

text \<open>The values of a map, by increasing index.\<close>

definition by_index :: "(peer_ix \<rightharpoonup> 'a) \<Rightarrow> 'a list" where
  "by_index m = map (\<lambda>k. the (m k)) (sorted_list_of_set (dom m))"

definition index_inputs ::
  "('s, 'p, 'sig, 'pid) sigma_group \<Rightarrow> (peer_ix \<rightharpoonup> 'p) \<Rightarrow> (peer_ix \<rightharpoonup> 's) res" where
  "index_inputs G committee =
     res_bind (res_mapM (\<lambda>pix. res_bind (individual_input G (by_index committee) (the (committee pix))) (\<lambda>ai.
         Inr (pix, ai))) (sorted_list_of_set (dom committee)))
       (\<lambda>ais. Inr (map_of ais))"

text \<open>
  \<open>AggregatePreCommitments::init\<close>. The committee is listed in the order its hash map is iterated; the
  pair of commitment and secret is the result of \<open>schnorr_commitment_pair\<close>.
\<close>

definition init_aggregation ::
  "('s, 'p::ab_group_add, 'sig, 'pid) sigma_group
   \<Rightarrow> ('pid \<Rightarrow> ('pid, 'addr) peer_addr list \<Rightarrow> ('pid, 'addr) binomial_peer_partitions res)
   \<Rightarrow> ('pid option \<Rightarrow> 'pid \<Rightarrow> ('pid, 'addr) peer_addr list \<Rightarrow> ('pid, 'addr) dag_overlay res)
   \<Rightarrow> handel_config \<Rightarrow> mcast_config \<Rightarrow> 's \<Rightarrow> ('p \<times> 'addr option) list \<Rightarrow> bytes \<Rightarrow> 's \<times> 'p
   \<Rightarrow> ('s, 'p, 'sig, 'pid, 'addr) aggregate_pre_commitments res" where
  "init_aggregation G partitioner builder handel_conf multicasting_conf host_sk committee md pair =
     (let host_pid = sg_peer_id G (sg_mul G (sg_generator G) host_sk);
          ps = map (\<lambda>(pk, maddr). (sg_peer_id G pk, maddr)) committee;
          (host_secret, host_commitment) = pair
      in res_bind (builder None host_pid ps) (\<lambda>mcast_overlay.
         res_bind (partitioner host_pid ps) (\<lambda>partitions.
         res_bind (res_mapM (\<lambda>(pk, _). res_bind (unwrap (try_index_peer partitions (sg_peer_id G pk))) (\<lambda>pix.
             Inr (pix, pk))) committee) (\<lambda>indexed.
         let committee_indexed = map_of (rev indexed)
         in res_bind (index_inputs G committee_indexed) (\<lambda>ais.
            res_bind (unwrap (try_index_peer partitions host_pid)) (\<lambda>host_ix.
            res_bind (new_handel handel_conf (contrib_unit host_ix (pre_commitment G host_commitment)) partitions host_ix)
              (\<lambda>h. Inr \<lparr>apc_host = \<lparr>sh_sk = host_sk, sh_ix = host_ix, sh_committee = committee_indexed,
                          sh_individual_inputs = ais, sh_message_digest = md, sh_secret = host_secret,
                          sh_commitment = host_commitment,
                          sh_exclusion_proof = exclusion_proof G host_secret md\<rparr>,
                        apc_mcast_overlay = mcast_overlay, apc_multicasting_conf = multicasting_conf,
                        apc_partitions = partitions, apc_handel = h\<rparr>)))))))"

text \<open>\<open>narrow\<close> gives the partitions of the round.\<close>

definition pre_commitments_complete ::
  "('s, 'pid) sigma_env \<Rightarrow> ('s, 'p, 'sig, 'pid, 'addr) aggregate_pre_commitments \<Rightarrow> bytes contributions
   \<Rightarrow> ('s, 'p, 'sig, 'pid, 'addr) broadcast_pre_commitments res" where
  "pre_commitments_complete e st pre_commitments =
     (let handel_partitions = peer_partitions (apc_handel st)
      in res_bind (new_multicasting (Some pre_commitments) (apc_mcast_overlay st) (apc_multicasting_conf st)
           handel_partitions (se_now e)) (\<lambda>m.
         Inr \<lparr>bpc_host = apc_host st, bpc_handel_partitions = handel_partitions,
              bpc_mcast_overlay = apc_mcast_overlay st, bpc_multicasting_conf = apc_multicasting_conf st,
              bpc_mcast = m\<rparr>))"

definition broadcast_pre_complete ::
  "handel_config \<Rightarrow> ('s, 'p, 'sig, 'pid, 'addr) broadcast_pre_commitments \<Rightarrow> bytes contributions
   \<Rightarrow> ('s, 'p, 'sig, 'pid, 'addr) aggregate_commitments res" where
  "broadcast_pre_complete handel_conf st pre_commitments =
     (let host = bpc_host st;
          verif_input = \<lparr>cv_pre_commitments = pre_commitments, cv_message_digest = sh_message_digest host\<rparr>
      in res_bind (new_handel handel_conf (contrib_unit (sh_ix host) (sh_commitment host, sh_exclusion_proof host))
           (bpc_handel_partitions st) (sh_ix host)) (\<lambda>h.
         Inr \<lparr>ac_host = host, ac_mcast_overlay = bpc_mcast_overlay st,
              ac_multicasting_conf = bpc_multicasting_conf st, ac_partitions = bpc_handel_partitions st,
              ac_verif_input = verif_input, ac_handel = h\<rparr>))"

definition commitments_complete ::
  "('s, 'pid) sigma_env \<Rightarrow> ('s, 'p, 'sig, 'pid, 'addr) aggregate_commitments \<Rightarrow> ('p \<times> 'sig) contributions
   \<Rightarrow> ('s, 'p, 'sig, 'pid, 'addr) broadcast_commitments res" where
  "commitments_complete e st commitments_with_proofs =
     (let handel_partitions = peer_partitions (ac_handel st)
      in res_bind (new_multicasting (Some commitments_with_proofs) (ac_mcast_overlay st) (ac_multicasting_conf st)
           handel_partitions (se_now e)) (\<lambda>m.
         Inr \<lparr>bc_host = ac_host st, bc_handel_partitions = handel_partitions, bc_mcast = m\<rparr>))"

definition broadcast_commitments_complete ::
  "('s::comm_ring_1, 'p::ab_group_add, 'sig, 'pid) sigma_group \<Rightarrow> ('s, 'pid) sigma_env \<Rightarrow> handel_config
   \<Rightarrow> ('s, 'p, 'sig, 'pid, 'addr) broadcast_commitments \<Rightarrow> ('p \<times> 'sig) contributions
   \<Rightarrow> ('s, 'p, 'sig, 'pid, 'addr) aggregate_responses res" where
  "broadcast_commitments_complete G e handel_conf st commitments =
     (let host = bc_host st
      in res_bind (aggregate_pk G (by_index (sh_committee host)) (by_index (sh_individual_inputs host))) (\<lambda>aggr_pk.
         res_bind (aggregate_commitment (map fst (contrib_values (se_order e) commitments))) (\<lambda>aggr_commitment.
         res_bind (challenge G aggr_pk aggr_commitment (sh_message_digest host)) (\<lambda>c.
         res_bind (unwrap (sh_individual_inputs host (sh_ix host))) (\<lambda>ai.
         let host_response = response (sh_secret host) (sh_sk host) c ai;
             verif_inputs = new_responses_input commitments (sh_committee host) (sh_individual_inputs host) c
         in res_bind (new_handel handel_conf (contrib_unit (sh_ix host) host_response) (bc_handel_partitions st)
              (sh_ix host)) (\<lambda>h.
            Inr \<lparr>ar_message_digest = sh_message_digest host, ar_aggr_commitment = aggr_commitment,
                 ar_commitments = commitments, ar_host_ix = sh_ix host, ar_partitions = bc_handel_partitions st,
                 ar_verif_input = verif_inputs, ar_handel = h\<rparr>))))))"

definition responses_complete ::
  "('s::comm_ring_1, 'pid) sigma_env \<Rightarrow> ('s, 'p, 'sig, 'pid, 'addr) aggregate_responses \<Rightarrow> 's contributions
   \<Rightarrow> ('s, 'p, 'sig) aggregate_certificate" where
  "responses_complete e st responses =
     \<lparr>cert_message_digest = ar_message_digest st, cert_aggregate_commitment = ar_aggr_commitment st,
      cert_aggregate_response = aggregate_response (contrib_values (se_order e) responses),
      cert_exclusion_set = map (\<lambda>(pix, yi, sig). (pix, Some (yi, sig)))
        (filter (\<lambda>(pix, _). fmlookup responses pix = None) (entries (se_order e) (ar_commitments st)))\<rparr>"

section \<open>The behaviour\<close>

datatype ('s, 'p, 'sig, 'pid, 'addr) aggregation_state =
    AggregatePreCommitments "('s, 'p, 'sig, 'pid, 'addr) aggregate_pre_commitments"
  | BroadcastPreCommitments "('s, 'p, 'sig, 'pid, 'addr) broadcast_pre_commitments"
  | AggregateCommitments "('s, 'p, 'sig, 'pid, 'addr) aggregate_commitments"
  | BroadcastCommitments "('s, 'p, 'sig, 'pid, 'addr) broadcast_commitments"
  | AggregateResponses "('s, 'p, 'sig, 'pid, 'addr) aggregate_responses"

text \<open>A request: the committee in the order of its hash map, the digest, and the channel for the result.\<close>

datatype ('p, 'addr) aggregation_action = ResetAggregation "('p \<times> 'addr option) list" bytes nat

type_synonym ('s, 'p, 'sig, 'pid, 'addr) sigma_out =
  "('pid, 'addr, unit, ('s, 'p, 'sig) sigma_message) behaviour_out"

text \<open>The results sent to the channels of requests are logged in \<open>sa_results\<close>.\<close>

record ('s, 'p, 'sig, 'pid, 'addr) sigma_aggregation =
  sa_host_sk :: 's
  sa_handel_conf :: handel_config
  sa_multicasting_conf :: mcast_config
  sa_task :: "(('s, 'p, 'sig, 'pid, 'addr) aggregation_state \<times> nat) option"
  sa_stash :: "('s, 'p, 'sig, 'pid) message_stash"
  sa_partitioner :: "'pid \<Rightarrow> ('pid, 'addr) peer_addr list \<Rightarrow> ('pid, 'addr) binomial_peer_partitions res"
  sa_overlay_builder :: "'pid option \<Rightarrow> 'pid \<Rightarrow> ('pid, 'addr) peer_addr list \<Rightarrow> ('pid, 'addr) dag_overlay res"
  sa_inbox :: "('p, 'addr) aggregation_action list"
  sa_outbox :: "('s, 'p, 'sig, 'pid, 'addr) sigma_out list"
  sa_results :: "(nat \<times> ('s, 'p, 'sig) aggregate_certificate) list"

definition pre_commitments_ops :: "('s, 'pid) sigma_env \<Rightarrow> 'c contributions contrib_ops" where
  "pre_commitments_ops e = contributions_ops (se_order e) (\<lambda>_. True)"

definition commitments_ops ::
  "('s, 'p, 'sig, 'pid) sigma_group \<Rightarrow> ('s, 'pid) sigma_env \<Rightarrow> commitments_verif_input
   \<Rightarrow> ('p \<times> 'sig) contributions contrib_ops" where
  "commitments_ops G e inp = contributions_ops (se_order e) (verify_commitments G (se_order e) inp)"

definition responses_ops ::
  "('s, 'p::ab_group_add, 'sig, 'pid) sigma_group \<Rightarrow> ('s, 'pid) sigma_env \<Rightarrow> ('s, 'p) responses_verif_input
   \<Rightarrow> 's contributions contrib_ops" where
  "responses_ops G e inp = contributions_ops (se_order e) (verify_responses G (se_order e) inp)"

text \<open>
  A message of another stage is stashed. The trace message before that unwraps the index of the
  sender, if it is formatted at all.
\<close>

definition stash_early ::
  "('s, 'pid) sigma_env \<Rightarrow> ('pid, 'addr) binomial_peer_partitions \<Rightarrow> 'pid \<Rightarrow> ('s, 'p, 'sig) sigma_message
   \<Rightarrow> ('s, 'p, 'sig, 'pid, 'addr) sigma_aggregation \<Rightarrow> ('s, 'p, 'sig, 'pid, 'addr) sigma_aggregation res" where
  "stash_early e pp peer_id msg s =
     (if se_trace e \<and> try_index_peer pp peer_id = None then Inl UnwrapNone
      else Inr (s\<lparr>sa_stash := stash_message peer_id msg (sa_stash s)\<rparr>))"

definition keep_task ::
  "('s, 'p, 'sig, 'pid, 'addr) aggregation_state \<Rightarrow> nat \<Rightarrow> ('s, 'p, 'sig, 'pid, 'addr) sigma_aggregation
   \<Rightarrow> ('s, 'p, 'sig, 'pid, 'addr) sigma_aggregation" where
  "keep_task st channel s = s\<lparr>sa_task := Some (st, channel)\<rparr>"

fun inject_state ::
  "('s, 'p::ab_group_add, 'sig, 'pid) sigma_group \<Rightarrow> ('s, 'pid) sigma_env \<Rightarrow> 'pid \<Rightarrow> ('s, 'p, 'sig) sigma_message
   \<Rightarrow> ('s, 'p, 'sig, 'pid, 'addr) sigma_aggregation \<Rightarrow> ('s, 'p, 'sig, 'pid, 'addr) aggregation_state \<Rightarrow> nat
   \<Rightarrow> ('s, 'p, 'sig, 'pid, 'addr) sigma_aggregation res" where
  "inject_state G e peer_id msg s (AggregatePreCommitments st) channel =
     (case msg of
        PreCommitmentsMsg m \<Rightarrow>
          res_bind (inject_message (pre_commitments_ops e) (apc_handel st) peer_id m) (\<lambda>h.
            Inr (keep_task (AggregatePreCommitments (st\<lparr>apc_handel := h\<rparr>)) channel s))
      | _ \<Rightarrow> stash_early e (apc_partitions st) peer_id msg s)"
| "inject_state G e peer_id msg s (BroadcastPreCommitments st) channel =
     (case msg of
        BroadcastPreCommitmentsMsg m \<Rightarrow>
          res_bind (mcast_inject_message (pre_commitments_ops e) (bpc_mcast st) peer_id m) (\<lambda>mc.
            Inr (keep_task (BroadcastPreCommitments (st\<lparr>bpc_mcast := mc\<rparr>)) channel s))
      | _ \<Rightarrow> stash_early e (bpc_handel_partitions st) peer_id msg s)"
| "inject_state G e peer_id msg s (AggregateCommitments st) channel =
     (case msg of
        CommitmentsMsg m \<Rightarrow>
          res_bind (inject_message (commitments_ops G e (ac_verif_input st)) (ac_handel st) peer_id m) (\<lambda>h.
            Inr (keep_task (AggregateCommitments (st\<lparr>ac_handel := h\<rparr>)) channel s))
      | _ \<Rightarrow> stash_early e (ac_partitions st) peer_id msg s)"
| "inject_state G e peer_id msg s (BroadcastCommitments st) channel =
     (case msg of
        BroadcastCommitmentsMsg m \<Rightarrow>
          res_bind (mcast_inject_message (pre_commitments_ops e) (bc_mcast st) peer_id m) (\<lambda>mc.
            Inr (keep_task (BroadcastCommitments (st\<lparr>bc_mcast := mc\<rparr>)) channel s))
      | _ \<Rightarrow> stash_early e (bc_handel_partitions st) peer_id msg s)"
| "inject_state G e peer_id msg s (AggregateResponses st) channel =
     (case msg of
        ResponsesMsg m \<Rightarrow>
          res_bind (inject_message (responses_ops G e (ar_verif_input st)) (ar_handel st) peer_id m) (\<lambda>h.
            Inr (keep_task (AggregateResponses (st\<lparr>ar_handel := h\<rparr>)) channel s))
      | _ \<Rightarrow> stash_early e (ar_partitions st) peer_id msg s)"

definition sigma_inject ::
  "('s, 'p::ab_group_add, 'sig, 'pid) sigma_group \<Rightarrow> ('s, 'pid) sigma_env \<Rightarrow> 'pid \<Rightarrow> ('s, 'p, 'sig) sigma_message
   \<Rightarrow> ('s, 'p, 'sig, 'pid, 'addr) sigma_aggregation \<Rightarrow> ('s, 'p, 'sig, 'pid, 'addr) sigma_aggregation res" where
  "sigma_inject G e peer_id msg s =
     (case sa_task s of Some (st, channel) \<Rightarrow> inject_state G e peer_id msg s st channel | None \<Rightarrow> Inr s)"

text \<open>The messages of a stage, taken from the stash and injected again.\<close>

definition unstash_stage ::
  "('s, 'p::ab_group_add, 'sig, 'pid) sigma_group \<Rightarrow> ('s, 'pid) sigma_env \<Rightarrow> stage_tag
   \<Rightarrow> ('s, 'p, 'sig, 'pid, 'addr) sigma_aggregation \<Rightarrow> ('s, 'p, 'sig, 'pid, 'addr) sigma_aggregation res" where
  "unstash_stage G e stage s =
     (let (stash, msgs) = unstash stage (sa_stash s)
      in res_fold (\<lambda>s p. sigma_inject G e p (the (msgs p)) s) (s\<lparr>sa_stash := stash\<rparr>) (se_pid_order e (dom msgs)))"

definition handel_out ::
  "('c handel_message \<Rightarrow> 'm) \<Rightarrow> ('pid, 'addr, 'c) send_one_shot \<Rightarrow> ('pid, 'addr, unit, 'm) behaviour_out" where
  "handel_out f out =
     NetworkAction (SendOneShotMessage (out_peer out) (out_addr_hint out) default_protocol_ver (f (out_message out)))"

definition emit ::
  "('s, 'p, 'sig, 'pid, 'addr) sigma_out \<Rightarrow> ('s, 'p, 'sig, 'pid, 'addr) sigma_aggregation
   \<Rightarrow> ('s, 'p, 'sig, 'pid, 'addr) sigma_aggregation" where
  "emit out s = s\<lparr>sa_outbox := sa_outbox s @ [out]\<rparr>"

text \<open>
  The arm of \<open>poll\<close> for each stage, called with the task taken out of the state. The result says
  whether the loop continues.
\<close>

fun poll_stage ::
  "('s::comm_ring_1, 'p::ab_group_add, 'sig, 'pid) sigma_group \<Rightarrow> ('s, 'pid) sigma_env
   \<Rightarrow> ('s, 'p, 'sig, 'pid, 'addr) sigma_aggregation \<Rightarrow> ('s, 'p, 'sig, 'pid, 'addr) aggregation_state \<Rightarrow> nat
   \<Rightarrow> (('s, 'p, 'sig, 'pid, 'addr) sigma_aggregation \<times> bool) res" where
  "poll_stage G e s (AggregatePreCommitments st) channel =
     res_bind (poll (apc_handel st) (se_dissem e) (se_activ e) (se_proc e)) (\<lambda>(h, r).
       let st = st\<lparr>apc_handel := h\<rparr>
       in case r of
            ReadyLeft cmd \<Rightarrow>
              Inr (keep_task (AggregatePreCommitments st) channel (emit (handel_out PreCommitmentsMsg cmd) s), True)
          | ReadyRight pre_commitments \<Rightarrow>
              res_bind (unstash_stage G e CommitTag s) (\<lambda>s.
              res_bind (pre_commitments_complete e st pre_commitments) (\<lambda>st'.
                Inr (keep_task (BroadcastPreCommitments st') channel s, True)))
          | Pending \<Rightarrow> Inr (keep_task (AggregatePreCommitments st) channel s, False))"
| "poll_stage G e s (BroadcastPreCommitments st) channel =
     res_bind (mcast_poll (bpc_mcast st) (se_now e)) (\<lambda>(mc, r).
       let st = st\<lparr>bpc_mcast := mc\<rparr>
       in case r of
            StageLeft cmd \<Rightarrow>
              Inr (keep_task (BroadcastPreCommitments st) channel
                (emit (bimap_out id BroadcastPreCommitmentsMsg cmd) s), True)
          | StageRight pre_commitments \<Rightarrow>
              res_bind (unstash_stage G e ResponseTag s) (\<lambda>s.
              res_bind (broadcast_pre_complete (sa_handel_conf s) st pre_commitments) (\<lambda>st'.
                Inr (keep_task (AggregateCommitments st') channel s, True)))
          | StagePending \<Rightarrow> Inr (keep_task (BroadcastPreCommitments st) channel s, False))"
| "poll_stage G e s (AggregateCommitments st) channel =
     res_bind (poll (ac_handel st) (se_dissem e) (se_activ e) (se_proc e)) (\<lambda>(h, r).
       let st = st\<lparr>ac_handel := h\<rparr>
       in case r of
            ReadyLeft cmd \<Rightarrow>
              Inr (keep_task (AggregateCommitments st) channel (emit (handel_out CommitmentsMsg cmd) s), True)
          | ReadyRight commitments \<Rightarrow>
              res_bind (unstash_stage G e BroadcastCommitmentsTag s) (\<lambda>s.
              res_bind (commitments_complete e st commitments) (\<lambda>st'.
                Inr (keep_task (BroadcastCommitments st') channel s, True)))
          | Pending \<Rightarrow> Inr (keep_task (AggregateCommitments st) channel s, False))"
| "poll_stage G e s (BroadcastCommitments st) channel =
     res_bind (mcast_poll (bc_mcast st) (se_now e)) (\<lambda>(mc, r).
       let st = st\<lparr>bc_mcast := mc\<rparr>
       in case r of
            StageLeft cmd \<Rightarrow>
              Inr (keep_task (BroadcastCommitments st) channel
                (emit (bimap_out id BroadcastCommitmentsMsg cmd) s), True)
          | StageRight commitments \<Rightarrow>
              res_bind (unstash_stage G e ResponseTag s) (\<lambda>s.
              res_bind (broadcast_commitments_complete G e (sa_handel_conf s) st commitments) (\<lambda>st'.
                Inr (keep_task (AggregateResponses st') channel s, True)))
          | StagePending \<Rightarrow> Inr (keep_task (BroadcastCommitments st) channel s, False))"
| "poll_stage G e s (AggregateResponses st) channel =
     res_bind (poll (ar_handel st) (se_dissem e) (se_activ e) (se_proc e)) (\<lambda>(h, r).
       let st = st\<lparr>ar_handel := h\<rparr>
       in case r of
            ReadyLeft cmd \<Rightarrow>
              Inr (keep_task (AggregateResponses st) channel (emit (handel_out ResponsesMsg cmd) s), True)
          | ReadyRight responses \<Rightarrow>
              Inr (s\<lparr>sa_task := None, sa_stash := new_stash,
                     sa_results := sa_results s @ [(channel, responses_complete e st responses)]\<rparr>, True)
          | Pending \<Rightarrow> Inr (keep_task (AggregateResponses st) channel s, False))"

text \<open>\<open>SigmaLooping\<close>: the loop that draws a secret has not returned.\<close>

datatype 'o sigma_poll_result = SigmaContinue | SigmaReady 'o | SigmaPending | SigmaLooping

definition poll_task ::
  "('s::comm_ring_1, 'p::ab_group_add, 'sig, 'pid) sigma_group \<Rightarrow> ('s, 'pid) sigma_env
   \<Rightarrow> ('s, 'p, 'sig, 'pid, 'addr) sigma_aggregation
   \<Rightarrow> (('s, 'p, 'sig, 'pid, 'addr) sigma_aggregation
        \<times> ('s, 'p, 'sig, 'pid, 'addr) sigma_out sigma_poll_result) res" where
  "poll_task G e s =
     (case sa_task s of
        Some (st, channel) \<Rightarrow>
          res_bind (poll_stage G e (s\<lparr>sa_task := None\<rparr>) st channel) (\<lambda>(s, continue).
            Inr (s, if continue then SigmaContinue else SigmaPending))
      | None \<Rightarrow> Inr (s, SigmaPending))"

text \<open>One iteration of the loop of \<open>poll\<close>.\<close>

definition sigma_iteration ::
  "('s::comm_ring_1, 'p::ab_group_add, 'sig, 'pid) sigma_group \<Rightarrow> ('s, 'pid) sigma_env
   \<Rightarrow> ('s, 'p, 'sig, 'pid, 'addr) sigma_aggregation
   \<Rightarrow> (('s, 'p, 'sig, 'pid, 'addr) sigma_aggregation
        \<times> ('s, 'p, 'sig, 'pid, 'addr) sigma_out sigma_poll_result) res" where
  "sigma_iteration G e s =
     (case sa_outbox s of
        out # rest \<Rightarrow> Inr (s\<lparr>sa_outbox := rest\<rparr>, SigmaReady out)
      | [] \<Rightarrow>
          (case sa_inbox s of
             ResetAggregation new_committee new_message channel # actions \<Rightarrow>
               (case schnorr_commitment_pair G (se_draws e) of
                  None \<Rightarrow> Inr (s, SigmaLooping)
                | Some pair \<Rightarrow>
                    res_bind (init_aggregation G (sa_partitioner s) (sa_overlay_builder s) (sa_handel_conf s)
                        (sa_multicasting_conf s) (sa_host_sk s) new_committee new_message pair) (\<lambda>st.
                      poll_task G e (s\<lparr>sa_inbox := actions, sa_stash := new_stash,
                        sa_task := Some (AggregatePreCommitments st, channel)\<rparr>)))
           | [] \<Rightarrow> poll_task G e s))"

fun stage_rank :: "('s, 'p, 'sig, 'pid, 'addr) aggregation_state \<Rightarrow> nat" where
  "stage_rank (AggregatePreCommitments _) = 5"
| "stage_rank (BroadcastPreCommitments _) = 4"
| "stage_rank (AggregateCommitments _) = 3"
| "stage_rank (BroadcastCommitments _) = 2"
| "stage_rank (AggregateResponses _) = 1"

text \<open>The work a poll can still do without waiting.\<close>

definition sigma_work :: "('s, 'p, 'sig, 'pid, 'addr) sigma_aggregation \<Rightarrow> nat" where
  "sigma_work s = 12 * length (sa_inbox s) + 2 * (case sa_task s of Some (st, _) \<Rightarrow> stage_rank st | None \<Rightarrow> 0) +
     (if sa_outbox s = [] then 1 else 0)"

lemma sigma_inject_idle: "sa_task s = None \<Longrightarrow> sigma_inject G e p m s = Inr s"
  by (simp add: sigma_inject_def)

lemma inject_idle_fold:
  "sa_task s = None \<Longrightarrow> res_fold (\<lambda>s p. sigma_inject G e p (f p) s) s ps = Inr s"
  by (induction ps) (simp_all add: sigma_inject_idle)

text \<open>Stages are completed with the task taken out of the state: what is unstashed is dropped.\<close>

lemma unstash_stage_idle:
  "sa_task s = None \<Longrightarrow> unstash_stage G e stage s = Inr (s\<lparr>sa_stash := (sa_stash s)(stage := Map.empty)\<rparr>)"
  by (simp add: unstash_stage_def unstash_def inject_idle_fold)

text \<open>What the arm of a stage does, in one of four ways: send, move on, complete, or wait.\<close>

lemma poll_stage_cases:
  assumes "poll_stage G e s st channel = Inr (s', b)" "sa_task s = None"
  obtains (Sends) out st' where "b" "s' = keep_task st' channel (emit out s)" "stage_rank st' = stage_rank st"
  | (Moves) tag st' where "b" "s' = keep_task st' channel (s\<lparr>sa_stash := (sa_stash s)(tag := Map.empty)\<rparr>)"
      "Suc (stage_rank st') = stage_rank st"
  | (Completes) ar h c where "b" "st = AggregateResponses ar" "s' = s\<lparr>sa_task := None, sa_stash := new_stash,
      sa_results := sa_results s @ [(channel, responses_complete e (ar\<lparr>ar_handel := h\<rparr>) c)]\<rparr>"
      "poll (ar_handel ar) (se_dissem e) (se_activ e) (se_proc e) = Inr (h, ReadyRight c)"
  | (Waits) st' where "\<not> b" "s' = keep_task st' channel s" "stage_rank st' = stage_rank st"
proof (cases st)
  case (AggregatePreCommitments x)
  then obtain h r where "poll (apc_handel x) (se_dissem e) (se_activ e) (se_proc e) = Inr (h, r)"
    using assms(1) by (auto simp: res_simps)
  then show ?thesis
    using assms AggregatePreCommitments that(1,2,4)
    by (cases r) (auto simp: res_simps unstash_stage_idle)
next
  case (BroadcastPreCommitments x)
  then obtain h r where "mcast_poll (bpc_mcast x) (se_now e) = Inr (h, r)"
    using assms(1) by (auto simp: res_simps)
  then show ?thesis
    using assms BroadcastPreCommitments that(1,2,4)
    by (cases r) (auto simp: res_simps unstash_stage_idle)
next
  case (AggregateCommitments x)
  then obtain h r where "poll (ac_handel x) (se_dissem e) (se_activ e) (se_proc e) = Inr (h, r)"
    using assms(1) by (auto simp: res_simps)
  then show ?thesis
    using assms AggregateCommitments that(1,2,4)
    by (cases r) (auto simp: res_simps unstash_stage_idle)
next
  case (BroadcastCommitments x)
  then obtain h r where "mcast_poll (bc_mcast x) (se_now e) = Inr (h, r)"
    using assms(1) by (auto simp: res_simps)
  then show ?thesis
    using assms BroadcastCommitments that(1,2,4)
    by (cases r) (auto simp: res_simps unstash_stage_idle)
next
  case (AggregateResponses x)
  then obtain h r where "poll (ar_handel x) (se_dissem e) (se_activ e) (se_proc e) = Inr (h, r)"
    using assms(1) by (auto simp: res_simps)
  then show ?thesis
    using assms AggregateResponses that(1,3,4)
    by (cases r) (auto simp: res_simps unstash_stage_idle)
qed

lemma poll_task_work:
  assumes "poll_task G e s = Inr (s', SigmaContinue)" "sa_outbox s = []"
  shows "sigma_work s' < sigma_work s"
proof -
  obtain st channel where t: "sa_task s = Some (st, channel)" 
    and p: "poll_stage G e (s\<lparr>sa_task := None\<rparr>) st channel = Inr (s', True)"
    using assms(1) by (auto simp: poll_task_def res_simps split: option.splits if_splits)
  from p show ?thesis
    by (cases rule: poll_stage_cases) (auto simp: sigma_work_def keep_task_def emit_def t assms(2))
qed

lemma sigma_iteration_work:
  assumes "sigma_iteration G e s = Inr (s', SigmaContinue)"
  shows "sigma_work s' < sigma_work s"
proof -
  have ob: "sa_outbox s = []" using assms by (auto simp: sigma_iteration_def split: list.splits)
  show ?thesis
  proof (cases "sa_inbox s")
    case Nil
    then show ?thesis using assms ob poll_task_work [of G e s s'] by (simp add: sigma_iteration_def)
  next
    case (Cons a actions)
    then obtain s1 where "poll_task G e s1 = Inr (s', SigmaContinue)" "sa_outbox s1 = []" "sigma_work s1 < sigma_work s"
      using assms ob
      by (cases a) (force simp: sigma_iteration_def res_simps sigma_work_def split: option.splits)
    then show ?thesis using poll_task_work [of G e s1 s'] by simp
  qed
qed

text \<open>The loop. Iteration \<open>i\<close> gets \<open>env i\<close> from the runtime.\<close>

function sigma_poll ::
  "('s::comm_ring_1, 'p::ab_group_add, 'sig, 'pid) sigma_group \<Rightarrow> (nat \<Rightarrow> ('s, 'pid) sigma_env) \<Rightarrow> nat
   \<Rightarrow> ('s, 'p, 'sig, 'pid, 'addr) sigma_aggregation
   \<Rightarrow> (('s, 'p, 'sig, 'pid, 'addr) sigma_aggregation
        \<times> ('s, 'p, 'sig, 'pid, 'addr) sigma_out sigma_poll_result) res" where
  "sigma_poll G env i s =
     (case sigma_iteration G (env i) s of
        Inr (s', SigmaContinue) \<Rightarrow> sigma_poll G env (Suc i) s'
      | r \<Rightarrow> r)"
  by pat_completeness auto
termination
  by (relation "measure (\<lambda>(G, env, i, s). sigma_work s)") (auto dest: sigma_iteration_work)

declare sigma_poll.simps [simp del]

end
