(* ===== verification/Sigma_Correct.thy ===== *)
theory Sigma_Correct
  imports Sigma Handel_Safety "HOL-Library.Sublist"
begin

text \<open>
  Signature aggregation: contributions combine as a semigroup, when the certificate a round of
  responses ends with verifies and when it cannot, that messages stashed for a later stage are lost,
  and that certificates answer the requests. The order in which hash maps are iterated may be any
  enumeration; the laws of the group are the hypothesis \<open>scalar_laws\<close>.
\<close>

lemma case_option_ex: "(case x of None \<Rightarrow> False | Some i \<Rightarrow> P i) \<longleftrightarrow> (\<exists>i. x = Some i \<and> P i)"
  by (cases x) auto

lemma res_mapM_map: "res_mapM f (map g xs) = res_mapM (\<lambda>x. f (g x)) xs"
  by (induction xs) simp_all

section \<open>Contributions\<close>

text \<open>The orders in which hash maps are iterated list every key once.\<close>

definition enumerates :: "key_order \<Rightarrow> bool" where
  "enumerates order \<longleftrightarrow> (\<forall>A. finite A \<longrightarrow> distinct (order A) \<and> set (order A) = A)"

lemma set_entries: "enumerates order \<Longrightarrow> set (entries order m) = {(k, v). fmlookup m k = Some v}"
  by (force simp: entries_def enumerates_def fmlookup_dom'_iff)

lemma distinct_entries: "enumerates order \<Longrightarrow> distinct (map fst (entries order m))"
  by (simp add: entries_def enumerates_def comp_def)

lemma combine_loop_eq:
  assumes "distinct (map fst es)"
  shows "combine_loop bf es =
    (if \<forall>(k, v) \<in> set es. fmlookup bf k \<in> {None, Some v} then Some (bf ++\<^sub>f fmap_of_list es) else None)"
  using assms
proof (induction es arbitrary: bf)
  case (Cons kv es)
  obtain k v where [simp]: "kv = (k, v)" by fastforce
  have neq: "k \<noteq> k'" if "(k', v') \<in> set es" for k' v' using Cons.prems that by force
  have kn: "map_of es k = None" using Cons.prems by (simp add: map_of_eq_None_iff)
  have look: "fmlookup (m ++\<^sub>f fmap_of_list es) j = (case map_of es j of None \<Rightarrow> fmlookup m j | Some w \<Rightarrow> Some w)" for m j
    unfolding fmlookup_add fmlookup_dom_iff fmlookup_of_list by (auto split: option.split)
  have look1: "fmlookup (m ++\<^sub>f fmap_of_list ((k, v) # es)) j =
      (case map_of es j of None \<Rightarrow> if j = k then Some v else fmlookup m j | Some w \<Rightarrow> if j = k then Some v else Some w)" for m j
    unfolding fmlookup_add fmlookup_dom_iff fmlookup_of_list by (auto split: option.split)
  show ?case
  proof (cases "fmlookup bf k")
    case None
    have "(\<forall>(k', v') \<in> set es. fmlookup (fmupd k v bf) k' \<in> {None, Some v'}) \<longleftrightarrow>
        (\<forall>(k', v') \<in> set es. fmlookup bf k' \<in> {None, Some v'})"
      using neq by (intro ball_cong refl) (auto split: if_splits)
    moreover have "fmupd k v bf ++\<^sub>f fmap_of_list es = bf ++\<^sub>f fmap_of_list ((k, v) # es)"
      by (intro fmap_ext, unfold look look1) (auto simp: kn split: option.split)
    ultimately show ?thesis using Cons None by simp
  next
    case (Some v0)
    have "bf ++\<^sub>f fmap_of_list es = bf ++\<^sub>f fmap_of_list ((k, v) # es)" if "v0 = v"
      using Some that by (intro fmap_ext, unfold look look1) (auto simp: kn split: option.split)
    then show ?thesis using Cons Some by auto
  qed
qed simp

lemma fmap_of_entries: "enumerates order \<Longrightarrow> fmap_of_list (entries order m) = m"
proof (rule fmap_ext)
  fix k
  assume o: "enumerates order"
  show "fmlookup (fmap_of_list (entries order m)) k = fmlookup m k"
  proof (cases "fmlookup m k")
    case None
    then show ?thesis using set_entries [OF o, of m] by (force simp: fmlookup_of_list map_of_eq_None_iff)
  next
    case (Some v)
    then show ?thesis using set_entries [OF o, of m] distinct_entries [OF o, of m] by (simp add: fmlookup_of_list)
  qed
qed

text \<open>Contributions combine exactly when they agree, into their union, in whatever order they are iterated.\<close>

fun opt_agree :: "'c option \<Rightarrow> 'c option \<Rightarrow> bool" where
  "opt_agree (Some v) (Some w) \<longleftrightarrow> v = w"
| "opt_agree _ _ \<longleftrightarrow> True"

definition agree :: "'c contributions \<Rightarrow> 'c contributions \<Rightarrow> bool" where
  "agree m n \<longleftrightarrow> (\<forall>k. opt_agree (fmlookup m k) (fmlookup n k))"

lemma contrib_try_combine_eq:
  assumes "enumerates order"
  shows "contrib_try_combine order m n = (if agree m n then Some (m ++\<^sub>f n) else None)"
proof -
  have one: "opt_agree x y \<longleftrightarrow> (\<forall>v. y = Some v \<longrightarrow> x \<in> {None, Some v})" for x y :: "'a option"
    by (cases x; cases y) auto
  have "(\<forall>(k, v) \<in> set (entries order n). fmlookup m k \<in> {None, Some v}) \<longleftrightarrow> agree m n"
    unfolding set_entries [OF assms] agree_def one by auto
  then show ?thesis
    by (simp only: contrib_try_combine_def combine_loop_eq [OF distinct_entries [OF assms]] fmap_of_entries [OF assms])
qed

lemma fmlookup_union: "fmlookup (m ++\<^sub>f n) j = (case fmlookup n j of Some v \<Rightarrow> Some v | None \<Rightarrow> fmlookup m j)"
  unfolding fmlookup_add fmlookup_dom_iff by (auto split: option.split)

lemma opt_agree_laws:
  "opt_agree x y = opt_agree y x" "opt_agree x x"
  "opt_agree x y \<Longrightarrow> (case y of Some v \<Rightarrow> Some v | None \<Rightarrow> x) = (case x of Some v \<Rightarrow> Some v | None \<Rightarrow> y)"
  "opt_agree x y \<Longrightarrow> opt_agree (case y of Some v \<Rightarrow> Some v | None \<Rightarrow> x) z \<longleftrightarrow> opt_agree x z \<and> opt_agree y z"
  by (cases x; cases y; cases z; auto)+

lemma agree_laws:
  "agree m n = agree n m" "agree m m" "agree m n \<Longrightarrow> m ++\<^sub>f n = n ++\<^sub>f m"
  "agree m n \<Longrightarrow> agree (m ++\<^sub>f n) k \<longleftrightarrow> agree m k \<and> agree n k"
proof -
  show "agree m n = agree n m" unfolding agree_def using opt_agree_laws(1) by metis
  show "agree m m" by (simp add: agree_def opt_agree_laws(2))
  show "m ++\<^sub>f n = n ++\<^sub>f m" if "agree m n"
  proof (rule fmap_ext)
    show "fmlookup (m ++\<^sub>f n) j = fmlookup (n ++\<^sub>f m) j" for j
      using that opt_agree_laws(3) [of "fmlookup m j" "fmlookup n j"] unfolding fmlookup_union agree_def by blast
  qed
  show "agree (m ++\<^sub>f n) k \<longleftrightarrow> agree m k \<and> agree n k" if "agree m n"
    using that unfolding agree_def fmlookup_union by (auto simp: opt_agree_laws(4))
qed

lemma verify_responses_iff:
  assumes "enumerates order"
  shows "verify_responses G order inp m \<longleftrightarrow>
    (\<forall>k z. fmlookup m k = Some z \<longrightarrow> (\<exists>i. rv_inputs inp k = Some i \<and>
       verify_response G z (rv_individual_input i) (rv_challenge inp) (rv_commitment i) (rv_pk i)))"
  by (auto simp: verify_responses_def list_all_iff set_entries [OF assms] case_option_ex)

lemma verify_commitments_iff:
  assumes "enumerates order"
  shows "verify_commitments G order inp m \<longleftrightarrow>
    (\<forall>k y sig. fmlookup m k = Some (y, sig) \<longrightarrow> fmlookup (cv_pre_commitments inp) k = Some (pre_commitment G y) \<and>
       sg_check G y (cv_message_digest inp) sig)"
  by (auto simp: verify_commitments_def list_all_iff set_entries [OF assms] pre_commitment_def case_option_ex)

lemma contributions_ops_simps [simp]:
  "try_combine (contributions_ops order ver) = contrib_try_combine order"
  "weight (contributions_ops order ver) = contrib_weight"
  "verify (contributions_ops order ver) = ver"
  by (simp_all add: contributions_ops_def)

text \<open>A verification that looks at the entries one by one accepts a combination of what it accepts.\<close>

lemma pointwise_combine_sound:
  assumes "enumerates order" "\<And>m. ver m \<longleftrightarrow> (\<forall>k v. fmlookup m k = Some v \<longrightarrow> P k v)"
  shows "combine_sound (contributions_ops order ver)"
  unfolding combine_sound_def contributions_ops_simps contrib_try_combine_eq [OF assms(1)] assms(2)
  by (auto simp: fmlookup_union simp del: fmlookup_add split: if_splits option.splits)

lemma responses_combine_sound: "enumerates (se_order e) \<Longrightarrow> combine_sound (responses_ops G e inp)"
  unfolding responses_ops_def by (rule pointwise_combine_sound [OF _ verify_responses_iff])

lemma commitments_combine_sound:
  assumes "enumerates (se_order e)"
  shows "combine_sound (commitments_ops G e inp)"
  unfolding commitments_ops_def
  by (rule pointwise_combine_sound [OF assms, where P = "\<lambda>k (y, sig).
      fmlookup (cv_pre_commitments inp) k = Some (pre_commitment G y) \<and> sg_check G y (cv_message_digest inp) sig"])
    (auto simp: verify_commitments_iff [OF assms])

lemma sum_entries:
  assumes "enumerates order"
  shows "sum_list (map f (filter P (entries order m))) =
    (\<Sum>k \<in> {k \<in> fmdom' m. P (k, the (fmlookup m k))}. f (k, the (fmlookup m k)))"
proof -
  have "distinct (order (fmdom' m))" "set (order (fmdom' m)) = fmdom' m"
    using assms by (simp_all add: enumerates_def)
  then show ?thesis
    by (simp add: entries_def filter_map comp_def sum_list_distinct_conv_sum_set)
qed

lemma sum_enumerate:
  "sum_list (map f (filter P (enumerate 0 xs))) = (\<Sum>i \<in> {i. i < length xs \<and> P (i, xs ! i)}. f (i, xs ! i))"
proof -
  have "enumerate 0 xs = map (\<lambda>i. (i, xs ! i)) [0..<length xs]"
    by (rule nth_equalityI) (simp_all add: nth_enumerate_eq)
  then show ?thesis
    by (simp add: filter_map comp_def sum_list_distinct_conv_sum_set conj_commute)
qed

section \<open>Certificates\<close>

text \<open>Multiplication of points by scalars distributes over both sums and composes.\<close>

definition scalar_laws :: "('s::comm_ring_1, 'p::ab_group_add, 'sig, 'pid) sigma_group \<Rightarrow> bool" where
  "scalar_laws G \<longleftrightarrow>
     (\<forall>p q a. sg_mul G (p + q) a = sg_mul G p a + sg_mul G q a) \<and>
     (\<forall>p a b. sg_mul G p (a + b) = sg_mul G p a + sg_mul G p b) \<and>
     (\<forall>p a b. sg_mul G (sg_mul G p a) b = sg_mul G p (a * b))"

lemma sg_mul_zero:
  assumes "scalar_laws G"
  shows "sg_mul G 0 a = 0" "sg_mul G p 0 = 0"
proof -
  have "sg_mul G 0 a = sg_mul G 0 a + sg_mul G 0 a" "sg_mul G p 0 = sg_mul G p 0 + sg_mul G p 0"
    using assms unfolding scalar_laws_def by (metis add_0)+
  then show "sg_mul G 0 a = 0" "sg_mul G p 0 = 0" by simp_all
qed

lemma sg_mul_sum:
  assumes "scalar_laws G"
  shows "sg_mul G (sum f A) c = (\<Sum>i \<in> A. sg_mul G (f i) c)" "sg_mul G p (sum h A) = (\<Sum>i \<in> A. sg_mul G p (h i))"
proof (induction A rule: infinite_finite_induct)
  case (insert x A)
  case 1
  show ?case using insert assms by (simp add: scalar_laws_def)
  case 2
  show ?case using insert assms by (simp add: scalar_laws_def)
qed (simp_all add: sg_mul_zero [OF assms])

lemma honest_response_verifies:
  assumes "scalar_laws G"
  shows "verify_response G (response y x c a) a c (sg_mul G (sg_generator G) y) (sg_mul G (sg_generator G) x)"
  using assms by (simp add: verify_response_def response_def scalar_laws_def ac_simps)

lemma by_index_lessThan:
  assumes "dom m = {..<n}"
  shows "length (by_index m) = n" "i < n \<Longrightarrow> by_index m ! i = the (m i)"
proof -
  have "sorted_list_of_set {..<n} = [0..<n]" by (simp add: lessThan_atLeast0)
  then show "length (by_index m) = n" "i < n \<Longrightarrow> by_index m ! i = the (m i)"
    by (simp_all add: by_index_def assms)
qed

text \<open>The individual inputs are computed from the committee, as the verifier computes them.\<close>

lemma index_inputs_keys:
  assumes "dom committee = {..<n}" "index_inputs G committee = Inr inputs"
  shows "dom inputs = {..<n}"
    "res_mapM (individual_input G (by_index committee)) (by_index committee) = Inr (by_index inputs)"
proof -
  let ?f = "\<lambda>pix. individual_input G (by_index committee) (the (committee pix))"
  let ?g = "\<lambda>pix. res_bind (?f pix) (\<lambda>ai. Inr (pix, ai))"
  have s: "sorted_list_of_set (dom committee) = [0..<n]" using assms(1) by (simp add: lessThan_atLeast0)
  obtain ais where ais: "res_mapM ?g [0..<n] = Inr ais" "inputs = map_of ais"
    using assms(2) by (auto simp: index_inputs_def s res_simps)
  have gen: "map fst ps = xs \<and> res_mapM ?f xs = Inr (map snd ps)" if "res_mapM ?g xs = Inr ps" for xs ps
    using that by (induction xs arbitrary: ps) (auto simp: res_simps)
  have fst: "map fst ais = [0..<n]" and snd: "res_mapM ?f [0..<n] = Inr (map snd ais)"
    using gen [OF ais(1)] by simp_all
  have "set (map fst ais) = {..<n}" by (simp only: fst) auto
  then show dom: "dom inputs = {..<n}" by (simp add: ais(2) dom_map_of_conv_image_fst)
  have "by_index inputs = map snd ais"
  proof (rule nth_equalityI)
    show "length (by_index inputs) = length (map snd ais)"
      using by_index_lessThan(1) [OF dom] arg_cong [OF fst, of length] by simp
    show "by_index inputs ! i = map snd ais ! i" if "i < length (by_index inputs)" for i
    proof -
      have i: "i < n" "i < length ais" using that by_index_lessThan(1) [OF dom] arg_cong [OF fst, of length] by simp_all
      have "fst (ais ! i) = i" using arg_cong [OF fst, of "\<lambda>l. l ! i"] i by simp
      then have "(i, snd (ais ! i)) \<in> set ais" using i(2) by (metis nth_mem prod.collapse)
      moreover have "distinct (map fst ais)" by (simp only: fst) simp
      ultimately have "inputs i = Some (snd (ais ! i))" by (simp add: ais(2))
      then show ?thesis using i by_index_lessThan(2) [OF dom] by simp
    qed
  qed
  moreover have "res_mapM (individual_input G (by_index committee)) (by_index committee) = res_mapM ?f [0..<n]"
    by (simp add: by_index_def s res_mapM_map)
  ultimately show "res_mapM (individual_input G (by_index committee)) (by_index committee) = Inr (by_index inputs)"
    using snd by simp
qed

text \<open>The exclusion set of a certificate: who committed and did not respond.\<close>

definition exclusions :: "key_order \<Rightarrow> ('p \<times> 'sig) contributions \<Rightarrow> 's contributions \<Rightarrow> ('p, 'sig) exclusion_set" where
  "exclusions order cm rs =
     map (\<lambda>(pix, yi, sig). (pix, Some (yi, sig))) (filter (\<lambda>(pix, _). fmlookup rs pix = None) (entries order cm))"

lemma set_exclusions:
  assumes "enumerates order"
  shows "set (exclusions order cm rs) = {(k, Some v) |k v. fmlookup cm k = Some v \<and> fmlookup rs k = None}"
  by (force simp: exclusions_def set_entries [OF assms])

lemma length_exclusions:
  assumes "enumerates order"
  shows "length (exclusions order cm rs) = card (fmdom' cm - fmdom' rs)"
proof -
  let ?ks = "filter (\<lambda>k. fmlookup rs k = None) (order (fmdom' cm))"
  have o: "distinct (order (fmdom' cm))" "set (order (fmdom' cm)) = fmdom' cm"
    using assms by (simp_all add: enumerates_def)
  have "length (exclusions order cm rs) = length ?ks"
    by (simp add: exclusions_def entries_def filter_map comp_def)
  also have "\<dots> = card (set ?ks)" by (rule distinct_card [symmetric]) (simp add: o(1))
  also have "set ?ks = {k \<in> fmdom' cm. fmlookup rs k = None}" by (simp add: o(2))
  also have "\<dots> = fmdom' cm - fmdom' rs" by (auto simp: fmlookup_dom'_iff)
  finally show ?thesis .
qed

lemma find_exclusions:
  assumes "enumerates order"
  shows "find (\<lambda>(ex_i, _). ex_i = i) (exclusions order cm rs) = None \<longleftrightarrow> i \<notin> fmdom' cm - fmdom' rs"
  using set_exclusions [OF assms, of cm rs] by (auto simp: find_None_iff fmlookup_dom'_iff)

lemma excluded_sum:
  assumes "enumerates order"
  shows "sum_list (map (\<lambda>(y, _). y) (List.map_filter snd (exclusions order cm rs))) =
    (\<Sum>k \<in> fmdom' cm - fmdom' rs. fst (the (fmlookup cm k)))"
proof -
  have "List.map_filter snd (exclusions order cm rs) =
      map snd (filter (\<lambda>(pix, _). fmlookup rs pix = None) (entries order cm))"
    by (simp add: exclusions_def List.map_filter_def filter_map comp_def case_prod_unfold)
  moreover have "{k \<in> fmdom' cm. fmlookup rs k = None} = fmdom' cm - fmdom' rs" by (auto simp: fmlookup_dom'_iff)
  ultimately show ?thesis
    using sum_entries [OF assms, of "fst \<circ> snd" "\<lambda>(pix, _). fmlookup rs pix = None" cm]
    by (simp add: comp_def case_prod_unfold)
qed

definition keys_of ::
  "('s, 'p::ab_group_add, 'sig, 'pid) sigma_group \<Rightarrow> (peer_ix \<rightharpoonup> 'p) \<Rightarrow> (peer_ix \<rightharpoonup> 's) \<Rightarrow> peer_ix set \<Rightarrow> 'p" where
  "keys_of G committee inputs A = (\<Sum>i \<in> A. sg_mul G (the (committee i)) (the (inputs i)))"

lemma partial_pk_exclusions:
  assumes "enumerates order" "dom committee = {..<n}" "dom inputs = {..<n}"
  shows "partial_pk G (by_index committee) (by_index inputs) (exclusions order cm rs) =
    keys_of G committee inputs ({..<n} - (fmdom' cm - fmdom' rs))"
proof -
  have "partial_pk G (by_index committee) (by_index inputs) (exclusions order cm rs) =
      (\<Sum>i \<in> {i. i < n \<and> i \<notin> fmdom' cm - fmdom' rs}. sg_mul G (by_index committee ! i) (by_index inputs ! i))"
    unfolding partial_pk_def sum_enumerate
    by (simp add: find_exclusions [OF assms(1)] by_index_lessThan(1) [OF assms(2)])
  also have "\<dots> = keys_of G committee inputs {i. i < n \<and> i \<notin> fmdom' cm - fmdom' rs}"
    unfolding keys_of_def using by_index_lessThan(2) [OF assms(2)] by_index_lessThan(2) [OF assms(3)]
    by (intro sum.cong) auto
  also have "{i. i < n \<and> i \<notin> fmdom' cm - fmdom' rs} = {..<n} - (fmdom' cm - fmdom' rs)" by auto
  finally show ?thesis .
qed

lemma new_responses_inputD:
  assumes "rv_inputs (new_responses_input cm committee inputs c) k = Some i"
  shows "\<exists>sig. fmlookup cm k = Some (rv_commitment i, sig)" "committee k = Some (rv_pk i)"
    "inputs k = Some (rv_individual_input i)"
  using assms by (auto simp: new_responses_input_def split: option.splits prod.splits)

text \<open>Verified responses add up to the commitments and keys of those who responded.\<close>

lemma responses_sum:
  assumes "scalar_laws G" "enumerates order"
    and ver: "verify_responses G order (new_responses_input cm committee inputs c) rs"
  shows "fmdom' rs \<subseteq> fmdom' cm" "fmdom' rs \<subseteq> dom committee"
    "sg_mul G (sg_generator G) (aggregate_response (contrib_values order rs)) =
      (\<Sum>k \<in> fmdom' rs. fst (the (fmlookup cm k))) + sg_mul G (keys_of G committee inputs (fmdom' rs)) c"
proof -
  have each: "k \<in> fmdom' cm \<and> k \<in> dom committee \<and> sg_mul G (sg_generator G) (the (fmlookup rs k)) =
      fst (the (fmlookup cm k)) + sg_mul G (sg_mul G (the (committee k)) (the (inputs k))) c" if k: "k \<in> fmdom' rs" for k
  proof -
    obtain z where z: "fmlookup rs k = Some z" using k by (auto simp: fmlookup_dom'_iff)
    obtain i where i: "rv_inputs (new_responses_input cm committee inputs c) k = Some i"
      "verify_response G z (rv_individual_input i) c (rv_commitment i) (rv_pk i)"
      using ver z by (auto simp: verify_responses_iff [OF assms(2)] new_responses_input_def)
    show ?thesis
      using i(2) new_responses_inputD [OF i(1)] z by (auto simp: fmlookup_dom'_iff verify_response_def)
  qed
  then show "fmdom' rs \<subseteq> fmdom' cm" "fmdom' rs \<subseteq> dom committee" by auto
  have "aggregate_response (contrib_values order rs) = (\<Sum>k \<in> fmdom' rs. the (fmlookup rs k))"
    using sum_entries [OF assms(2), of snd "\<lambda>_. True" rs] by (simp add: aggregate_response_def contrib_values_def)
  then show "sg_mul G (sg_generator G) (aggregate_response (contrib_values order rs)) =
      (\<Sum>k \<in> fmdom' rs. fst (the (fmlookup cm k))) + sg_mul G (keys_of G committee inputs (fmdom' rs)) c"
    using each by (simp add: keys_of_def sg_mul_sum [OF assms(1)] sum.distrib [symmetric])
qed

lemma commitments_sum:
  "enumerates order \<Longrightarrow> sum_list (map fst (contrib_values order cm)) = (\<Sum>k \<in> fmdom' cm. fst (the (fmlookup cm k)))"
  using sum_entries [of order "\<lambda>kv. fst (snd kv)" "\<lambda>_. True" cm] by (simp add: contrib_values_def comp_def)

lemma certificate_equation:
  assumes laws: "scalar_laws G" "enumerates order"
    and dom: "dom committee = {..<n}" "dom inputs = {..<n}"
    and ver: "verify_responses G order (new_responses_input cm committee inputs c) rs"
  shows "sg_mul G (sg_generator G) (aggregate_response (contrib_values order rs)) =
      sg_mul G (partial_pk G (by_index committee) (by_index inputs) (exclusions order cm rs)) c +
        sum_list (map fst (contrib_values order cm)) -
        sum_list (map (\<lambda>(y, _). y) (List.map_filter snd (exclusions order cm rs)))
    \<longleftrightarrow> sg_mul G (keys_of G committee inputs ({..<n} - fmdom' cm)) c = 0"
proof -
  let ?y = "\<lambda>A. \<Sum>k \<in> A. fst (the (fmlookup cm k))"
  note R = responses_sum [OF laws ver]
  have sub: "fmdom' rs \<subseteq> {..<n}" using R(2) dom(1) by simp
  have "{..<n} - (fmdom' cm - fmdom' rs) = fmdom' rs \<union> ({..<n} - fmdom' cm)" using sub R(1) by auto
  moreover have "keys_of G committee inputs (fmdom' rs \<union> ({..<n} - fmdom' cm)) =
      keys_of G committee inputs (fmdom' rs) + keys_of G committee inputs ({..<n} - fmdom' cm)"
    unfolding keys_of_def using R(1) by (intro sum.union_disjoint) auto
  ultimately have partial: "sg_mul G (partial_pk G (by_index committee) (by_index inputs) (exclusions order cm rs)) c =
      sg_mul G (keys_of G committee inputs (fmdom' rs)) c + sg_mul G (keys_of G committee inputs ({..<n} - fmdom' cm)) c"
    using laws(1) by (simp add: partial_pk_exclusions [OF laws(2) dom] scalar_laws_def)
  have "?y (fmdom' cm) = ?y (fmdom' cm - fmdom' rs) + ?y (fmdom' rs)"
    using R(1) by (intro sum.subset_diff) auto
  then have "sum_list (map fst (contrib_values order cm)) -
      sum_list (map (\<lambda>(y, _). y) (List.map_filter snd (exclusions order cm rs))) = ?y (fmdom' rs)"
    by (simp add: commitments_sum [OF laws(2)] excluded_sum [OF laws(2)])
  then show ?thesis
    unfolding partial add_diff_eq [symmetric] R(3) by (simp add: algebra_simps)
qed

lemma broadcast_commitments_completeD:
  assumes "broadcast_commitments_complete G e cf st cm = Inr ar"
  obtains aggr_pk c ai where
    "aggregate_pk G (by_index (sh_committee (bc_host st))) (by_index (sh_individual_inputs (bc_host st))) = Inr aggr_pk"
    "ar_aggr_commitment ar = sum_list (map fst (contrib_values (se_order e) cm))"
    "challenge G aggr_pk (ar_aggr_commitment ar) (sh_message_digest (bc_host st)) = Inr c"
    "sh_individual_inputs (bc_host st) (sh_ix (bc_host st)) = Some ai"
    "ar_verif_input ar = new_responses_input cm (sh_committee (bc_host st)) (sh_individual_inputs (bc_host st)) c"
    "ar_message_digest ar = sh_message_digest (bc_host st)" "ar_commitments ar = cm"
    "new_handel cf (contrib_unit (sh_ix (bc_host st)) (response (sh_secret (bc_host st)) (sh_sk (bc_host st)) c ai))
       (bc_handel_partitions st) (sh_ix (bc_host st)) = Inr (ar_handel ar)"
  using assms
  by (auto simp: broadcast_commitments_complete_def Let_def res_simps aggregate_commitment_def public_key_def
      split: if_splits)

lemma exclusion_proofs:
  assumes "enumerates order"
  shows "list_ex (\<lambda>(_, mp). case mp of Some (yi, prf) \<Rightarrow> \<not> sg_check G yi md prf | None \<Rightarrow> False) (exclusions order cm rs)
    \<longleftrightarrow> \<not> (\<forall>k y sig. fmlookup cm k = Some (y, sig) \<longrightarrow> fmlookup rs k = None \<longrightarrow> sg_check G y md sig)"
  unfolding list_ex_iff set_exclusions [OF assms] by fastforce

text \<open>
  What the verifier computes of a certificate: the sum of the keys of those who never committed
  decides, then the proofs of those who are excluded and their number.
\<close>

lemma certificate_verify_eq:
  assumes laws: "scalar_laws G" "enumerates (se_order e)" "enumerates (se_order e')"
    and host: "dom (sh_committee (bc_host st)) = {..<n}"
      "index_inputs G (sh_committee (bc_host st)) = Inr (sh_individual_inputs (bc_host st))"
    and stage: "broadcast_commitments_complete G e cf st cm = Inr ar"
    and ver: "verify_responses G (se_order e') (ar_verif_input ar) rs"
    and cert: "cert = responses_complete e' (ar\<lparr>ar_handel := h\<rparr>) rs"
  shows "sigma_verify G (cert_aggregate_commitment cert) (cert_aggregate_response cert) (cert_exclusion_set cert)
      (by_index (sh_committee (bc_host st))) (cert_message_digest cert) thr =
    (if sg_mul G (keys_of G (sh_committee (bc_host st)) (sh_individual_inputs (bc_host st)) ({..<n} - fmdom' cm))
          (rv_challenge (ar_verif_input ar)) \<noteq> 0 \<or>
        \<not> (\<forall>k y sig. fmlookup cm k = Some (y, sig) \<longrightarrow> fmlookup rs k = None \<longrightarrow>
             sg_check G y (sh_message_digest (bc_host st)) sig)
     then Inr False
     else res_bind (checked_sub n (card (fmdom' cm - fmdom' rs))) (\<lambda>num_succeeded.
          res_bind (threshold_min thr n) (\<lambda>t. Inr (t \<le> num_succeeded))))"
  using stage
proof (rule broadcast_commitments_completeD)
  let ?K = "sh_committee (bc_host st)" and ?A = "sh_individual_inputs (bc_host st)"
  fix aggr_pk c ai
  assume S: "aggregate_pk G (by_index ?K) (by_index ?A) = Inr aggr_pk"
    "ar_aggr_commitment ar = sum_list (map fst (contrib_values (se_order e) cm))"
    "challenge G aggr_pk (ar_aggr_commitment ar) (sh_message_digest (bc_host st)) = Inr c"
    "ar_verif_input ar = new_responses_input cm ?K ?A c"
    "ar_message_digest ar = sh_message_digest (bc_host st)" "ar_commitments ar = cm"
  have Y: "ar_aggr_commitment ar = sum_list (map fst (contrib_values (se_order e') cm))"
    using S(2) commitments_sum [OF laws(2)] commitments_sum [OF laws(3)] by metis
  have C: "cert_aggregate_commitment cert = ar_aggr_commitment ar"
    "cert_message_digest cert = sh_message_digest (bc_host st)"
    "cert_aggregate_response cert = aggregate_response (contrib_values (se_order e') rs)"
    "cert_exclusion_set cert = exclusions (se_order e') cm rs"
    using S(5,6) by (simp_all add: cert responses_complete_def exclusions_def)
  have n: "length (by_index ?K) = n" by (rule by_index_lessThan(1) [OF host(1)])
  note eq = certificate_equation [OF laws(1,3) host(1) index_inputs_keys(1) [OF host] ver [unfolded S(4)]]
  have c: "rv_challenge (ar_verif_input ar) = c" by (simp add: S(4) new_responses_input_def)
  show ?thesis
    unfolding C sigma_verify_def index_inputs_keys(2) [OF host] res_bind.simps S(1,3) Let_def Y eq c
      exclusion_proofs [OF laws(3)] length_exclusions [OF laws(3)] n
    using S(3) [unfolded Y] eq by simp (metis option.distinct(1))
qed

section \<open>Runs of the behaviour\<close>

datatype ('s, 'p, 'sig, 'pid, 'addr) sigma_event =
    SigmaInject "('s, 'pid) sigma_env" 'pid "('s, 'p, 'sig) sigma_message"
  | SigmaPoll "nat \<Rightarrow> ('s, 'pid) sigma_env"
  | SigmaRequest "('p, 'addr) aggregation_action"

text \<open>One call of the behaviour, or a request that arrives; what the polls return is logged.\<close>

fun sigma_step ::
  "('s::comm_ring_1, 'p::ab_group_add, 'sig, 'pid) sigma_group
   \<Rightarrow> ('s, 'p, 'sig, 'pid, 'addr) sigma_aggregation \<times> ('s, 'p, 'sig, 'pid, 'addr) sigma_out sigma_poll_result list
   \<Rightarrow> ('s, 'p, 'sig, 'pid, 'addr) sigma_event
   \<Rightarrow> (('s, 'p, 'sig, 'pid, 'addr) sigma_aggregation
        \<times> ('s, 'p, 'sig, 'pid, 'addr) sigma_out sigma_poll_result list) res" where
  "sigma_step G (s, log) (SigmaInject e p m) = res_bind (sigma_inject G e p m s) (\<lambda>s. Inr (s, log))"
| "sigma_step G (s, log) (SigmaPoll env) = res_bind (sigma_poll G env 0 s) (\<lambda>(s, r). Inr (s, log @ [r]))"
| "sigma_step G (s, log) (SigmaRequest a) = Inr (s\<lparr>sa_inbox := sa_inbox s @ [a]\<rparr>, log)"

subsection \<open>The stash\<close>

text \<open>The state up to the messages in the stash.\<close>

definition strip :: "('s, 'p, 'sig, 'pid, 'addr) sigma_aggregation \<Rightarrow> ('s, 'p, 'sig, 'pid, 'addr) sigma_aggregation" where
  "strip s = s\<lparr>sa_stash := new_stash\<rparr>"

abbreviation strip_res where
  "strip_res \<equiv> map_sum id (map_prod strip id)"

lemma strip_simps [simp]:
  "strip (s\<lparr>sa_stash := x\<rparr>) = strip s" "strip (strip s) = strip s"
  "strip (keep_task st ch s) = keep_task st ch (strip s)" "strip (emit out s) = emit out (strip s)"
  "strip (s\<lparr>sa_task := t\<rparr>) = (strip s)\<lparr>sa_task := t\<rparr>" "strip (s\<lparr>sa_outbox := ob\<rparr>) = (strip s)\<lparr>sa_outbox := ob\<rparr>"
  "strip (s\<lparr>sa_inbox := ib\<rparr>) = (strip s)\<lparr>sa_inbox := ib\<rparr>" "strip (s\<lparr>sa_results := rs\<rparr>) = (strip s)\<lparr>sa_results := rs\<rparr>"
  "sa_task (strip s) = sa_task s" "sa_outbox (strip s) = sa_outbox s" "sa_inbox (strip s) = sa_inbox s"
  "sa_results (strip s) = sa_results s" "sa_handel_conf (strip s) = sa_handel_conf s"
  "sa_multicasting_conf (strip s) = sa_multicasting_conf s" "sa_host_sk (strip s) = sa_host_sk s"
  "sa_partitioner (strip s) = sa_partitioner s" "sa_overlay_builder (strip s) = sa_overlay_builder s"
  by (simp_all add: strip_def keep_task_def emit_def)

lemma map_res_bind: "map_sum id f (res_bind m g) = res_bind m (\<lambda>x. map_sum id f (g x))"
  by (cases m) simp_all

lemma stash_early_strip: "map_sum id strip (stash_early e pp p m (strip s)) = map_sum id strip (stash_early e pp p m s)"
  by (simp add: stash_early_def)

lemma sigma_inject_strip: "map_sum id strip (sigma_inject G e p m (strip s)) = map_sum id strip (sigma_inject G e p m s)"
proof (cases "sa_task s")
  case (Some stch)
  then show ?thesis
    by (cases stch; cases "fst stch"; cases m)
      (simp_all add: sigma_inject_def map_res_bind stash_early_strip)
qed (simp add: sigma_inject_def)

lemma poll_stage_strip:
  assumes "sa_task s = None"
  shows "strip_res (poll_stage G e (strip s) st channel) = strip_res (poll_stage G e s st channel)"
proof (cases st)
qed (simp_all add: map_res_bind unstash_stage_idle assms Let_def case_prod_unfold
      poll_result.case_distrib [where h = strip_res] stage_poll.case_distrib [where h = strip_res]
      cong: poll_result.case_cong stage_poll.case_cong)

lemma poll_task_strip: "strip_res (poll_task G e (strip s)) = strip_res (poll_task G e s)"
proof (cases "sa_task s")
  case (Some stch)
  obtain st channel where [simp]: "stch = (st, channel)" by (cases stch)
  have "strip_res (poll_stage G e (strip (s\<lparr>sa_task := None\<rparr>)) st channel) =
      strip_res (poll_stage G e (s\<lparr>sa_task := None\<rparr>) st channel)"
    by (rule poll_stage_strip) simp
  then show ?thesis
    using Some
    by (cases "poll_stage G e (strip (s\<lparr>sa_task := None\<rparr>)) st channel";
        cases "poll_stage G e (s\<lparr>sa_task := None\<rparr>) st channel") (auto simp: poll_task_def)
qed (simp add: poll_task_def)

lemma sigma_iteration_strip: "strip_res (sigma_iteration G e (strip s)) = strip_res (sigma_iteration G e s)"
proof (cases "sa_outbox s")
  case Nil
  then show ?thesis
  proof (cases "sa_inbox s")
    case (Cons a actions)
    obtain c md ch where [simp]: "a = ResetAggregation c md ch" by (cases a)
    show ?thesis
      using Nil Cons by (simp add: sigma_iteration_def strip_def split: option.split)
  qed (simp add: sigma_iteration_def poll_task_strip)
qed (simp add: sigma_iteration_def)

lemma strip_resD:
  assumes "strip_res r = strip_res r'"
  shows "r = Inl x \<Longrightarrow> r' = Inl x" "r = Inr (s, y) \<Longrightarrow> \<exists>s'. r' = Inr (s', y) \<and> strip s' = strip s"
  using assms by (cases r'; auto)+

lemma sigma_poll_strip:
  assumes "strip t = strip s"
  shows "strip_res (sigma_poll G env i t) = strip_res (sigma_poll G env i s)"
  using assms
proof (induction G env i s arbitrary: t rule: sigma_poll.induct)
  case (1 G env i s)
  have it: "strip_res (sigma_iteration G (env i) t) = strip_res (sigma_iteration G (env i) s)"
    using sigma_iteration_strip [of G "env i" s] sigma_iteration_strip [of G "env i" t] "1.prems" by simp
  show ?case
  proof (cases "sigma_iteration G (env i) s")
    case (Inl x)
    then show ?thesis using strip_resD(1) [OF it [symmetric]] by (simp add: sigma_poll.simps [of G env i])
  next
    case (Inr sr)
    obtain s' r where [simp]: "sr = (s', r)" by (cases sr)
    obtain t' where t': "sigma_iteration G (env i) t = Inr (t', r)" "strip t' = strip s'"
      using strip_resD(2) [OF it [symmetric], of s' r] Inr by auto
    show ?thesis
      using "1.IH" [OF Inr, of s' r t'] t' Inr by (cases r) (simp_all add: sigma_poll.simps [of G env i])
  qed
qed

lemma sigma_step_strip:
  assumes "strip t = strip s" "sigma_step G (s, log) ev = Inr (s', log')"
  shows "\<exists>t'. sigma_step G (t, log) ev = Inr (t', log') \<and> strip t' = strip s'"
proof (cases ev)
  case (SigmaInject e p m)
  then have "sigma_inject G e p m s = Inr s'" "log' = log" using assms(2) by (auto simp: res_simps)
  moreover have "map_sum id strip (sigma_inject G e p m t) = map_sum id strip (sigma_inject G e p m s)"
    using sigma_inject_strip [of G e p m s] sigma_inject_strip [of G e p m t] assms(1) by simp
  ultimately show ?thesis using SigmaInject by (cases "sigma_inject G e p m t") auto
next
  case (SigmaPoll env)
  then obtain r where r: "sigma_poll G env 0 s = Inr (s', r)" "log' = log @ [r]" using assms(2) by (auto simp: res_simps)
  from strip_resD(2) [OF sigma_poll_strip [OF assms(1), symmetric] r(1)] show ?thesis
    using SigmaPoll r(2) by auto
next
  case (SigmaRequest a)
  have "sa_inbox t = sa_inbox s" using assms(1) by (metis strip_simps(11))
  then show ?thesis using assms SigmaRequest by auto
qed

lemma sigma_run_strip:
  assumes "strip t = strip s" "res_fold (sigma_step G) (s, log) evs = Inr (s', log')"
  shows "\<exists>t'. res_fold (sigma_step G) (t, log) evs = Inr (t', log') \<and> strip t' = strip s'"
  using assms
proof (induction evs arbitrary: s t log)
  case (Cons ev evs)
  obtain s1 log1 where 1: "sigma_step G (s, log) ev = Inr (s1, log1)"
    and rest: "res_fold (sigma_step G) (s1, log1) evs = Inr (s', log')"
    using Cons.prems(2) by (auto simp: res_simps)
  obtain t1 where "sigma_step G (t, log) ev = Inr (t1, log1)" "strip t1 = strip s1"
    using sigma_step_strip [OF Cons.prems(1) 1] by blast
  then show ?case using Cons.IH [OF _ rest, of t1] by simp
qed simp

subsection \<open>Requests and certificates\<close>

fun stage_digest :: "('s, 'p, 'sig, 'pid, 'addr) aggregation_state \<Rightarrow> bytes" where
  "stage_digest (AggregatePreCommitments st) = sh_message_digest (apc_host st)"
| "stage_digest (BroadcastPreCommitments st) = sh_message_digest (bpc_host st)"
| "stage_digest (AggregateCommitments st) = sh_message_digest (ac_host st)"
| "stage_digest (BroadcastCommitments st) = sh_message_digest (bc_host st)"
| "stage_digest (AggregateResponses st) = ar_message_digest st"

fun request_of :: "('p, 'addr) aggregation_action \<Rightarrow> nat \<times> bytes" where
  "request_of (ResetAggregation _ md channel) = (channel, md)"

definition answered :: "('s, 'p, 'sig, 'pid, 'addr) sigma_aggregation \<Rightarrow> (nat \<times> bytes) list" where
  "answered s = map (\<lambda>(channel, cert). (channel, cert_message_digest cert)) (sa_results s)"

text \<open>The requests that are answered, in work or waiting, in this order.\<close>

definition known_requests :: "('s, 'p, 'sig, 'pid, 'addr) sigma_aggregation \<Rightarrow> (nat \<times> bytes) list" where
  "known_requests s = answered s @
     (case sa_task s of Some (st, channel) \<Rightarrow> [(channel, stage_digest st)] | None \<Rightarrow> []) @
     map request_of (sa_inbox s)"

lemma complete_digests:
  "pre_commitments_complete e a m = Inr b \<Longrightarrow> sh_message_digest (bpc_host b) = sh_message_digest (apc_host a)"
  "broadcast_pre_complete cf b m = Inr c \<Longrightarrow> sh_message_digest (ac_host c) = sh_message_digest (bpc_host b)"
  "commitments_complete e c cm = Inr d \<Longrightarrow> sh_message_digest (bc_host d) = sh_message_digest (ac_host c)"
  by (auto simp: pre_commitments_complete_def broadcast_pre_complete_def commitments_complete_def Let_def res_simps)

lemma broadcast_complete_digest:
  "broadcast_commitments_complete G e cf d cm = Inr r \<Longrightarrow> ar_message_digest r = sh_message_digest (bc_host d)"
  by (erule broadcast_commitments_completeD)

lemma poll_stage_requests:
  assumes "poll_stage G e s st channel = Inr (s', b)" "sa_task s = None"
  shows "known_requests s' = answered s @ [(channel, stage_digest st)] @ map request_of (sa_inbox s)"
proof (cases st)
  case (AggregatePreCommitments x)
  then obtain h r where "poll (apc_handel x) (se_dissem e) (se_activ e) (se_proc e) = Inr (h, r)"
    using assms(1) by (auto simp: res_simps)
  then show ?thesis using assms AggregatePreCommitments
    by (cases r) (auto simp: res_simps unstash_stage_idle known_requests_def answered_def keep_task_def emit_def
        dest: complete_digests)
next
  case (BroadcastPreCommitments x)
  then obtain h r where "mcast_poll (bpc_mcast x) (se_now e) = Inr (h, r)" using assms(1) by (auto simp: res_simps)
  then show ?thesis using assms BroadcastPreCommitments
    by (cases r) (auto simp: res_simps unstash_stage_idle known_requests_def answered_def keep_task_def emit_def
        dest: complete_digests)
next
  case (AggregateCommitments x)
  then obtain h r where "poll (ac_handel x) (se_dissem e) (se_activ e) (se_proc e) = Inr (h, r)"
    using assms(1) by (auto simp: res_simps)
  then show ?thesis using assms AggregateCommitments
    by (cases r) (auto simp: res_simps unstash_stage_idle known_requests_def answered_def keep_task_def emit_def
        dest: complete_digests)
next
  case (BroadcastCommitments x)
  then obtain h r where "mcast_poll (bc_mcast x) (se_now e) = Inr (h, r)" using assms(1) by (auto simp: res_simps)
  then show ?thesis using assms BroadcastCommitments
    by (cases r) (auto simp: res_simps unstash_stage_idle known_requests_def answered_def keep_task_def emit_def
        dest: broadcast_complete_digest)
next
  case (AggregateResponses x)
  then obtain h r where "poll (ar_handel x) (se_dissem e) (se_activ e) (se_proc e) = Inr (h, r)"
    using assms(1) by (auto simp: res_simps)
  then show ?thesis using assms AggregateResponses
    by (cases r) (auto simp: known_requests_def answered_def keep_task_def emit_def responses_complete_def)
qed

lemma poll_task_requests:
  assumes "poll_task G e s = Inr (s', r)"
  shows "known_requests s' = known_requests s"
proof (cases "sa_task s")
  case (Some stch)
  then obtain b where "poll_stage G e (s\<lparr>sa_task := None\<rparr>) (fst stch) (snd stch) = Inr (s', b)"
    using assms by (auto simp: poll_task_def res_simps split: prod.splits)
  from poll_stage_requests [OF this] Some show ?thesis by (simp add: known_requests_def answered_def case_prod_beta)
qed (use assms in \<open>simp add: poll_task_def\<close>)

text \<open>A poll can only drop requests: a new one ends the one in work.\<close>

lemma sigma_iteration_requests:
  assumes "sigma_iteration G e s = Inr (s', r)"
  shows "subseq (known_requests s') (known_requests s)"
proof (cases "sa_outbox s")
  case Nil
  show ?thesis
  proof (cases "sa_inbox s")
    case ib: (Cons a actions)
    obtain c md ch where a: "a = ResetAggregation c md ch" by (cases a)
    show ?thesis
    proof (cases "schnorr_commitment_pair G (se_draws e)")
      case (Some pair)
      then obtain st where init: "init_aggregation G (sa_partitioner s) (sa_overlay_builder s) (sa_handel_conf s)
            (sa_multicasting_conf s) (sa_host_sk s) c md pair = Inr st"
        and p: "poll_task G e (s\<lparr>sa_inbox := actions, sa_stash := new_stash,
              sa_task := Some (AggregatePreCommitments st, ch)\<rparr>) = Inr (s', r)"
        using assms Nil ib a by (auto simp: sigma_iteration_def res_simps)
      have "sh_message_digest (apc_host st) = md"
        using init by (auto simp: init_aggregation_def Let_def res_simps split: prod.splits)
      then have "known_requests s' = answered s @ map request_of (sa_inbox s)"
        using poll_task_requests [OF p] by (simp add: known_requests_def answered_def ib a)
      moreover have "subseq (answered s @ map request_of (sa_inbox s)) (known_requests s)"
        unfolding known_requests_def by (intro list_emb_append_mono list_emb_append2) simp_all
      ultimately show ?thesis by simp
    qed (use assms Nil ib a in \<open>simp add: sigma_iteration_def\<close>)
  qed (use assms Nil poll_task_requests [of G e s s' r] in \<open>simp add: sigma_iteration_def\<close>)
qed (use assms in \<open>auto simp: sigma_iteration_def known_requests_def answered_def\<close>)

lemma sigma_poll_requests:
  "sigma_poll G env i s = Inr (s', r) \<Longrightarrow> subseq (known_requests s') (known_requests s)"
proof (induction G env i s rule: sigma_poll.induct)
  case (1 G env i s)
  obtain s1 r1 where it: "sigma_iteration G (env i) s = Inr (s1, r1)"
    using "1.prems" by (cases "sigma_iteration G (env i) s") (auto simp: sigma_poll.simps [of G env i s])
  show ?case
  proof (cases "r1 = SigmaContinue")
    case True
    then have "subseq (known_requests s') (known_requests s1)"
      using "1.IH" [OF it refl] it "1.prems" by (simp add: sigma_poll.simps [of G env i s])
    then show ?thesis using sigma_iteration_requests [OF it] subseq_order.order_trans by blast
  next
    case False
    then have "s1 = s'" using it "1.prems" by (cases r1) (simp_all add: sigma_poll.simps [of G env i s])
    then show ?thesis using sigma_iteration_requests [OF it] by simp
  qed
qed

lemma inject_requests:
  assumes "sigma_inject G e p m s = Inr s'"
  shows "known_requests s' = known_requests s"
proof (cases "sa_task s")
  case (Some stch)
  then show ?thesis
    using assms
    by (cases stch; cases "fst stch"; cases m)
      (auto simp: sigma_inject_def res_simps stash_early_def keep_task_def known_requests_def answered_def split: if_splits)
qed (use assms in \<open>simp add: sigma_inject_def\<close>)

fun requests :: "('s, 'p, 'sig, 'pid, 'addr) sigma_event list \<Rightarrow> (nat \<times> bytes) list" where
  "requests [] = []"
| "requests (SigmaRequest a # evs) = request_of a # requests evs"
| "requests (_ # evs) = requests evs"

lemma sigma_run_requests:
  assumes "res_fold (sigma_step G) (s, log) evs = Inr (s', log')"
  shows "subseq (known_requests s') (known_requests s @ requests evs)"
  using assms
proof (induction evs arbitrary: s log)
  case (Cons ev evs)
  obtain s1 log1 where 1: "sigma_step G (s, log) ev = Inr (s1, log1)"
    and rest: "res_fold (sigma_step G) (s1, log1) evs = Inr (s', log')"
    using Cons.prems by (auto simp: res_simps)
  have "subseq (known_requests s1 @ requests evs) (known_requests s @ requests (ev # evs))"
  proof (cases ev)
    case (SigmaInject e p m)
    then show ?thesis using 1 inject_requests [of G e p m s s1] by (auto simp: res_simps)
  next
    case (SigmaPoll env)
    then show ?thesis using 1 sigma_poll_requests [of G env 0 s s1] by (auto simp: res_simps)
  next
    case (SigmaRequest a)
    then have "known_requests s1 = known_requests s @ [request_of a]"
      using 1 by (auto simp: known_requests_def answered_def)
    then show ?thesis using SigmaRequest by simp
  qed
  then show ?case using Cons.IH [OF rest] subseq_order.order_trans by blast
qed simp

section \<open>Rounds of responses\<close>

text \<open>What a round of Handel returns is valid.\<close>

lemma handel_result_valid:
  assumes "handel_inv ops h" "poll h dissem activ proc = Inr (h', ReadyRight c)"
  shows "verify ops c"
proof -
  note D = handel_invD [OF poll_inv [OF assms]]
  obtain lvl i where "i < length (levels h')" "levels h' ! i = Some lvl" "c = contribution (best_contribution lvl)"
    using poll_aggregate [OF assms(2)] by (auto simp: get_complete_aggregate_def res_simps split: option.splits if_splits)
  then show ?thesis using D(6) by (auto simp: level_ok_def)
qed

text \<open>The response of the host verifies, if the others know its commitment.\<close>

lemma own_response_verifies:
  assumes "scalar_laws G" "enumerates order"
    and "committee ix = Some (sg_mul G (sg_generator G) sk)" "inputs ix = Some ai"
    and "fmlookup cm ix = Some (sg_mul G (sg_generator G) y, prf)"
  shows "verify_responses G order (new_responses_input cm committee inputs c) (contrib_unit ix (response y sk c ai))"
  using assms honest_response_verifies [OF assms(1), of y sk c ai]
  by (simp add: verify_responses_iff [OF assms(2)] new_responses_input_def contrib_unit_def)

section \<open>Properties\<close>

text \<open>
  Contributions form a commutative, associative and idempotent partial semigroup, whatever the
  iteration order of their hash maps: they combine exactly when they agree where they overlap, and the
  weight of a combination counts every peer once.
\<close>

theorem contributions_combine:
  assumes "enumerates order"
  shows "contrib_try_combine order m n = contrib_try_combine order n m \<and>
    Option.bind (contrib_try_combine order m n) (\<lambda>c. contrib_try_combine order c k) =
      Option.bind (contrib_try_combine order n k) (contrib_try_combine order m) \<and>
    contrib_try_combine order m m = Some m \<and>
    (\<forall>c. contrib_try_combine order m n = Some c \<longrightarrow>
       contrib_weight c + card (fmdom' m \<inter> fmdom' n) = contrib_weight m + contrib_weight n)"
proof (intro conjI allI impI)
  note eq = contrib_try_combine_eq [OF assms]
  show "contrib_try_combine order m n = contrib_try_combine order n m"
    using agree_laws(1,3) [of m n] by (simp add: eq)
  show "contrib_try_combine order m m = Some m" by (simp add: eq agree_laws(2))
  show "Option.bind (contrib_try_combine order m n) (\<lambda>c. contrib_try_combine order c k) =
      Option.bind (contrib_try_combine order n k) (contrib_try_combine order m)"
    (is "?l = ?r")
  proof -
    have "agree m (n ++\<^sub>f k) \<longleftrightarrow> agree m n \<and> agree m k" if "agree n k"
      using agree_laws(4) [OF that, of m] agree_laws(1) [of m n] agree_laws(1) [of m k] agree_laws(1) [of m "n ++\<^sub>f k"]
      by blast
    then have "?r = (if agree m n \<and> agree m k \<and> agree n k then Some (m ++\<^sub>f (n ++\<^sub>f k)) else None)"
      by (auto simp: eq)
    moreover have "?l = (if agree m n \<and> agree m k \<and> agree n k then Some (m ++\<^sub>f n ++\<^sub>f k) else None)"
      by (auto simp: eq agree_laws(4))
    ultimately show ?thesis by simp
  qed
  fix c
  assume "contrib_try_combine order m n = Some c"
  then have "c = m ++\<^sub>f n" by (auto simp: eq split: if_splits)
  then have "fmdom' c = fmdom' m \<union> fmdom' n" by simp
  then show "contrib_weight c + card (fmdom' m \<inter> fmdom' n) = contrib_weight m + contrib_weight n"
    by (simp add: contrib_weight_def card_Un_Int [symmetric])
qed

text \<open>
  C37. The certificate that a round of responses ends with, after any messages of the peers, verifies
  exactly when the keys of the members that never committed cancel out, those that committed and did
  not respond gave valid proofs, and enough members are left. In particular it verifies if all members
  committed. The host must be among those whose commitments were broadcast.
\<close>

theorem response_round_certificate:
  assumes laws: "scalar_laws G" "enumerates (se_order e)" "enumerates (se_order e')"
    and host: "dom (sh_committee (bc_host st)) = {..<n}"
      "index_inputs G (sh_committee (bc_host st)) = Inr (sh_individual_inputs (bc_host st))"
    and own: "sh_committee (bc_host st) (sh_ix (bc_host st)) = Some (sg_mul G (sg_generator G) (sh_sk (bc_host st)))"
      "fmlookup cm (sh_ix (bc_host st)) = Some (sg_mul G (sg_generator G) (sh_secret (bc_host st)), prf)"
      "overlay_inv (sh_ix (bc_host st)) (bc_handel_partitions st)"
    and stage: "broadcast_commitments_complete G e cf st cm = Inr ar"
    and run: "res_fold (handel_step (responses_ops G e' (ar_verif_input ar))) (ar_handel ar) es = Inr h"
      "poll h dissem activ proc = Inr (h', ReadyRight rs)"
    and cert: "cert = responses_complete e' (ar\<lparr>ar_handel := h'\<rparr>) rs"
  shows "sigma_verify G (cert_aggregate_commitment cert) (cert_aggregate_response cert) (cert_exclusion_set cert)
      (by_index (sh_committee (bc_host st))) (cert_message_digest cert) thr = Inr True \<longleftrightarrow>
    sg_mul G (keys_of G (sh_committee (bc_host st)) (sh_individual_inputs (bc_host st)) ({..<n} - fmdom' cm))
      (rv_challenge (ar_verif_input ar)) = 0 \<and>
    (\<forall>k y sig. fmlookup cm k = Some (y, sig) \<longrightarrow> fmlookup rs k = None \<longrightarrow>
       sg_check G y (sh_message_digest (bc_host st)) sig) \<and>
    (\<exists>t. threshold_min thr n = Inr t \<and> t + card (fmdom' cm - fmdom' rs) \<le> n)"
proof -
  have "handel_inv (responses_ops G e' (ar_verif_input ar)) (ar_handel ar)"
    using stage
  proof (rule broadcast_commitments_completeD)
    fix aggr_pk c ai
    assume S: "sh_individual_inputs (bc_host st) (sh_ix (bc_host st)) = Some ai"
      "ar_verif_input ar = new_responses_input cm (sh_committee (bc_host st)) (sh_individual_inputs (bc_host st)) c"
      and new: "new_handel cf (contrib_unit (sh_ix (bc_host st)) (response (sh_secret (bc_host st)) (sh_sk (bc_host st)) c ai))
       (bc_handel_partitions st) (sh_ix (bc_host st)) = Inr (ar_handel ar)"
    show ?thesis
      by (rule new_handel_inv [OF new own(3)])
        (simp add: responses_ops_def S(2) own_response_verifies [OF laws(1,3),
            where committee = "sh_committee (bc_host st)" and inputs = "sh_individual_inputs (bc_host st)"] own(1,2) S(1))
  qed
  from handel_result_valid [OF round.run_inv [OF this _ run(1)] run(2)]
  have "verify_responses G (se_order e') (ar_verif_input ar) rs" by (simp add: responses_ops_def)
  from certificate_verify_eq [OF laws host stage this cert, of thr] show ?thesis
    by (auto simp: res_simps) (metis option.distinct(1))
qed


text \<open>
  C39. Messages that arrive before their stage are lost: the stash they are kept in has no effect. Two
  runs that differ in the messages stashed at the start return the same results and end in the same
  state, up to the stash.
\<close>

theorem stash_without_effect:
  assumes "res_fold (sigma_step G) (s, []) evs = Inr (s', log)"
  shows "\<exists>t. res_fold (sigma_step G) (s\<lparr>sa_stash := stash\<rparr>, []) evs = Inr (t, log) \<and>
    t\<lparr>sa_stash := new_stash\<rparr> = s'\<lparr>sa_stash := new_stash\<rparr>"
  using sigma_run_strip [OF _ assms, of "s\<lparr>sa_stash := stash\<rparr>"] by (simp add: strip_def [symmetric])

text \<open>
  C40. Certificates answer requests: in any run, the certificates a behaviour delivers are for the
  channels and digests of requests, each request is answered at most once, and in the order of the
  requests.
\<close>

theorem certificates_answer_requests:
  assumes "sa_task s = None" "sa_inbox s = []" "sa_results s = []"
    and "res_fold (sigma_step G) (s, []) evs = Inr (s', log)"
  shows "subseq (map (\<lambda>(channel, cert). (channel, cert_message_digest cert)) (sa_results s')) (requests evs)"
proof -
  have "subseq (answered s') (known_requests s')"
    unfolding known_requests_def by (rule list_emb_prefix) simp
  also have "subseq \<dots> (requests evs)"
    using sigma_run_requests [OF assms(4)] assms(1-3) by (simp add: known_requests_def answered_def)
  finally show ?thesis by (simp add: answered_def)
qed

section \<open>A committee of two\<close>

text \<open>
  The integers with multiplication by integers, and hash functions that are constant: every individual
  input and every challenge is one. The secret keys are 3 and 5, the secrets of the commitments 2 and 4.
\<close>

definition ex_group :: "(int, int, unit, nat) sigma_group" where
  "ex_group = \<lparr>sg_generator = 1, sg_mul = (*), sg_even = (\<lambda>_. True), sg_point_bytes = (\<lambda>_. []), sg_hash = (\<lambda>_. []),
     sg_scalar = (\<lambda>_. Some 1), sg_blake = (\<lambda>b. b), sg_sign = (\<lambda>_ _. ()), sg_check = (\<lambda>_ _ _. True),
     sg_peer_id = (\<lambda>p. if p = 3 then 0 else 1)\<rparr>"

definition ex_senv :: "(int, nat) sigma_env" where
  "ex_senv = \<lparr>se_order = sorted_list_of_set, se_pid_order = sorted_list_of_set, se_trace = False,
     se_dissem = False, se_activ = False, se_proc = True, se_now = 0, se_draws = [2]\<rparr>"

definition ex_host :: "(int, int, unit) sigma_host" where
  "ex_host = \<lparr>sh_sk = 3, sh_ix = 0, sh_committee = [0 \<mapsto> 3, 1 \<mapsto> 5], sh_individual_inputs = [0 \<mapsto> 1, 1 \<mapsto> 1],
     sh_message_digest = [7], sh_secret = 2, sh_commitment = 2, sh_exclusion_proof = ()\<rparr>"

definition ex_mcast_conf :: mcast_config where
  "ex_mcast_conf = \<lparr>processing_delay = 1, multicasting_duration = 1, redundancy_factor = 1, seed = 0\<rparr>"

definition ex_broadcast :: "(int, int, unit, nat, unit) broadcast_commitments" where
  "ex_broadcast = \<lparr>bc_host = ex_host, bc_handel_partitions = demo_overlay,
     bc_mcast = \<lparr>mc_statement = None, mc_overlay = new_dag_overlay, mc_contacted_peers = {}, mc_outbox = [],
       mc_partitions = demo_overlay, mc_creation_time = 0, mc_processing_delay = 1, mc_next_processing = None,
       mc_multicasting_duration = 1\<rparr>\<rparr>"

definition ex_commitments :: "(int \<times> unit) contributions" where
  "ex_commitments = fmap_of_list [(0, 2, ()), (1, 4, ())]"

lemma ex_laws: "scalar_laws ex_group"
  by (simp add: scalar_laws_def ex_group_def algebra_simps)

lemma ex_enumerates: "enumerates (se_order ex_senv)"
  by (simp add: enumerates_def ex_senv_def)

lemma ex_dom: "dom (sh_committee ex_host) = {..<2}"
  by (auto simp: ex_host_def)

lemma ex_by_index: "by_index (sh_committee ex_host) = [3, 5]" "by_index (sh_individual_inputs ex_host) = [1, 1]"
  by (simp_all add: by_index_def ex_host_def)

lemma ex_inputs: "index_inputs ex_group (sh_committee ex_host) = Inr (sh_individual_inputs ex_host)"
proof -
  have "sorted_list_of_set (dom (sh_committee ex_host)) = [0, 1]" by (simp add: ex_host_def)
  then show ?thesis
    by (auto simp: index_inputs_def individual_input_def hash_to_scalar_def ex_group_def) (simp add: ex_host_def fun_eq_iff)
qed

text \<open>A round of two peers completes with the message of the other, whatever is aggregated.\<close>

lemma two_peer_round:
  assumes "new_handel demo_conf own demo_overlay 0 = Inr h"
    and "verify ops c" "verify ops d" "try_combine ops own c = Some d" "weight ops d = 2" "weight ops own = 1"
  shows "\<exists>h1 h2. inject_message ops h 1 \<lparr>msg_level = 1, msg_individual = None, msg_aggregate = c,
      contact_sender = False\<rparr> = Inr h1 \<and> poll h1 False False True = Inr (h2, ReadyRight d)"
proof -
  let ?s = "\<lparr>score = 1, contribution = own\<rparr>"
  have h: "h = \<lparr>conf = demo_conf, scoring_window = 4,
     unverified_contributions = [Map.empty, Map.empty], peer_partitions = demo_overlay,
     levels = [Some (unit_level ?s), Some (new_level ?s 1)],
     byzantine_nodes = {}, own_contribution_recvs = {}, outbox = [], own_peer_ix = 0,
     peers_completed_levels = Map.empty, next_processing = None,
     next_dissemination = 10, next_activation = 10\<rparr>"
    using assms(1) by (simp add: new_handel_def demo_conf_def demo_overlay_def num_levels_def numeral_2_eq_2 Let_def)
  show ?thesis
    unfolding h by (simp add: demo_conf_def demo_overlay_def handel_eval assms(2-))
qed

lemma ex_stage:
  assumes "fmdom' cm \<subseteq> {0, 1}" "fmlookup cm 0 = Some (2, ())" "\<And>y. fmlookup cm 1 = Some y \<Longrightarrow> y = (4, ())"
  shows "\<exists>ar. broadcast_commitments_complete ex_group ex_senv demo_conf ex_broadcast cm = Inr ar \<and>
    ar_verif_input ar = new_responses_input cm (sh_committee ex_host) (sh_individual_inputs ex_host) 1 \<and>
    new_handel demo_conf (contrib_unit 0 5) demo_overlay 0 = Inr (ar_handel ar)"
proof -
  have "sum_list (map fst (contrib_values (se_order ex_senv) cm)) \<noteq> 0"
  proof (cases "fmlookup cm 1")
    case None
    then have "fmdom' cm = {0}" using assms(1,2) by (auto simp: fmlookup_dom'_iff)
    then show ?thesis using assms(2) by (simp add: commitments_sum [OF ex_enumerates])
  next
    case (Some y)
    then have "fmdom' cm = {0, 1}" using assms(1) fmdom'I [OF assms(2)] fmdom'I [OF Some] by blast
    then show ?thesis using assms(2,3) Some by (simp add: commitments_sum [OF ex_enumerates])
  qed
  moreover have "aggregate_pk ex_group [3, 5] [1, 1] = Inr 8"
    by (simp add: aggregate_pk_def ex_group_def public_key_def)
  moreover have "challenge ex_group a b md = Inr 1" for a b md
    by (simp add: challenge_def hash_to_scalar_def ex_group_def)
  moreover obtain h where "new_handel demo_conf (contrib_unit 0 (5 :: int)) demo_overlay 0 = Inr h"
    by (simp add: new_handel_def demo_overlay_def num_levels_def Let_def)
  moreover have "sh_ix ex_host = 0" "sh_individual_inputs ex_host 0 = Some 1" "sh_secret ex_host = 2" "sh_sk ex_host = 3"
    by (simp_all add: ex_host_def)
  ultimately show ?thesis
    by (simp add: broadcast_commitments_complete_def ex_broadcast_def ex_by_index aggregate_commitment_def public_key_def
        response_def)
qed

theorem contributions_combine_witness:
  "contrib_try_combine sorted_list_of_set (contrib_unit 0 True) (contrib_unit 1 False) =
     contrib_try_combine sorted_list_of_set (contrib_unit 1 False) (contrib_unit 0 True) \<and>
   contrib_try_combine sorted_list_of_set (contrib_unit 0 True) (contrib_unit 0 True) = Some (contrib_unit 0 True)"
  using contributions_combine [of sorted_list_of_set "contrib_unit 0 True" "contrib_unit 1 False"]
    contributions_combine [of sorted_list_of_set "contrib_unit 0 True" "contrib_unit 0 True"]
  by (simp add: enumerates_def)

text \<open>Both members commit and respond: the certificate verifies.\<close>

theorem response_round_certificate_witness:
  "\<exists>ar h h' rs. broadcast_commitments_complete ex_group ex_senv demo_conf ex_broadcast ex_commitments = Inr ar \<and>
     res_fold (handel_step (responses_ops ex_group ex_senv (ar_verif_input ar))) (ar_handel ar)
       [Inject 1 \<lparr>msg_level = 1, msg_individual = None, msg_aggregate = contrib_unit 1 9, contact_sender = False\<rparr>] = Inr h \<and>
     poll h False False True = Inr (h', ReadyRight rs) \<and>
     (let cert = responses_complete ex_senv (ar\<lparr>ar_handel := h'\<rparr>) rs
      in sigma_verify ex_group (cert_aggregate_commitment cert) (cert_aggregate_response cert) (cert_exclusion_set cert)
           (by_index (sh_committee ex_host)) (cert_message_digest cert) \<lparr>num = 1, denom = 1\<rparr> = Inr True)"
proof -
  let ?rs = "fmupd 1 9 (contrib_unit 0 5) :: int contributions"
  have dom: "fmdom' ex_commitments = {0, 1}" "fmlookup ex_commitments 0 = Some (2, ())"
    "fmlookup ex_commitments 1 = Some (4, ())"
    by (auto simp: ex_commitments_def fmdom'_alt_def)
  obtain ar where ar: "broadcast_commitments_complete ex_group ex_senv demo_conf ex_broadcast ex_commitments = Inr ar"
    "ar_verif_input ar = new_responses_input ex_commitments (sh_committee ex_host) (sh_individual_inputs ex_host) 1"
    "new_handel demo_conf (contrib_unit 0 5) demo_overlay 0 = Inr (ar_handel ar)"
    using ex_stage [of ex_commitments] dom by auto
  let ?ops = "responses_ops ex_group ex_senv (ar_verif_input ar)"
  have ver: "verify ?ops (contrib_unit 1 9)" "verify ?ops ?rs"
    using dom by (auto simp: responses_ops_def verify_responses_iff [OF ex_enumerates] ar(2) new_responses_input_def
        contrib_unit_def verify_response_def ex_host_def ex_group_def)
  have "agree (contrib_unit 0 5) (contrib_unit 1 9)" by (simp add: agree_def contrib_unit_def)
  then have comb: "try_combine ?ops (contrib_unit 0 5) (contrib_unit 1 9) = Some ?rs"
    by (simp add: responses_ops_def contrib_try_combine_eq [OF ex_enumerates]) (simp add: contrib_unit_def)
  have weight: "weight ?ops ?rs = 2" "weight ?ops (contrib_unit 0 5) = 1"
    by (simp_all add: responses_ops_def contrib_weight_def contrib_unit_def)
  obtain h h' where h: "inject_message ?ops (ar_handel ar) 1
      \<lparr>msg_level = 1, msg_individual = None, msg_aggregate = contrib_unit 1 9, contact_sender = False\<rparr> = Inr h"
    "poll h False False True = Inr (h', ReadyRight ?rs)"
    using two_peer_round [OF ar(3) ver comb weight] by blast
  then have run: "res_fold (handel_step ?ops) (ar_handel ar)
      [Inject 1 \<lparr>msg_level = 1, msg_individual = None, msg_aggregate = contrib_unit 1 9, contact_sender = False\<rparr>] = Inr h"
    by simp
  have host: "bc_host ex_broadcast = ex_host" "bc_handel_partitions ex_broadcast = demo_overlay"
    by (simp_all add: ex_broadcast_def)
  have own: "sh_ix ex_host = 0" "sh_committee ex_host 0 = Some (sg_mul ex_group (sg_generator ex_group) (sh_sk ex_host))"
    "fmlookup ex_commitments 0 = Some (sg_mul ex_group (sg_generator ex_group) (sh_secret ex_host), ())"
    using dom by (simp_all add: ex_host_def ex_group_def)
  have "sigma_verify ex_group (cert_aggregate_commitment cert) (cert_aggregate_response cert) (cert_exclusion_set cert)
       (by_index (sh_committee ex_host)) (cert_message_digest cert) \<lparr>num = 1, denom = 1\<rparr> = Inr True"
    if "cert = responses_complete ex_senv (ar\<lparr>ar_handel := h'\<rparr>) ?rs" for cert
  proof -
    have "{..<2} = {0, 1 :: nat}" by auto
    then have sub: "{..<2} - fmdom' ex_commitments = {}" "fmdom' ex_commitments - fmdom' ?rs = {}"
      by (simp_all add: dom(1) contrib_unit_def)
    have thr: "threshold_min \<lparr>num = 1, denom = 1\<rparr> 2 = Inr 2"
      by (simp add: threshold_min_def checked_usize_def checked_div_def usize_max_def)
    have chk: "sg_check ex_group y md sig" for y md sig by (simp add: ex_group_def)
    note R = response_round_certificate [OF ex_laws ex_enumerates ex_enumerates, where st = ex_broadcast,
        unfolded host own(1), OF ex_dom ex_inputs own(2,3) demo_overlay_inv ar(1) run h(2) that]
    show ?thesis
      unfolding R sub using thr chk by (simp add: keys_of_def sg_mul_zero [OF ex_laws])
  qed
  then show ?thesis using ar(1) run h(2) unfolding Let_def by blast
qed


text \<open>A request, a poll, and a response that arrives too early.\<close>

definition ex_sigma :: "(int, int, unit, nat, unit) sigma_aggregation" where
  "ex_sigma = \<lparr>sa_host_sk = 3, sa_handel_conf = demo_conf, sa_multicasting_conf = ex_mcast_conf, sa_task = None,
     sa_stash = new_stash, sa_partitioner = (\<lambda>_ _. Inr demo_overlay),
     sa_overlay_builder = (\<lambda>_ _ _. Inr new_dag_overlay), sa_inbox = [], sa_outbox = [], sa_results = []\<rparr>"

definition ex_early :: "(int, int, unit) sigma_message" where
  "ex_early = ResponsesMsg \<lparr>msg_level = 1, msg_individual = None, msg_aggregate = contrib_unit 1 9, contact_sender = False\<rparr>"

definition ex_sigma_run :: "(int, int, unit, nat, unit) sigma_event list" where
  "ex_sigma_run = [SigmaRequest (ResetAggregation [(3, None), (5, None)] [7] 4), SigmaPoll (\<lambda>_. ex_senv),
     SigmaInject ex_senv 1 ex_early]"

lemma ex_init:
  "\<exists>st h. init_aggregation ex_group (\<lambda>_ _. Inr demo_overlay) (\<lambda>_ _ _. Inr new_dag_overlay) demo_conf ex_mcast_conf 3
       [(3, None), (5, None)] [7] (2, 2) = Inr st \<and> poll (apc_handel st) False False True = Inr (h, Pending)"
proof -
  have "index_inputs ex_group [0 \<mapsto> 3, Suc 0 \<mapsto> 5] = Inr (sh_individual_inputs ex_host)"
    using ex_inputs by (simp add: ex_host_def)
  moreover have "try_index_peer demo_overlay 0 = Some 0" "try_index_peer demo_overlay (Suc 0) = Some (Suc 0)"
    by (simp_all add: try_index_peer_def demo_overlay_def)
  moreover obtain h where h: "new_handel demo_conf (contrib_unit 0 (pre_commitment ex_group 2)) demo_overlay 0 = Inr h"
    by (simp add: new_handel_def demo_overlay_def num_levels_def Let_def)
  moreover have "\<exists>h'. poll h False False True = Inr (h', Pending)"
    using h by (auto simp: new_handel_def demo_overlay_def Let_def handel_eval numeral_2_eq_2)
  moreover have "sg_peer_id ex_group 3 = 0" "sg_peer_id ex_group 5 = 1" "sg_mul ex_group (sg_generator ex_group) 3 = 3"
    by (simp_all add: ex_group_def)
  ultimately show ?thesis by (simp add: init_aggregation_def Let_def)
qed

lemma ex_sigma_runs:
  "\<exists>s. res_fold (sigma_step ex_group) (ex_sigma, []) ex_sigma_run = Inr (s, [SigmaPending]) \<and>
     sa_stash s ResponseTag 1 = Some ex_early"
proof -
  obtain st h where init: "init_aggregation ex_group (\<lambda>_ _. Inr demo_overlay) (\<lambda>_ _ _. Inr new_dag_overlay) demo_conf
       ex_mcast_conf 3 [(3, None), (5, None)] [7] (2, 2) = Inr st"
    and poll: "poll (apc_handel st) False False True = Inr (h, Pending)"
    using ex_init by blast
  have draw: "schnorr_commitment_pair ex_group [2] = Some (2, 2)" by (simp add: schnorr_commitment_def ex_group_def)
  let ?a = "ResetAggregation [(3, None), (5, None)] [7] 4"
  have "sigma_poll ex_group (\<lambda>_. ex_senv) 0 (ex_sigma\<lparr>sa_inbox := [?a]\<rparr>) =
      Inr (ex_sigma\<lparr>sa_task := Some (AggregatePreCommitments (st\<lparr>apc_handel := h\<rparr>), 4)\<rparr>, SigmaPending)"
    using init poll draw
    by (subst sigma_poll.simps) (simp add: sigma_iteration_def poll_task_def keep_task_def ex_sigma_def ex_senv_def)
  then show ?thesis
    by (simp add: ex_sigma_run_def ex_sigma_def)
      (simp add: sigma_inject_def ex_early_def stash_early_def ex_senv_def stash_message_def)
qed

theorem stash_without_effect_witness:
  "\<exists>s t. res_fold (sigma_step ex_group) (ex_sigma, []) ex_sigma_run = Inr (s, [SigmaPending]) \<and>
     res_fold (sigma_step ex_group) (ex_sigma\<lparr>sa_stash := stash_message 1 ex_early new_stash\<rparr>, []) ex_sigma_run =
       Inr (t, [SigmaPending]) \<and>
     t\<lparr>sa_stash := new_stash\<rparr> = s\<lparr>sa_stash := new_stash\<rparr>"
  using ex_sigma_runs stash_without_effect [where s = ex_sigma and evs = ex_sigma_run and G = ex_group] by blast

theorem certificates_answer_requests_witness:
  "\<exists>s. res_fold (sigma_step ex_group) (ex_sigma, []) ex_sigma_run = Inr (s, [SigmaPending]) \<and>
     subseq (map (\<lambda>(channel, cert). (channel, cert_message_digest cert)) (sa_results s)) [(4, [7])]"
proof -
  obtain s where s: "res_fold (sigma_step ex_group) (ex_sigma, []) ex_sigma_run = Inr (s, [SigmaPending])"
    using ex_sigma_runs by blast
  have "requests ex_sigma_run = [(4, [7])]" by (simp add: ex_sigma_run_def)
  with certificates_answer_requests [OF _ _ _ s] s show ?thesis by (auto simp: ex_sigma_def)
qed

end
