(* ===== verification/Spec2Isabelle.thy ===== *)
theory Spec2Isabelle
  imports Handel_Safety Peers_Correct Multicast_Correct Ledger_Correct Validation_Correct Diffusion_Correct
    Versioned_Correct Kes_Correct Vrf Network_Correct Discovery Sigma_Correct
begin

text \<open>
  \<^bold>\<open>Verification of the Spectrum Network node.\<close>

  The node runs protocols between peers of a committee. Connections are managed by three layers: a
  handler for each connection negotiates substreams and moves messages, the network controller turns
  events of connections into events of protocols and obeys the peer manager, and the peer manager
  decides which peers are connected. On top of them run the protocols: discovery exchanges addresses,
  diffusion synchronises block headers, Handel aggregates contributions of a committee in a binomial
  overlay, multicasting spreads a statement down a redundant tree, and signature aggregation uses
  three rounds of Handel and two of multicasting to produce a certificate. The ledger side links,
  evaluates and validates transactions and block headers, and keeps versions of its state in a store
  that can be rolled back. Headers are to be signed with key-evolving signatures and leaders drawn with
  verifiable random functions.

  \<^bold>\<open>Conventions.\<close> The state of a component is a record and each of its operations is a function on it.
  A panic of the code (indexing out of range, \<open>unwrap\<close> on nothing, division by zero, overflow with
  checks, \<open>todo!\<close>) is the left side of a result (\<open>'a res\<close> of Prelude), so that absence of panics is
  a theorem and their presence another. Errors the code returns as values are sums. Hash maps are
  partial or finite maps; where the code iterates over one, the order is a parameter constrained to
  enumerate its contents. Clocks are arguments and sleeping is an instant to wait for. Asynchronous
  tasks are resumptions (Task\_Pool); the schedule, including which tasks time out, is an argument of
  each poll, so that theorems hold for every schedule. Hash functions, encoders, length prefixes,
  sockets, curves, signature schemes, the random generator and the stores of the ledger are parameters
  (records), with the laws the code relies on as named hypotheses.

  \<^bold>\<open>Loops.\<close> Loops over a finite input are structural. Loops that recurse on something else come with a
  measure: the partition of indices, the links of the multicast tree, the activation of levels, the public key of a
  key tree, the handshake of a substream, the poll of signature aggregation, which ends since every iteration that continues has less
  work left (\<open>sigma_work\<close>). The loops of \<open>poll\<close> functions that wait for the environment consume a list
  of inputs, one for each iteration, and do nothing more when it is used up; the loop that draws a
  secret consumes a list of draws and is \<open>None\<close> when none of them fits. There is no other fuel. \<open>usize\<close>
  has 64 bits and \<open>u32\<close> 32; sums and products are checked where the code can overflow.

  \<^bold>\<open>Theories.\<close>

  \<^item> Prelude: panics, checked arithmetic, folds, sorting as the code does it, and the locales of event
    machines (invariants of runs, runs without panics, monotone runs).
  \<^item> Partitioning (\<open>spectrum-handel/src/partitioning.rs\<close>): padding, the partition of indices in levels
    and the overlay of a host. The levels are the sibling blocks of a binary tree, hosts agree on them
    when the number of peers is a power of two, and disagree in general when it is not.
  \<^item> Handel, Handel\_Correct, Handel\_Safety (\<open>spectrum-handel/src/lib.rs\<close>, \<open>message.rs\<close>): a round of
    aggregation. Complete aggregates verify and reach the threshold, honest peers are not banned,
    nothing achieved is lost, rounds do not panic on well-formed messages, and the inputs on which
    they do.
  \<^item> Peers, Peer\_Manager, Peers\_Correct (\<open>spectrum-network/src\<close>: \<open>types.rs\<close>,
    \<open>peer_manager.rs\<close> and the modules below it): peer information, the repository and the manager.
    The repository stays consistent, reports and backoffs have their effect, commands leave in order.
  \<^item> Overlay (\<open>spectrum-mcast/src/overlay.rs\<close> and \<open>algebra-core\<close>): the multicast tree. Its links are
    those of a binary heap, agree between participants and reach every peer.
  \<^item> Task\_Pool (\<open>spectrum-network/src/protocol_handler/pool.rs\<close>): tasks and the pool, with two invariants
    used by all clients: what tasks may do, and that answers find the task that asked.
  \<^item> Behaviour (\<open>protocol_handler.rs\<close>, \<open>protocol_api.rs\<close>, sinks and handshakes): the layer between a
    protocol and the network. The locale \<open>protocol_behaviour\<close> is the contract of a behaviour; runs of
    the handler are safe for every behaviour that keeps it.
  \<^item> Multicast, Multicast\_Correct (\<open>spectrum-mcast/src/behaviour.rs\<close>): both multicasting stages, as
    instances of the locale \<open>temporal_stage\<close>.
  \<^item> Diffusion, Diffusion\_Correct (\<open>spectrum-diffusion/src\<close>): synchronisation of chains, as an instance
    of \<open>protocol_behaviour\<close>; what a peer is told, and the inputs on which the node panics.
  \<^item> Discovery (\<open>protocol_handler/discovery.rs\<close>): the exchange of peers, as an instance of
    \<open>protocol_behaviour\<close>, with the bound on what is shared.
  \<^item> Substream (\<open>protocol_upgrade.rs\<close> and the modules below it, \<open>one_shot_upgrade.rs\<close>), Conn\_Handler
    (\<open>peer_conn_handler.rs\<close>) and Conn\_Correct: negotiation of substreams and the handler of a
    connection. What one side writes is what the other reads, messages are sent once and in order,
    one-shot messages are asked for once, and where the handler does not answer.
  \<^item> Network (\<open>network_controller.rs\<close>) and Network\_Correct: the controller, its invariant, the exact
    inputs on which it panics, and its composition with the connection handler and the peer manager:
    how a protocol is opened, and how a rejected or a second connection takes the node down.
  \<^item> Sigma, Sigma\_Correct (\<open>spectrum-sigma/src\<close>): aggregation of Schnorr signatures over the models of
    Handel and of multicasting. When certificates verify, that a member that never commits invalidates
    them, that early messages are lost, and that certificates answer requests.
  \<^item> Ledger, Ledger\_State, Ledger\_Correct (\<open>spectrum-ledger\<close>, \<open>spectrum-view/src/state\<close>): data of the
    ledger, linking and evaluation of transactions.
  \<^item> Validation, Validation\_Correct (\<open>spectrum-validation\<close>, \<open>spectrum-consensus\<close>): the validation
    combinators and the validation of block headers.
  \<^item> Versioned\_Store, Versioned\_Correct (\<open>spectrum-view/src/versioned_avl_storage/versioned_storage.rs\<close>):
    the store with its undo log, which refines a list of versions as long as its log is not emptied.
  \<^item> Kes, Kes\_Correct (\<open>spectrum-kes\<close>): the key tree, its updates, signatures and their verification.
  \<^item> Vrf (\<open>spectrum-vrf\<close>): proofs and their verification.

  \<^bold>\<open>Not modelled.\<close> The connectors to other chains (\<open>spectrum-ergo-connector\<close>,
  \<open>spectrum-cardano-connector\<close>) build and decode transactions with the libraries of those chains and keep
  them in RocksDB; the interface they share (\<open>spectrum-chain-connector\<close>) is data only. The vendored Move
  virtual machine (\<open>external/move\<close>) is another project, and \<open>spectrum-move\<close> a thin wrapper of it. The
  copies of Handel, multicasting and signature aggregation below \<open>spectrum-network/src/protocol_handler\<close>
  are superseded by the crates modelled here, and \<open>cosi.rs\<close> is not used. \<open>versioned_avl_storage.rs\<close>
  serialises nodes of an AVL tree library, and the implementations of the ledger history are
  \<open>todo!\<close>. The lottery of \<open>spectrum-vrf\<close> computes in floating point. Programs, terminal interfaces,
  configuration and tests are left out.
\<close>

end
